(* ===== verification/Prelude.thy ===== *)
theory Prelude
  imports Main "HOL-Library.Word" "HOL-Library.AList" "HOL-Library.List_Lexorder"
    "HOL-Library.Product_Lexorder" "HOL-Library.Multiset"
begin

text \<open>
  Vocabulary shared by every component: Rust's machine integers, \<open>Result\<close>, little-endian
  byte strings, \<open>HashMap\<close> and \<open>BTreeMap\<close>.

  A \<open>HashMap\<close> is an association list with distinct keys; the order of the list stands for the
  iteration order, which Rust leaves unspecified, so a lemma about every list with distinct keys
  is a lemma about every iteration order. A \<open>BTreeMap\<close> is an association list with strictly
  increasing keys. Both satisfy the locale \<open>map_api\<close>, in which the facts that the components
  share (look-up after an update, sums over the stored values) are proved once.
\<close>

named_theorems hm_simps \<open>look-up and well-formedness of the standard maps\<close>

type_synonym u8 = "8 word"
type_synonym u16 = "16 word"
type_synonym u32 = "32 word"
type_synonym u64 = "64 word"
type_synonym u128 = "128 word"
type_synonym bytes = "u8 list"
type_synonym 'a rs_result = "string + 'a"

abbreviation Err :: "string \<Rightarrow> 'a rs_result" where "Err \<equiv> Inl"
abbreviation Ok :: "'a \<Rightarrow> 'a rs_result" where "Ok \<equiv> Inr"

subsection \<open>Little-endian bytes\<close>

primrec le_bytes :: "nat \<Rightarrow> nat \<Rightarrow> bytes" where
  "le_bytes 0 n = []"
| "le_bytes (Suc k) n = word_of_nat (n mod 256) # le_bytes k (n div 256)"

primrec from_le :: "bytes \<Rightarrow> nat" where
  "from_le [] = 0"
| "from_le (b # bs) = unat b + 256 * from_le bs"

abbreviation u64_le :: "u64 \<Rightarrow> bytes" where "u64_le w \<equiv> le_bytes 8 (unat w)"
abbreviation u128_le :: "u128 \<Rightarrow> bytes" where "u128_le w \<equiv> le_bytes 16 (unat w)"

lemma length_le_bytes [simp]: "length (le_bytes k n) = k"
  by (induction k arbitrary: n) auto

lemma unat_byte [simp]: "unat (word_of_nat (n mod 256) :: u8) = n mod 256"
  by (simp add: unat_of_nat)

lemma from_le_bytes: "from_le (le_bytes k n) = n mod 256 ^ k"
proof (induction k arbitrary: n)
  case 0
  then show ?case by simp
next
  case (Suc k)
  then show ?case by (simp add: mod_mult2_eq)
qed

lemma from_le_u64 [simp]: "from_le (u64_le w) = unat w"
proof -
  have "unat w < 256 ^ 8" using unsigned_less [of w] by simp
  then show ?thesis by (simp only: from_le_bytes mod_less)
qed

lemma from_le_u128 [simp]: "from_le (u128_le w) = unat w"
proof -
  have "unat w < 256 ^ 16" using unsigned_less [of w] by simp
  then show ?thesis by (simp only: from_le_bytes mod_less)
qed

lemma u64_le_inject [simp]: "u64_le v = u64_le w \<longleftrightarrow> v = w"
  by (metis from_le_u64 word_unat_eq_iff)

subsection \<open>The interface of a map\<close>

locale map_api =
  fixes emp :: "'m" and get :: "'m \<Rightarrow> 'k \<Rightarrow> 'v option"
    and ins :: "'k \<Rightarrow> 'v \<Rightarrow> 'm \<Rightarrow> 'm" and rem :: "'k \<Rightarrow> 'm \<Rightarrow> 'm"
    and ent :: "'m \<Rightarrow> ('k \<times> 'v) list" and wf :: "'m \<Rightarrow> bool"
  assumes wf_emp: "wf emp" and wf_ins: "wf m \<Longrightarrow> wf (ins k v m)" and wf_rem: "wf m \<Longrightarrow> wf (rem k m)"
    and ent_emp: "ent emp = []"
    and ent_distinct: "wf m \<Longrightarrow> distinct (map fst (ent m))"
    and get_ent: "wf m \<Longrightarrow> get m = map_of (ent m)"
    and get_ins: "wf m \<Longrightarrow> get (ins k v m) = (get m)(k \<mapsto> v)"
    and get_rem: "wf m \<Longrightarrow> get (rem k m) = (get m)(k := None)"
begin

definition total :: "('v \<Rightarrow> 'n :: comm_monoid_add) \<Rightarrow> 'm \<Rightarrow> 'n" where
  "total f m = sum_list (map (f \<circ> snd) (ent m))"

lemma dom_get: "wf m \<Longrightarrow> dom (get m) = fst ` set (ent m)"
  by (simp add: get_ent dom_map_of_conv_image_fst)

lemma finite_dom: "wf m \<Longrightarrow> finite (dom (get m))"
  by (simp add: dom_get)

lemma length_dom: "wf m \<Longrightarrow> length (ent m) = card (dom (get m))"
  using distinct_card [OF ent_distinct [of m]] by (simp add: dom_get)

lemma total_dom: "wf m \<Longrightarrow> total f m = (\<Sum>k \<in> dom (get m). f (the (get m k)))"
proof -
  assume "wf m"
  then have d: "distinct (map fst (ent m))" and g: "get m = map_of (ent m)"
    by (simp_all add: ent_distinct get_ent)
  have "total f m = sum_list (map (\<lambda>k. f (the (get m k))) (map fst (ent m)))"
    unfolding total_def map_map o_def g
    using d by (intro arg_cong [where f = sum_list] map_cong) (auto simp: map_of_is_SomeI)
  then show ?thesis
    using d \<open>wf m\<close> by (simp only: sum_list_distinct_conv_sum_set) (simp add: dom_get)
qed

lemma total_ins:
  assumes "wf m"
  shows "total f (ins k v m) + (case get m k of None \<Rightarrow> 0 | Some w \<Rightarrow> f w) = total f m + f v"
proof -
  let ?D = "dom (get m) - {k}"
  have fin: "finite ?D" using finite_dom [OF assms] by simp
  have "(\<Sum>x \<in> ?D. f (the (get (ins k v m) x))) = (\<Sum>x \<in> ?D. f (the (get m x)))"
    by (rule sum.cong) (auto simp: get_ins [OF assms])
  then have a: "total f (ins k v m) = f v + (\<Sum>x \<in> ?D. f (the (get m x)))"
    using fin finite_dom [OF assms]
    by (simp add: total_dom [OF wf_ins [OF assms]] get_ins [OF assms] sum.insert_remove)
  have b: "total f m = (case get m k of None \<Rightarrow> 0 | Some w \<Rightarrow> f w) + (\<Sum>x \<in> ?D. f (the (get m x)))"
  proof (cases "get m k")
    case None
    then have "?D = dom (get m)" by auto
    with None show ?thesis by (simp add: total_dom [OF assms])
  next
    case (Some w)
    then have "k \<in> dom (get m)" by auto
    with Some show ?thesis
      using finite_dom [OF assms] by (simp add: total_dom [OF assms] sum.remove [where x = k])
  qed
  show ?thesis unfolding a b by (simp add: ac_simps)
qed

lemma total_rem:
  assumes "wf m"
  shows "total f (rem k m) + (case get m k of None \<Rightarrow> 0 | Some w \<Rightarrow> f w) = total f m"
proof (cases "get m k")
  case None
  then have "get (rem k m) = get m" by (auto simp: get_rem [OF assms])
  with None show ?thesis by (simp add: total_dom assms wf_rem)
next
  case (Some w)
  then have k: "k \<in> dom (get m)" by auto
  have "(\<Sum>x \<in> dom (get m) - {k}. f (the (get (rem k m) x))) =
      (\<Sum>x \<in> dom (get m) - {k}. f (the (get m x)))"
    by (rule sum.cong) (auto simp: get_rem [OF assms])
  with Some k show ?thesis
    using finite_dom [OF assms]
    by (simp add: total_dom assms wf_rem get_rem sum.remove [where x = k] ac_simps)
qed

lemma total_cong: "wf m \<Longrightarrow> wf m' \<Longrightarrow> get m = get m' \<Longrightarrow> total f m = total f m'"
  by (simp add: total_dom)

lemma length_ins:
  "wf m \<Longrightarrow> length (ent (ins k v m)) = (if get m k = None then Suc (length (ent m)) else length (ent m))"
  using finite_dom [of m]
  by (auto simp: length_dom wf_ins get_ins domI insert_absorb card_insert_if)

lemma length_rem:
  "wf m \<Longrightarrow> length (ent (rem k m)) = (if get m k = None then length (ent m) else length (ent m) - 1)"
  using finite_dom [of m]
  by (auto simp: length_dom wf_rem get_rem domIff)

end

subsection \<open>HashMap\<close>

type_synonym ('k, 'v) hashmap = "('k \<times> 'v) list"

definition hm_wf :: "('k, 'v) hashmap \<Rightarrow> bool" where "hm_wf m = distinct (map fst m)"
definition hm_get :: "('k, 'v) hashmap \<Rightarrow> 'k \<Rightarrow> 'v option" where "hm_get m = map_of m"
definition hm_insert :: "'k \<Rightarrow> 'v \<Rightarrow> ('k, 'v) hashmap \<Rightarrow> ('k, 'v) hashmap" where
  "hm_insert k v m = AList.update k v m"
definition hm_remove :: "'k \<Rightarrow> ('k, 'v) hashmap \<Rightarrow> ('k, 'v) hashmap" where
  "hm_remove k m = AList.delete k m"
definition hm_sum :: "('v \<Rightarrow> 'n :: comm_monoid_add) \<Rightarrow> ('k, 'v) hashmap \<Rightarrow> 'n" where
  "hm_sum f m = sum_list (map (f \<circ> snd) m)"

lemmas hm_defs = hm_wf_def hm_get_def hm_insert_def hm_remove_def

interpretation hm: map_api "[]" hm_get hm_insert hm_remove "\<lambda>m. m" hm_wf
  by unfold_locales
    (auto simp: hm_defs update_conv' distinct_update delete_conv' distinct_delete fun_eq_iff)

lemma hm_wf_simps [simp, hm_simps]:
  "hm_wf []" "hm_wf m \<Longrightarrow> hm_wf (hm_insert k v m)" "hm_wf m \<Longrightarrow> hm_wf (hm_remove k m)"
  by (simp_all add: hm.wf_emp hm.wf_ins hm.wf_rem)

lemma hm_get_simps [simp, hm_simps]:
  "hm_get [] = (\<lambda>_. None)" "hm_get (hm_insert k v m) = (hm_get m)(k \<mapsto> v)"
  "hm_get (hm_remove k m) = (hm_get m)(k := None)"
  by (simp_all add: hm_defs update_conv' delete_conv' fun_eq_iff)

lemma hm_sum_total: "hm_sum f = hm.total f"
  by (simp add: fun_eq_iff hm_sum_def hm.total_def)

lemmas hm_sum_insert = hm.total_ins [folded hm_sum_total]
lemmas hm_sum_remove = hm.total_rem [folded hm_sum_total]

lemma hm_get_in_set: "hm_get m k = Some v \<Longrightarrow> (k, v) \<in> set m"
  by (auto simp: hm_get_def dest: map_of_SomeD)

lemma hm_in_set_get: "hm_wf m \<Longrightarrow> (k, v) \<in> set m \<longleftrightarrow> hm_get m k = Some v"
  by (auto simp: hm_defs)

lemma hm_values_eq: "hm_wf m \<Longrightarrow> set (map snd m) = ran (hm_get m)"
  by (force simp: ran_def hm_in_set_get [symmetric])

subsection \<open>BTreeMap\<close>

type_synonym ('k, 'v) btree = "('k \<times> 'v) list"

fun bt_insert :: "'k :: linorder \<Rightarrow> 'v \<Rightarrow> ('k, 'v) btree \<Rightarrow> ('k, 'v) btree" where
  "bt_insert k v [] = [(k, v)]"
| "bt_insert k v ((a, b) # m) =
     (if k < a then (k, v) # (a, b) # m
      else if k = a then (k, v) # m else (a, b) # bt_insert k v m)"

fun bt_remove :: "'k :: linorder \<Rightarrow> ('k, 'v) btree \<Rightarrow> ('k, 'v) btree" where
  "bt_remove k [] = []"
| "bt_remove k ((a, b) # m) = (if k = a then m else (a, b) # bt_remove k m)"

definition bt_get :: "('k :: linorder, 'v) btree \<Rightarrow> 'k \<Rightarrow> 'v option" where
  "bt_get m = map_of m"

definition bt_wf :: "('k :: linorder, 'v) btree \<Rightarrow> bool" where
  "bt_wf m = sorted_wrt (<) (map fst m)"

lemma bt_insert_fst: "fst ` set (bt_insert k v m) = insert k (fst ` set m)"
  by (induction k v m rule: bt_insert.induct) auto

lemma bt_wf_insert: "bt_wf m \<Longrightarrow> bt_wf (bt_insert k v m)"
proof (induction k v m rule: bt_insert.induct)
  case (2 k v a b m)
  then show ?case
    using bt_insert_fst [of k v m] by (force simp: bt_wf_def)
qed (simp add: bt_wf_def)

lemma bt_remove_subset: "set (bt_remove k m) \<subseteq> set m"
  by (induction k m rule: bt_remove.induct) auto

lemma bt_wf_remove: "bt_wf m \<Longrightarrow> bt_wf (bt_remove k m)"
proof (induction k m rule: bt_remove.induct)
  case (2 k a b m)
  then show ?case using bt_remove_subset [of k m] by (auto simp: bt_wf_def)
qed (simp add: bt_wf_def)

lemma bt_get_insert: "bt_get (bt_insert k v m) = (bt_get m)(k \<mapsto> v)"
  by (induction k v m rule: bt_insert.induct) (auto simp: bt_get_def fun_eq_iff)

lemma bt_get_remove: "bt_wf m \<Longrightarrow> bt_get (bt_remove k m) = (bt_get m)(k := None)"
proof (induction k m rule: bt_remove.induct)
  case (2 k a b m)
  have "map_of m a = None" using "2.prems" by (force simp: bt_wf_def map_of_eq_None_iff)
  with 2 show ?case by (auto simp: bt_get_def bt_wf_def fun_eq_iff)
qed (simp add: bt_get_def)

lemma bt_wf_distinct: "bt_wf m \<Longrightarrow> distinct (map fst m)"
  by (simp add: bt_wf_def strict_sorted_iff)

interpretation bt: map_api "[]" bt_get bt_insert bt_remove "\<lambda>m. m" bt_wf
  by unfold_locales
    (auto simp: bt_wf_insert bt_wf_remove bt_get_insert bt_get_remove bt_wf_distinct,
     simp_all add: bt_wf_def bt_get_def)

lemma bt_simps [simp, hm_simps]:
  "bt_wf []" "bt_wf m \<Longrightarrow> bt_wf (bt_insert k v m)" "bt_wf m \<Longrightarrow> bt_wf (bt_remove k m)"
  "bt_get [] = (\<lambda>_. None)" "bt_get (bt_insert k v m) = (bt_get m)(k \<mapsto> v)"
  "bt_wf m \<Longrightarrow> bt_get (bt_remove k m) = (bt_get m)(k := None)"
  by (simp_all add: bt.wf_emp bt_wf_insert bt_wf_remove bt_get_insert bt_get_remove)
    (simp add: bt_get_def)

lemma bt_in_set_get: "bt_wf m \<Longrightarrow> (k, v) \<in> set m \<longleftrightarrow> bt_get m k = Some v"
  by (simp add: bt_get_def bt_wf_distinct)

subsection \<open>Options and results\<close>

primrec unwrap_or :: "'a option \<Rightarrow> 'a \<Rightarrow> 'a" where
  "unwrap_or None d = d"
| "unwrap_or (Some x) d = x"

lemma set_map_filter [simp]: "set (List.map_filter f xs) = {y. \<exists>x \<in> set xs. f x = Some y}"
  by (induction xs) (auto simp: List.map_filter_simps split: option.splits)

end
