(* ===== verification/Types.thy ===== *)
theory Types
  imports Prelude
begin

text \<open>
  \<^verbatim>\<open>src/src/types/mod.rs\<close>: hashes, addresses, stealth addresses, transactions, blocks, accounts,
  the chain configuration and the Merkle tree.

  SHA3-256, \<^verbatim>\<open>bincode\<close> and \<^verbatim>\<open>bs58\<close> are crates outside the repository. They are the fields of
  \<open>ext\<close>, a parameter of the definitions that call them; what a lemma relies on (a round trip,
  no collision among finitely many given inputs) is a hypothesis of that lemma. Arrays
  \<^verbatim>\<open>[u8; n]\<close> are byte lists; \<open>hash_wf\<close> and \<open>address_wf\<close> say that they have their length.
\<close>

subsection \<open>Hashes and addresses\<close>

datatype hash = Hash (hash_bytes: bytes)

definition hash_wf :: "hash \<Rightarrow> bool" where
  "hash_wf h \<longleftrightarrow> length (hash_bytes h) = 32"

definition hash_new :: "(bytes \<Rightarrow> bytes) \<Rightarrow> bytes \<Rightarrow> hash" where
  "hash_new sha data = Hash (sha data)"

definition hash_zero :: hash where
  "hash_zero = Hash (replicate 32 0)"

datatype address = Address (address_bytes: bytes)

definition address_wf :: "address \<Rightarrow> bool" where
  "address_wf a \<longleftrightarrow> length (address_bytes a) = 20"

definition address_new :: "(bytes \<Rightarrow> bytes) \<Rightarrow> bytes \<Rightarrow> address" where
  "address_new sha pubkey = Address (take 20 (drop 12 (hash_bytes (hash_new sha pubkey))))"

definition to_proton_address :: "(bytes \<Rightarrow> string) \<Rightarrow> address \<Rightarrow> string" where
  "to_proton_address bs58 a = ''proton_'' @ bs58 (address_bytes a)"

text \<open>What \<^verbatim>\<open>Display\<close> and \<^verbatim>\<open>Debug\<close> print.\<close>

definition to_hex :: "(bytes \<Rightarrow> string) \<Rightarrow> hash \<Rightarrow> string" where
  "to_hex hex h = hex (hash_bytes h)"

definition hash_display :: "(bytes \<Rightarrow> string) \<Rightarrow> hash \<Rightarrow> string" where
  "hash_display hex h = to_hex hex h"

definition hash_debug :: "(bytes \<Rightarrow> string) \<Rightarrow> hash \<Rightarrow> string" where
  "hash_debug hex h = ''Hash('' @ to_hex hex h @ '')''"

definition address_debug :: "(bytes \<Rightarrow> string) \<Rightarrow> address \<Rightarrow> string" where
  "address_debug bs58 a = ''Address('' @ to_proton_address bs58 a @ '')''"

text \<open>The milliseconds since 1970, or 0 for a clock set before; \<^verbatim>\<open>as u64\<close> cuts the 128 bits off.\<close>

definition current_timestamp_ms :: "u128 option \<Rightarrow> u64" where
  "current_timestamp_ms since_epoch = ucast (unwrap_or since_epoch 0)"

instantiation address :: linorder
begin

definition less_eq_address :: "address \<Rightarrow> address \<Rightarrow> bool" where
  "a \<le> b \<longleftrightarrow> address_bytes a \<le> address_bytes b"

definition less_address :: "address \<Rightarrow> address \<Rightarrow> bool" where
  "a < b \<longleftrightarrow> address_bytes a < address_bytes b"

instance
  by standard (auto simp: less_eq_address_def less_address_def intro: address.expand)

end

lemma hash_zero_wf [simp]: "hash_wf hash_zero"
  by (simp add: hash_wf_def hash_zero_def)

lemma hash_new_inject: "hash_new sha x = hash_new sha y \<longleftrightarrow> sha x = sha y"
  by (simp add: hash_new_def)

lemma address_new_wf: "length (sha p) = 32 \<Longrightarrow> address_wf (address_new sha p)"
  by (simp add: address_wf_def address_new_def hash_new_def)

subsection \<open>Stealth addresses\<close>

record stealth_address =
  ephemeral_pubkey :: bytes
  encrypted_view_tag :: bytes

definition stealth_derive :: "(bytes \<Rightarrow> bytes) \<Rightarrow> bytes \<Rightarrow> bytes \<Rightarrow> u64 \<Rightarrow> stealth_address" where
  "stealth_derive sha view_key spend_key nonce =
     (let ephemeral = sha (view_key @ u64_le nonce);
          view_tag = sha (spend_key @ ephemeral)
      in \<lparr>ephemeral_pubkey = ephemeral, encrypted_view_tag = view_tag\<rparr>)"

subsection \<open>Transactions, blocks, accounts\<close>

datatype transaction_type =
  Transfer | ContractDeploy | ContractCall | Stake | Unstake | CrossChain | PrivateTransfer

record transaction =
  tx_type :: transaction_type
  tx_nonce :: u64
  tx_from :: address
  tx_to :: "address option"
  tx_value :: u128
  tx_gas_price :: u128
  tx_gas_limit :: u64
  tx_data :: bytes
  tx_shard_id :: u16
  tx_timestamp :: u64
  tx_signature :: bytes
  tx_stealth_address :: "stealth_address option"
  tx_zk_proof :: "bytes option"
  tx_encrypted_amount :: "bytes option"

record block_header =
  hdr_version :: u32
  hdr_prev_hash :: hash
  hdr_merkle_root :: hash
  hdr_state_root :: hash
  hdr_shard_id :: u16
  hdr_height :: u64
  hdr_timestamp :: u64
  hdr_validator :: address
  hdr_signature :: bytes
  hdr_tx_count :: u32
  hdr_gas_used :: u64
  hdr_extra_data :: bytes

record shard_proof =
  sp_shard_id :: u16
  sp_block_hash :: hash
  sp_state_root :: hash
  sp_signature :: bytes

record block =
  header :: block_header
  transactions :: "transaction list"
  shard_proofs :: "shard_proof list"

record account =
  acc_nonce :: u64
  acc_balance :: u128
  acc_code_hash :: "hash option"
  acc_storage_root :: hash
  acc_validator_stake :: u128
  acc_is_contract :: bool
  acc_view_key :: "bytes option"
  acc_spend_key :: "bytes option"

text \<open>
  \<^verbatim>\<open>#[derive(Default)]\<close> of \<open>Account\<close>: zero, \<open>None\<close> and \<open>false\<close> in every field. (\<open>Hash\<close> derives
  no \<open>Default\<close> in the source; its all-zero value \<open>Hash::zero()\<close> stands in \<open>storage_root\<close>.)
\<close>

definition account_default :: account where
  "account_default =
     \<lparr>acc_nonce = 0, acc_balance = 0, acc_code_hash = None, acc_storage_root = hash_zero,
      acc_validator_stake = 0, acc_is_contract = False, acc_view_key = None, acc_spend_key = None\<rparr>"

record ext =
  sha3_256 :: "bytes \<Rightarrow> bytes"
  ser_transaction :: "transaction \<Rightarrow> bytes option"
  ser_header :: "block_header \<Rightarrow> bytes option"

definition tx_hash :: "ext \<Rightarrow> transaction \<Rightarrow> hash" where
  "tx_hash E tx = hash_new (sha3_256 E) (unwrap_or (ser_transaction E tx) [])"

definition header_hash :: "ext \<Rightarrow> block_header \<Rightarrow> hash" where
  "header_hash E h = hash_new (sha3_256 E) (unwrap_or (ser_header E h) [])"

definition is_private :: "transaction \<Rightarrow> bool" where
  "is_private tx \<longleftrightarrow> tx_type tx = PrivateTransfer \<or> tx_zk_proof tx \<noteq> None"

definition gas_cost :: "transaction \<Rightarrow> u128" where
  "gas_cost tx = tx_gas_price tx * ucast (tx_gas_limit tx)"

text \<open>Transactions and an instance of the crates for the concrete instances of later theories.\<close>

definition sample_tx :: "u8 \<Rightarrow> u64 \<Rightarrow> address option \<Rightarrow> u128 \<Rightarrow> u128 \<Rightarrow> transaction" where
  "sample_tx from nonce to value price =
     \<lparr>tx_type = Transfer, tx_nonce = nonce, tx_from = Address [from], tx_to = to, tx_value = value,
      tx_gas_price = price, tx_gas_limit = 1, tx_data = [], tx_shard_id = 0, tx_timestamp = 0,
      tx_signature = [], tx_stealth_address = None, tx_zk_proof = None, tx_encrypted_amount = None\<rparr>"

definition sample_ext :: ext where
  "sample_ext = \<lparr>sha3_256 = (\<lambda>b. b),
     ser_transaction = (\<lambda>tx. Some (address_bytes (tx_from tx) @ [ucast (tx_nonce tx)])),
     ser_header = (\<lambda>h. Some [ucast (hdr_height h)])\<rparr>"

lemma sample_tx_hash [simp]: "tx_hash sample_ext (sample_tx b n to v p) = Hash [b, ucast n]"
  by (simp add: tx_hash_def sample_ext_def sample_tx_def hash_new_def)

subsection \<open>Configuration\<close>

record chain_config =
  cfg_chain_id :: u64
  cfg_shard_count :: u16
  cfg_block_time_ms :: u64
  cfg_min_gas_price :: u128
  cfg_max_block_gas :: u64
  cfg_validator_count :: u32
  cfg_epoch_length :: u64
  cfg_privacy_enabled :: bool
  cfg_cross_chain_enabled :: bool

definition chain_config_default :: chain_config where
  "chain_config_default =
     \<lparr>cfg_chain_id = 1337, cfg_shard_count = 64, cfg_block_time_ms = 300, cfg_min_gas_price = 1,
      cfg_max_block_gas = 50000000, cfg_validator_count = 128, cfg_epoch_length = 1000,
      cfg_privacy_enabled = True, cfg_cross_chain_enabled = True\<rparr>"

subsection \<open>Merkle tree\<close>

definition merkle_combine :: "(bytes \<Rightarrow> bytes) \<Rightarrow> hash \<Rightarrow> hash \<Rightarrow> hash" where
  "merkle_combine sha l r = hash_new sha (hash_bytes l @ hash_bytes r)"

text \<open>One pass of the \<open>for chunk in current.chunks(2)\<close> loop.\<close>

fun merkle_level :: "(bytes \<Rightarrow> bytes) \<Rightarrow> hash list \<Rightarrow> hash list" where
  "merkle_level sha [] = []"
| "merkle_level sha [l] = [merkle_combine sha l l]"
| "merkle_level sha (l # r # hs) = merkle_combine sha l r # merkle_level sha hs"

lemma length_merkle_level: "length (merkle_level sha hs) = (length hs + 1) div 2"
  by (induction sha hs rule: merkle_level.induct) auto

function merkle_loop :: "(bytes \<Rightarrow> bytes) \<Rightarrow> hash list \<Rightarrow> hash list" where
  "merkle_loop sha current =
     (if length current > 1 then merkle_loop sha (merkle_level sha current) else current)"
  by pat_completeness auto
termination
  by (relation "measure (\<lambda>(sha, current). length current)") (auto simp: length_merkle_level)

declare merkle_loop.simps [simp del]

definition merkle_root :: "(bytes \<Rightarrow> bytes) \<Rightarrow> hash list \<Rightarrow> hash" where
  "merkle_root sha leaves = (if leaves = [] then hash_zero else hd (merkle_loop sha leaves))"

text \<open>The 64-byte strings that one level, and the whole computation, feed to the hash function.\<close>

fun level_inputs :: "hash list \<Rightarrow> bytes set" where
  "level_inputs [] = {}"
| "level_inputs [l] = {hash_bytes l @ hash_bytes l}"
| "level_inputs (l # r # hs) = insert (hash_bytes l @ hash_bytes r) (level_inputs hs)"

function merkle_inputs :: "(bytes \<Rightarrow> bytes) \<Rightarrow> hash list \<Rightarrow> bytes set" where
  "merkle_inputs sha hs =
     (if length hs > 1 then level_inputs hs \<union> merkle_inputs sha (merkle_level sha hs) else {})"
  by pat_completeness auto
termination
  by (relation "measure (\<lambda>(sha, hs). length hs)") (auto simp: length_merkle_level)

declare merkle_inputs.simps [simp del]

lemma merkle_loop_length: "hs \<noteq> [] \<Longrightarrow> length (merkle_loop sha hs) = 1"
proof (induction sha hs rule: merkle_loop.induct)
  case (1 sha hs)
  show ?case
  proof (cases "length hs > 1")
    case True
    then have "merkle_level sha hs \<noteq> []"
      using length_merkle_level [of sha hs] by auto
    with True 1 show ?thesis by (simp add: merkle_loop.simps [of sha hs])
  next
    case False
    then have "merkle_loop sha hs = hs" by (simp add: merkle_loop.simps [of sha hs])
    with False "1.prems" show ?thesis by (cases hs) auto
  qed
qed

lemma merkle_loop_singleton [simp]: "merkle_loop sha [h] = [h]"
  by (simp add: merkle_loop.simps [of sha "[h]"])

lemma merkle_root_singleton: "merkle_root sha [h] = h"
  by (simp add: merkle_root_def)

lemma merkle_root_loop: "hs \<noteq> [] \<Longrightarrow> merkle_loop sha hs = [merkle_root sha hs]"
  using merkle_loop_length [of hs sha] by (auto simp: merkle_root_def length_Suc_conv)

lemma merkle_level_nonempty [simp]: "merkle_level sha hs = [] \<longleftrightarrow> hs = []"
  by (cases "(sha, hs)" rule: merkle_level.cases) auto

lemma merkle_root_step:
  "length hs > 1 \<Longrightarrow> merkle_root sha hs = merkle_root sha (merkle_level sha hs)"
  by (auto simp: merkle_root_def merkle_loop.simps [of sha hs])

lemma merkle_level_inject:
  assumes "length xs = length ys" and "merkle_level sha xs = merkle_level sha ys"
    and "inj_on sha (level_inputs xs \<union> level_inputs ys)"
    and "\<forall>h \<in> set xs \<union> set ys. hash_wf h"
  shows "xs = ys"
  using assms
proof (induction xs arbitrary: ys rule: level_inputs.induct)
  case 1
  then show ?case by simp
next
  case (2 l)
  from 2(1) obtain y where y: "ys = [y]" by (cases ys) auto
  with 2 have "sha (hash_bytes l @ hash_bytes l) = sha (hash_bytes y @ hash_bytes y)"
    by (simp add: merkle_combine_def hash_new_inject)
  then have "hash_bytes l @ hash_bytes l = hash_bytes y @ hash_bytes y"
    by (rule inj_onD [OF "2.prems"(3)]) (simp_all add: y)
  with 2 y show ?case by (auto simp: hash_wf_def intro: hash.expand)
next
  case (3 l r hs)
  then have "length ys = Suc (Suc (length hs))" by simp
  then obtain l' r' hs' where ys: "ys = l' # r' # hs'" by (auto simp: length_Suc_conv)
  with "3.prems" have "sha (hash_bytes l @ hash_bytes r) = sha (hash_bytes l' @ hash_bytes r')"
    by (simp add: merkle_combine_def hash_new_inject)
  then have "hash_bytes l @ hash_bytes r = hash_bytes l' @ hash_bytes r'"
    by (rule inj_onD [OF "3.prems"(3)]) (simp_all add: ys)
  with "3.prems" ys have "l = l' \<and> r = r'"
    by (auto simp: hash_wf_def intro: hash.expand)
  moreover have "hs = hs'"
    using "3.prems" ys by (intro "3.IH") (auto intro: inj_on_subset)
  ultimately show ?case by (simp add: ys)
qed

lemma merkle_level_wf:
  "(\<And>b. length (sha b) = 32) \<Longrightarrow> h \<in> set (merkle_level sha hs) \<Longrightarrow> hash_wf h"
  by (induction sha hs rule: merkle_level.induct)
    (auto simp: merkle_combine_def hash_new_def hash_wf_def)

lemma merkle_level_snoc:
  "odd (length hs) \<Longrightarrow> merkle_level sha (hs @ [last hs]) = merkle_level sha hs"
proof (induction sha hs rule: merkle_level.induct)
  case (3 sha l r hs)
  then show ?case by (cases hs) auto
qed auto

text \<open>
  C22. The Merkle root is binding: two lists of leaves of the same length with the same root are
  equal, unless the hash function maps two of the finitely many 64-byte strings that the two
  computations hash to one value.
\<close>
theorem merkle_root_binding:
  assumes "length xs = length ys"
    and "\<And>b. length (sha b) = 32"
    and "\<forall>h \<in> set xs \<union> set ys. hash_wf h"
    and "inj_on sha (merkle_inputs sha xs \<union> merkle_inputs sha ys)"
  shows "merkle_root sha xs = merkle_root sha ys \<longleftrightarrow> xs = ys"
  using assms
proof (induction sha xs arbitrary: ys rule: merkle_loop.induct)
  case (1 sha xs)
  show ?case
  proof (cases "length xs > 1")
    case True
    let ?xs = "merkle_level sha xs" and ?ys = "merkle_level sha ys"
    have inp: "merkle_inputs sha xs = level_inputs xs \<union> merkle_inputs sha ?xs"
      "merkle_inputs sha ys = level_inputs ys \<union> merkle_inputs sha ?ys"
      using True "1.prems" by (simp_all add: merkle_inputs.simps [of sha xs]
          merkle_inputs.simps [of sha ys])
    have "merkle_root sha ?xs = merkle_root sha ?ys \<longleftrightarrow> ?xs = ?ys"
      using True "1.prems" inp
      by (intro "1.IH") (auto simp: length_merkle_level intro: merkle_level_wf [OF "1.prems"(2)] inj_on_subset)
    also have "\<dots> \<longleftrightarrow> xs = ys"
      using "1.prems" inp by (auto intro!: merkle_level_inject [of xs ys sha] intro: inj_on_subset)
    finally show ?thesis using True "1.prems" by (simp add: merkle_root_step)
  next
    case False
    with "1.prems" show ?thesis
      by (cases xs; cases ys) (auto simp: merkle_root_singleton merkle_root_def)
  qed
qed

theorem merkle_root_binding_witness:
  "merkle_root (\<lambda>b. take 32 (b @ replicate 32 0)) [Hash (replicate 32 1), Hash (replicate 32 2)]
    \<noteq> merkle_root (\<lambda>b. take 32 (b @ replicate 32 0)) [Hash (replicate 32 3), Hash (replicate 32 2)]"
proof -
  let ?sha = "\<lambda>b :: bytes. take 32 (b @ replicate 32 0)"
  let ?xs = "[Hash (replicate 32 1), Hash (replicate 32 2)]"
  let ?ys = "[Hash (replicate 32 3), Hash (replicate 32 2)]"
  have inj: "inj_on ?sha (merkle_inputs ?sha ?xs \<union> merkle_inputs ?sha ?ys)"
    by (simp add: merkle_inputs.simps)
  show ?thesis
    using merkle_root_binding [of ?xs ?ys ?sha, OF _ _ _ inj] by (simp add: hash_wf_def)
qed

text \<open>
  The tree pairs an odd last node with itself, so it does not bind the number of leaves:
  repeating the last of an odd number of leaves (at least three) leaves the root unchanged.
\<close>
theorem merkle_root_duplicate_last:
  assumes "odd (length hs)" and "length hs > 1"
  shows "merkle_root sha (hs @ [last hs]) = merkle_root sha hs"
proof -
  have "merkle_root sha (hs @ [last hs]) = merkle_root sha (merkle_level sha (hs @ [last hs]))"
    using assms by (intro merkle_root_step) auto
  also have "\<dots> = merkle_root sha (merkle_level sha hs)"
    by (simp only: merkle_level_snoc [OF assms(1)])
  also have "\<dots> = merkle_root sha hs"
    using assms(2) by (rule merkle_root_step [symmetric])
  finally show ?thesis .
qed

theorem merkle_root_duplicate_last_witness:
  "merkle_root (take 32) [Hash [1], Hash [2], Hash [3], Hash [3]]
    = merkle_root (take 32) [Hash [1], Hash [2], Hash [3]]"
  using merkle_root_duplicate_last [of "[Hash [1], Hash [2], Hash [3]]" "take 32"] by simp

end
