(* ===== verification/Validators.thy ===== *)
theory Validators
  imports Types
begin

text \<open>
  \<^verbatim>\<open>src/src/consensus/mod.rs\<close>, first part: \<open>Validator\<close>, \<open>ValidatorSet\<close> and
  \<open>QuorumCertificate::verify\<close>. The crates \<^verbatim>\<open>secp256k1\<close> and \<^verbatim>\<open>rand\<close> are parameters: \<open>secp\<close>
  collects the three parsers and the ECDSA check, \<open>shuffle\<close> is the seeded shuffle. The
  \<^verbatim>\<open>RwLock\<close>s guard single operations only, so an operation is one atomic step on the record.
  \<^verbatim>\<open>uptime: f64\<close> is kept as its 64 bits, no operation computes with it.
\<close>

subsection \<open>Definitions\<close>

datatype consensus_phase = NewView | Prepare | PreCommit | Commit | Decide

record validator =
  val_address :: address
  val_public_key :: bytes
  val_stake :: u128
  val_commission :: u8
  val_uptime :: "64 word"
  val_last_active :: u64

record secp =
  pubkey_from_slice :: "bytes \<Rightarrow> bytes option"
  message_from_slice :: "bytes \<Rightarrow> bytes option"
  signature_from_compact :: "bytes \<Rightarrow> bytes option"
  verify_ecdsa :: "bytes \<Rightarrow> bytes \<Rightarrow> bytes \<Rightarrow> bool"

definition verify_signature :: "secp \<Rightarrow> validator \<Rightarrow> hash \<Rightarrow> bytes \<Rightarrow> bool" where
  "verify_signature S v h signature =
     (case pubkey_from_slice S (val_public_key v) of None \<Rightarrow> False
      | Some pubkey \<Rightarrow>
          (case message_from_slice S (hash_bytes h) of None \<Rightarrow> False
           | Some msg \<Rightarrow>
               (case signature_from_compact S signature of None \<Rightarrow> False
                | Some sig \<Rightarrow> verify_ecdsa S msg sig pubkey)))"

record validator_set =
  validators :: "(address, validator) hashmap"
  total_stake :: u128

definition validator_set_new :: validator_set where
  "validator_set_new = \<lparr>validators = [], total_stake = 0\<rparr>"

definition add_validator :: "validator \<Rightarrow> validator_set \<Rightarrow> validator_set" where
  "add_validator v vs =
     vs\<lparr>total_stake := total_stake vs + val_stake v,
        validators := hm_insert (val_address v) v (validators vs)\<rparr>"

definition get_validator :: "validator_set \<Rightarrow> address \<Rightarrow> validator option" where
  "get_validator vs a = hm_get (validators vs) a"

definition get_leader :: "validator_set \<Rightarrow> u64 \<Rightarrow> address option" where
  "get_leader vs round =
     (let sorted = sort_key val_address (map snd (validators vs)) in
      if sorted = [] then None
      else Some (val_address (sorted ! (unat round mod length sorted))))"

definition committee_seed :: "u64 \<Rightarrow> bytes" where
  "committee_seed round = u64_le round @ replicate 24 0"

definition get_random_committee ::
    "(bytes \<Rightarrow> address list \<Rightarrow> address list) \<Rightarrow> validator_set \<Rightarrow> u64 \<Rightarrow> nat \<Rightarrow> address list" where
  "get_random_committee shuffle vs round n =
     take n (shuffle (committee_seed round) (map fst (validators vs)))"

definition validator_count :: "validator_set \<Rightarrow> nat" where
  "validator_count vs = length (validators vs)"

record quorum_certificate =
  qc_block_hash :: hash
  qc_height :: u64
  qc_round :: u64
  qc_phase :: consensus_phase
  qc_signatures :: "(address \<times> bytes) list"
  qc_timestamp :: u64

definition qc_weigh :: "secp \<Rightarrow> validator_set \<Rightarrow> hash \<Rightarrow> address \<times> bytes \<Rightarrow> u128 \<Rightarrow> u128" where
  "qc_weigh S vs h = (\<lambda>(addr, sig) stake_weight.
     (case get_validator vs addr of
        None \<Rightarrow> stake_weight
      | Some v \<Rightarrow> if verify_signature S v h sig then stake_weight + val_stake v else stake_weight))"

definition qc_verify :: "secp \<Rightarrow> quorum_certificate \<Rightarrow> validator_set \<Rightarrow> bool" where
  "qc_verify S qc vs =
     (let threshold = total_stake vs * 2 div 3;
          stake_weight = fold (qc_weigh S vs (qc_block_hash qc)) (qc_signatures qc) 0
      in stake_weight \<ge> threshold)"

text \<open>Validators and sets for the concrete instances below.\<close>

definition sample_validator :: "u8 \<Rightarrow> u128 \<Rightarrow> validator" where
  "sample_validator b stake =
     \<lparr>val_address = Address [b], val_public_key = [b], val_stake = stake, val_commission = 0,
      val_uptime = 0, val_last_active = 0\<rparr>"

definition sample_set :: "u8 list \<Rightarrow> u128 \<Rightarrow> validator_set" where
  "sample_set bs stake = fold (\<lambda>b. add_validator (sample_validator b stake)) bs validator_set_new"

subsection \<open>Invariant of the validator set\<close>

definition vs_wf :: "validator_set \<Rightarrow> bool" where
  "vs_wf vs \<longleftrightarrow> hm_wf (validators vs) \<and>
     (\<forall>k v. hm_get (validators vs) k = Some v \<longrightarrow> val_address v = k)"

definition vs_consistent :: "validator_set \<Rightarrow> bool" where
  "vs_consistent vs \<longleftrightarrow> total_stake vs = hm_sum val_stake (validators vs)"

lemma get_validator_eq: "get_validator vs = hm_get (validators vs)"
  by (simp add: fun_eq_iff get_validator_def)

lemma vs_wf_new [simp]: "vs_wf validator_set_new"
  by (simp add: vs_wf_def validator_set_new_def)

lemma vs_wf_add: "vs_wf vs \<Longrightarrow> vs_wf (add_validator v vs)"
  by (simp add: vs_wf_def add_validator_def)

lemma vs_wf_sample [simp]: "vs_wf (sample_set bs stake)"
proof -
  have "vs_wf vs \<Longrightarrow> vs_wf (fold (\<lambda>b. add_validator (sample_validator b stake)) bs vs)" for vs
    by (induction bs arbitrary: vs) (simp_all add: vs_wf_add)
  then show ?thesis by (simp add: sample_set_def)
qed

lemmas sample_defs = sample_set_def sample_validator_def add_validator_def validator_set_new_def
  hm_insert_def

lemma vs_wf_get: "vs_wf vs \<Longrightarrow> get_validator vs a = Some v \<Longrightarrow> val_address v = a"
  by (simp add: vs_wf_def get_validator_def)

text \<open>
  \<open>add_validator\<close> keeps the well-formedness of the set, stores the validator under its
  address, and keeps \<open>total_stake\<close> equal to the sum of the stored stakes exactly when the
  address is new: a validator that is added again leaves its old stake in the total.
\<close>
theorem add_validator_total:
  assumes "vs_wf vs" and "vs_consistent vs"
  shows "vs_wf (add_validator v vs) \<and> get_validator (add_validator v vs) (val_address v) = Some v \<and>
    total_stake (add_validator v vs) = hm_sum val_stake (validators (add_validator v vs))
      + (case get_validator vs (val_address v) of None \<Rightarrow> 0 | Some old \<Rightarrow> val_stake old)"
proof -
  have "hm_wf (validators vs)" using assms(1) by (simp add: vs_wf_def)
  from hm_sum_insert [OF this, of val_stake "val_address v" v] show ?thesis
    using assms vs_wf_add [OF assms(1), of v]
    by (simp add: vs_consistent_def add_validator_def get_validator_def)
qed

subsection \<open>Leader election\<close>

lemma sort_key_Nil [simp]: "sort_key f xs = [] \<longleftrightarrow> xs = []"
  by (metis length_0_conv length_sort)

lemma sorted_addresses:
  assumes "vs_wf vs"
  shows "map val_address (sort_key val_address (map snd (validators vs)))
    = sorted_list_of_set (fst ` set (validators vs))"
proof -
  let ?vs = "sort_key val_address (map snd (validators vs))"
  have keys: "map val_address (map snd (validators vs)) = map fst (validators vs)"
    using assms by (auto simp: vs_wf_def hm_in_set_get)
  have m: "mset (map val_address ?vs) = mset (map fst (validators vs))"
    unfolding keys [symmetric] by (simp only: mset_map mset_sort)
  then have "distinct (map val_address ?vs)" "set (map val_address ?vs) = fst ` set (validators vs)"
    using assms mset_eq_imp_distinct_iff [OF m] mset_eq_setD [OF m]
    by (simp_all add: vs_wf_def hm_wf_def del: set_sort)
  then show ?thesis
    by (metis sorted_sort_key sorted_list_of_set.idem_if_sorted_distinct)
qed

lemma get_leader_facts:
  assumes "vs_wf vs"
  shows "get_leader vs round =
    (let ks = sorted_list_of_set (fst ` set (validators vs)) in
     if ks = [] then None else Some (ks ! (unat round mod length ks)))"
proof -
  let ?vs = "sort_key val_address (map snd (validators vs))"
  have len: "length (sorted_list_of_set (fst ` set (validators vs))) = length (validators vs)"
    using arg_cong [OF sorted_addresses [OF assms], of length] by simp
  have "val_address (?vs ! (unat round mod length (validators vs)))
      = sorted_list_of_set (fst ` set (validators vs)) ! (unat round mod length (validators vs))"
    if "validators vs \<noteq> []"
    using that by (simp add: sorted_addresses [OF assms, symmetric])
  then show ?thesis
    using len by (auto simp: get_leader_def Let_def)
qed

text \<open>
  The leader of a round is the validator at position \<open>round mod n\<close> of the addresses in
  increasing order, whatever the iteration order of the hash map; there is none exactly when the
  set is empty.
\<close>
theorem get_leader_spec:
  assumes "vs_wf vs"
  shows "get_leader vs round =
    (let ks = sorted_list_of_set (fst ` set (validators vs)) in
     if ks = [] then None else Some (ks ! (unat round mod length ks)))"
  by (rule get_leader_facts) (use assms in blast)+

theorem add_validator_total_witness:
  "total_stake (add_validator (sample_validator 1 7) (sample_set [1, 2] 5)) = 17 \<and>
   hm_sum val_stake (validators (add_validator (sample_validator 1 7) (sample_set [1, 2] 5))) = 12"
  using add_validator_total [of "sample_set [1, 2] 5" "sample_validator 1 7"]
  by (simp add: vs_consistent_def get_validator_def hm_sum_def sample_defs hm_get_def)

theorem get_leader_spec_witness: "get_leader (sample_set [3, 1, 2] 5) 4 = Some (Address [2])"
  using get_leader_spec [of "sample_set [3, 1, 2] 5" 4]
  by (simp add: Let_def) (simp add: sample_defs less_eq_address_def)

lemma nth_rotate_unique:
  fixes xs :: "'a list"
  assumes "distinct xs" and "a \<in> set xs"
  shows "\<exists>!i. i < length xs \<and> xs ! ((r + i) mod length xs) = a"
proof -
  let ?n = "length xs"
  from assms(2) obtain j where j: "j < ?n" "xs ! j = a" by (auto simp: in_set_conv_nth)
  then have n: "0 < ?n" by linarith
  have pos: "xs ! ((r + i) mod ?n) = a \<longleftrightarrow> (r + i) mod ?n = j" for i
    using assms(1) j n by (metis mod_less_divisor nth_eq_iff_index_eq)
  show ?thesis
  proof (rule ex1I)
    let ?i = "(j + (?n - r mod ?n)) mod ?n"
    have "(r + ?i) mod ?n = (r mod ?n + (j + (?n - r mod ?n))) mod ?n"
      by (simp add: mod_simps)
    also have "r mod ?n + (j + (?n - r mod ?n)) = j + ?n"
      using mod_less_divisor [OF n, of r] by arith
    finally show "?i < ?n \<and> xs ! ((r + ?i) mod ?n) = a"
      using n j by (simp add: pos)
  next
    fix i assume i: "i < ?n \<and> xs ! ((r + i) mod ?n) = a"
    then have "(r + i) mod ?n = j" by (simp add: pos)
    then have rj: "(r mod ?n + i) mod ?n = j" by (simp add: mod_simps)
    have "r mod ?n < ?n" using n by simp
    then have "i = ((?n - r mod ?n) + (r mod ?n + i)) mod ?n" using i by simp
    also have "\<dots> = ((?n - r mod ?n) + (r mod ?n + i) mod ?n) mod ?n" by (simp only: mod_add_right_eq)
    finally show "i = (j + (?n - r mod ?n)) mod ?n" unfolding rj by (simp only: add.commute)
  qed
qed

text \<open>
  C38. Leadership rotates fairly: within any \<open>n\<close> consecutive rounds (that do not pass the end of
  \<open>u64\<close>), where \<open>n\<close> is the number of validators, each validator leads exactly once.
\<close>
theorem leader_rotation:
  assumes "vs_wf vs" and "a \<in> fst ` set (validators vs)"
    and "unat round + validator_count vs \<le> 2 ^ 64"
  shows "\<exists>!i. i < validator_count vs \<and> get_leader vs (round + word_of_nat i) = Some a"
proof -
  let ?ks = "sorted_list_of_set (fst ` set (validators vs))"
  have len: "length ?ks = validator_count vs"
    using arg_cong [OF sorted_addresses [OF assms(1)], of length]
    by (simp add: validator_count_def)
  have ne: "?ks \<noteq> []" using assms(2) by auto
  have un: "unat (round + word_of_nat i) = unat round + i" if "i < validator_count vs" for i
  proof -
    have "unat round + i < 2 ^ 64" using that assms(3) by simp
    then show ?thesis by (simp add: unat_word_ariths unat_of_nat mod_simps)
  qed
  have "\<exists>!i. i < length ?ks \<and> ?ks ! ((unat round + i) mod length ?ks) = a"
    using assms(2) by (intro nth_rotate_unique) simp_all
  then show ?thesis
    using ne un unfolding get_leader_facts [OF assms(1)] Let_def len by (simp cong: conj_cong)
qed

theorem leader_rotation_witness:
  "\<exists>!i. i < 3 \<and> get_leader (sample_set [3, 1, 2] 5) (4 + word_of_nat i) = Some (Address [1])"
proof -
  have n: "validator_count (sample_set [3, 1, 2] 5) = 3"
    and a: "Address [1] \<in> fst ` set (validators (sample_set [3, 1, 2] 5))"
    by (simp_all add: validator_count_def sample_defs)
  show ?thesis using leader_rotation [OF vs_wf_sample a, of 4] by (simp add: n)
qed

subsection \<open>Committees\<close>

lemma random_committee_facts:
  assumes "vs_wf vs" and "\<And>seed xs. mset (shuffle seed xs) = mset xs"
  shows "distinct (get_random_committee shuffle vs round n) \<and>
    set (get_random_committee shuffle vs round n) \<subseteq> dom (get_validator vs) \<and>
    length (get_random_committee shuffle vs round n) = min n (validator_count vs)"
proof -
  let ?xs = "shuffle (committee_seed round) (map fst (validators vs))"
  have m: "mset ?xs = mset (map fst (validators vs))" by (rule assms(2))
  have "distinct ?xs"
    using assms(1) mset_eq_imp_distinct_iff [OF m] by (simp add: vs_wf_def hm_wf_def)
  moreover have "set ?xs = dom (get_validator vs)"
    using mset_eq_setD [OF m] assms(1)
    by (simp add: vs_wf_def get_validator_eq hm.dom_get)
  moreover have "length ?xs = validator_count vs"
    using mset_eq_length [OF m] by (simp add: validator_count_def)
  ultimately show ?thesis
    using set_take_subset [of n ?xs] by (auto simp: get_random_committee_def)
qed

text \<open>
  With a shuffle that only permutes its input, a committee consists of distinct registered
  validators and has \<open>min size n\<close> members.
\<close>
theorem random_committee_members:
  assumes "vs_wf vs" and "\<And>seed xs. mset (shuffle seed xs) = mset xs"
  shows "distinct (get_random_committee shuffle vs round n) \<and>
    set (get_random_committee shuffle vs round n) \<subseteq> dom (get_validator vs) \<and>
    length (get_random_committee shuffle vs round n) = min n (validator_count vs)"
  by (rule random_committee_facts) (use assms in blast)+

theorem random_committee_members_witness:
  "distinct (get_random_committee (\<lambda>seed. rev) (sample_set [1, 2, 3] 5) 4 2) \<and>
   length (get_random_committee (\<lambda>seed. rev) (sample_set [1, 2, 3] 5) 4 2) = 2"
  using random_committee_members [OF vs_wf_sample, of "\<lambda>seed. rev" "[1, 2, 3]" 5 4 2]
  by (simp add: validator_count_def) (simp add: sample_defs)

text \<open>
  The committee of a round is a function of the iteration order of the hash map, not of the
  validator set alone: two nodes that hold the same validators in hash maps with different
  iteration orders compute different committees, even with one seeded shuffle.
\<close>
theorem committee_depends_on_iteration_order:
  "\<exists>vs vs'. vs_wf vs \<and> vs_wf vs' \<and> get_validator vs = get_validator vs' \<and>
     total_stake vs = total_stake vs' \<and>
     get_random_committee (\<lambda>seed xs. xs) vs 0 1 \<noteq> get_random_committee (\<lambda>seed xs. xs) vs' 0 1"
proof -
  let ?v = "\<lambda>b. sample_validator b 1"
  let ?vs = "\<lparr>validators = [(Address [1], ?v 1), (Address [2], ?v 2)], total_stake = 2\<rparr>"
  let ?vs' = "\<lparr>validators = [(Address [2], ?v 2), (Address [1], ?v 1)], total_stake = 2\<rparr>"
  have "vs_wf ?vs" "vs_wf ?vs'" by (auto simp: vs_wf_def hm_defs sample_validator_def split: if_splits)
  moreover have "get_validator ?vs = get_validator ?vs'"
    by (auto simp: get_validator_def hm_get_def fun_eq_iff)
  ultimately show ?thesis
    by (intro exI [of _ ?vs] exI [of _ ?vs']) (simp add: get_random_committee_def)
qed

subsection \<open>Quorum certificates\<close>

text \<open>
  The interface of a weighted vote: a finite set of voters with weights in \<open>nat\<close>. A set of
  voters is a quorum when its weight reaches \<open>2 W div 3\<close>, as the source has it.
\<close>

locale weighted_vote =
  fixes weight :: "'a \<Rightarrow> nat" and voters :: "'a set"
  assumes finite_voters: "finite voters"
begin

definition vpower :: "'a set \<Rightarrow> nat" where
  "vpower A = sum weight A"

definition quorum :: "'a set \<Rightarrow> bool" where
  "quorum A \<longleftrightarrow> A \<subseteq> voters \<and> 2 * vpower voters div 3 \<le> vpower A"

lemma vpower_union: "A \<subseteq> voters \<Longrightarrow> B \<subseteq> voters \<Longrightarrow> vpower A + vpower B = vpower (A \<union> B) + vpower (A \<inter> B)"
  unfolding vpower_def using finite_voters by (intro sum.union_inter [symmetric]) (auto intro: finite_subset)

lemma vpower_mono: "A \<subseteq> B \<Longrightarrow> B \<subseteq> voters \<Longrightarrow> vpower A \<le> vpower B"
  unfolding vpower_def using finite_voters by (intro sum_mono2) (auto intro: finite_subset)

lemma quorum_overlap:
  assumes "quorum A" and "quorum B"
  shows "vpower voters \<le> 3 * vpower (A \<inter> B) + 4"
proof -
  have "vpower A + vpower B = vpower (A \<union> B) + vpower (A \<inter> B)"
    using assms by (intro vpower_union) (simp_all add: quorum_def)
  moreover have "vpower (A \<union> B) \<le> vpower voters"
    using assms by (intro vpower_mono) (simp_all add: quorum_def)
  moreover have "2 * vpower voters \<le> 3 * (2 * vpower voters div 3) + 2" by arith
  ultimately show ?thesis using assms unfolding quorum_def by linarith
qed

end

definition stake_of :: "validator_set \<Rightarrow> address \<Rightarrow> nat" where
  "stake_of vs a = (case get_validator vs a of None \<Rightarrow> 0 | Some v \<Rightarrow> unat (val_stake v))"

definition valid_vote :: "secp \<Rightarrow> validator_set \<Rightarrow> hash \<Rightarrow> address \<times> bytes \<Rightarrow> bool" where
  "valid_vote S vs h = (\<lambda>(addr, sig).
     (case get_validator vs addr of None \<Rightarrow> False | Some v \<Rightarrow> verify_signature S v h sig))"

definition signers :: "secp \<Rightarrow> validator_set \<Rightarrow> quorum_certificate \<Rightarrow> address set" where
  "signers S vs qc = fst ` {s \<in> set (qc_signatures qc). valid_vote S vs (qc_block_hash qc) s}"

interpretation vote: weighted_vote "stake_of vs" "fst ` set (validators vs)" for vs
  by unfold_locales simp

text \<open>The stakes add up to the recorded total, and neither it nor its double overflows.\<close>

definition stakes_fit :: "validator_set \<Rightarrow> bool" where
  "stakes_fit vs \<longleftrightarrow> vs_wf vs \<and> vs_consistent vs \<and>
     2 * (\<Sum>a \<in> fst ` set (validators vs). stake_of vs a) < 2 ^ 128"

lemma signers_code:
  "signers S vs qc = set (map fst (filter (valid_vote S vs (qc_block_hash qc)) (qc_signatures qc)))"
  by (simp add: signers_def)

lemma signers_subset: "signers S vs qc \<subseteq> fst ` set (validators vs)"
  by (force simp: signers_def valid_vote_def get_validator_def dest: hm_get_in_set split: option.splits)

lemma fold_qc_weigh:
  "fold (qc_weigh S vs h) sigs acc
     = acc + sum_list (map (\<lambda>s. word_of_nat (stake_of vs (fst s))) (filter (valid_vote S vs h) sigs))"
proof (induction sigs arbitrary: acc)
  case (Cons s sigs)
  obtain a sig where s: "s = (a, sig)" by (cases s)
  show ?case
    unfolding fold_simps Cons.IH s
    by (auto simp: qc_weigh_def valid_vote_def stake_of_def split: option.splits)
qed simp

lemma sum_list_of_nat: "sum_list (map (\<lambda>x. word_of_nat (f x)) xs) = (word_of_nat (sum_list (map f xs)) :: 'w :: len word)"
  by (induction xs) auto

lemma unat_total_stake:
  assumes "stakes_fit vs"
  shows "unat (total_stake vs) = vote.vpower vs (fst ` set (validators vs))"
proof -
  let ?K = "fst ` set (validators vs)"
  have wf: "hm_wf (validators vs)" using assms by (simp add: stakes_fit_def vs_wf_def)
  have "total_stake vs = (\<Sum>k \<in> ?K. val_stake (the (hm_get (validators vs) k)))"
    using assms wf hm.total_dom [OF wf, of val_stake]
    by (simp add: stakes_fit_def vs_consistent_def hm_sum_total hm.dom_get)
  also have "\<dots> = (\<Sum>k \<in> ?K. word_of_nat (stake_of vs k))"
    using wf by (intro sum.cong) (auto simp: stake_of_def get_validator_def hm_in_set_get)
  also have "\<dots> = word_of_nat (vote.vpower vs ?K)"
    by (simp add: vote.vpower_def)
  finally have "unat (total_stake vs) = vote.vpower vs ?K mod 2 ^ 128"
    by (simp only: unat_of_nat) simp
  then show ?thesis
    using assms by (simp add: stakes_fit_def vote.vpower_def)
qed

lemma qc_verify_quorum:
  assumes "stakes_fit vs" and "distinct (map fst (qc_signatures qc))"
  shows "qc_verify S qc vs \<longleftrightarrow> vote.quorum vs (signers S vs qc)"
proof -
  let ?K = "fst ` set (validators vs)" and ?h = "qc_block_hash qc"
  let ?good = "filter (valid_vote S vs ?h) (qc_signatures qc)"
  have d: "distinct (map fst ?good)" using assms(2) by (rule distinct_map_filter)
  have "sum_list (map (\<lambda>s. stake_of vs (fst s)) ?good) = sum_list (map (stake_of vs) (map fst ?good))"
    by (simp add: o_def)
  also have "\<dots> = sum (stake_of vs) (set (map fst ?good))"
    by (rule sum_list_distinct_conv_sum_set [OF d])
  also have "\<dots> = vote.vpower vs (signers S vs qc)"
    by (simp add: vote.vpower_def signers_def)
  finally have w: "fold (qc_weigh S vs ?h) (qc_signatures qc) 0
      = word_of_nat (vote.vpower vs (signers S vs qc))"
    by (simp add: fold_qc_weigh sum_list_of_nat)
  have le: "vote.vpower vs (signers S vs qc) \<le> vote.vpower vs ?K"
    by (rule vote.vpower_mono) (simp_all add: signers_subset)
  have T: "2 * vote.vpower vs ?K < 2 ^ 128" using assms(1) by (simp add: stakes_fit_def vote.vpower_def)
  have "unat (total_stake vs * 2 div 3) = 2 * vote.vpower vs ?K div 3"
    using T unat_total_stake [OF assms(1)] by (simp add: unat_div unat_word_ariths mult.commute)
  moreover have "unat (word_of_nat (vote.vpower vs (signers S vs qc)) :: u128)
      = vote.vpower vs (signers S vs qc)"
    using T le by (simp add: unat_of_nat)
  ultimately show ?thesis
    by (simp add: qc_verify_def w word_le_nat_alt vote.quorum_def signers_subset)
qed

text \<open>
  C17. For a certificate whose signers are pairwise distinct, \<open>verify\<close> accepts exactly when the
  validators with a valid signature hold at least \<open>floor(2 T / 3)\<close> of the total stake \<open>T\<close>.
\<close>
theorem qc_verify_iff_quorum:
  assumes "stakes_fit vs" and "distinct (map fst (qc_signatures qc))"
  shows "qc_verify S qc vs \<longleftrightarrow> vote.quorum vs (signers S vs qc)"
  by (rule qc_verify_quorum) (use assms in blast)+

lemma stakes_fit_sample: "stakes_fit (sample_set [1, 2, 3, 4] 1)"
  by (simp add: stakes_fit_def vs_consistent_def hm_sum_def stake_of_def get_validator_def hm_get_def)
    (simp add: sample_defs)

text \<open>The signature scheme of the concrete instances: a signature by key \<open>k\<close> is the byte string \<open>k\<close>.\<close>

definition sample_secp :: secp where
  "sample_secp = \<lparr>pubkey_from_slice = Some, message_from_slice = Some,
     signature_from_compact = Some, verify_ecdsa = (\<lambda>msg sig pk. sig = pk)\<rparr>"

definition sample_qc :: "hash \<Rightarrow> u8 list \<Rightarrow> quorum_certificate" where
  "sample_qc h bs = \<lparr>qc_block_hash = h, qc_height = 1, qc_round = 1, qc_phase = Commit,
     qc_signatures = map (\<lambda>b. (Address [b], [b])) bs, qc_timestamp = 0\<rparr>"

lemmas sample_qc_defs = sample_secp_def sample_qc_def verify_signature_def get_validator_def
  hm_get_def sample_defs

theorem qc_verify_iff_quorum_witness:
  "qc_verify sample_secp (sample_qc hash_zero [1, 2]) (sample_set [1, 2, 3, 4] 1)
    \<longleftrightarrow> vote.quorum (sample_set [1, 2, 3, 4] 1)
          (signers sample_secp (sample_set [1, 2, 3, 4] 1) (sample_qc hash_zero [1, 2]))"
  by (rule qc_verify_iff_quorum [OF stakes_fit_sample]) (simp add: sample_qc_def)

text \<open>
  Two certificates with distinct signers that \<open>verify\<close> accepts under one validator set, for
  whatever blocks, share signers that hold at least \<open>(T - 4) / 3\<close> of the total stake \<open>T\<close>.
\<close>
lemma qc_overlap:
  assumes "stakes_fit vs"
    and "distinct (map fst (qc_signatures qc))" and "distinct (map fst (qc_signatures qc'))"
    and "qc_verify S qc vs" and "qc_verify S qc' vs"
  shows "unat (total_stake vs) \<le> 3 * vote.vpower vs (signers S vs qc \<inter> signers S vs qc') + 4"
  using assms vote.quorum_overlap by (simp add: qc_verify_quorum unat_total_stake)

text \<open>
  C18. Certificates agree as long as the dishonest validators hold less than about a third of the stake:
  if two certificates with distinct signers verify under one validator set, the validators outside a set
  \<open>dishonest\<close> with \<open>3 * stake + 4 < T\<close> never sign for two different blocks, then the two
  certificates are for the same block.
\<close>
theorem certificates_agree:
  assumes "stakes_fit vs"
    and "distinct (map fst (qc_signatures qc))" and "distinct (map fst (qc_signatures qc'))"
    and "qc_verify S qc vs" and "qc_verify S qc' vs"
    and "dishonest \<subseteq> fst ` set (validators vs)" and "3 * vote.vpower vs dishonest + 4 < unat (total_stake vs)"
    and honest: "\<And>a v s s'. a \<notin> dishonest \<Longrightarrow> get_validator vs a = Some v \<Longrightarrow>
      (a, s) \<in> set (qc_signatures qc) \<Longrightarrow> (a, s') \<in> set (qc_signatures qc') \<Longrightarrow>
      verify_signature S v (qc_block_hash qc) s \<Longrightarrow> verify_signature S v (qc_block_hash qc') s' \<Longrightarrow>
      qc_block_hash qc = qc_block_hash qc'"
  shows "qc_block_hash qc = qc_block_hash qc'"
proof -
  let ?I = "signers S vs qc \<inter> signers S vs qc'"
  have "\<not> ?I \<subseteq> dishonest"
  proof
    assume "?I \<subseteq> dishonest"
    then have "vote.vpower vs ?I \<le> vote.vpower vs dishonest" using assms(6) by (rule vote.vpower_mono)
    with qc_overlap [OF assms(1-5)] assms(7) show False by linarith
  qed
  then obtain a where a: "a \<in> ?I" "a \<notin> dishonest" by blast
  then obtain s s' where "(a, s) \<in> set (qc_signatures qc)" "valid_vote S vs (qc_block_hash qc) (a, s)"
    "(a, s') \<in> set (qc_signatures qc')" "valid_vote S vs (qc_block_hash qc') (a, s')"
    by (auto simp: signers_def)
  then show ?thesis using honest [OF a(2)] by (auto simp: valid_vote_def split: option.splits)
qed

theorem certificates_agree_witness:
  "\<exists>h. qc_verify sample_secp (sample_qc h [1, 2, 3]) (sample_set [1, 2, 3, 4] 5) \<and>
    qc_verify sample_secp (sample_qc (Hash [7]) [2, 3, 4]) (sample_set [1, 2, 3, 4] 5) \<and> h = Hash [7]"
proof -
  let ?vs = "sample_set [1, 2, 3, 4] 5" and ?qc = "sample_qc (Hash [7]) [1, 2, 3]" and ?qc' = "sample_qc (Hash [7]) [2, 3, 4]"
  have fit: "stakes_fit ?vs"
    by (simp add: stakes_fit_def vs_consistent_def hm_sum_def stake_of_def get_validator_def hm_get_def)
      (simp add: sample_defs)
  have v: "qc_verify sample_secp ?qc ?vs" "qc_verify sample_secp ?qc' ?vs"
    by (simp_all add: qc_verify_def qc_weigh_def sample_qc_defs)
  have "vote.vpower ?vs {Address [4]} = 5" "unat (total_stake ?vs) = 20" "Address [4] \<in> fst ` set (validators ?vs)"
    by (simp_all add: vote.vpower_def stake_of_def sample_qc_defs)
  moreover have "distinct (map fst (qc_signatures ?qc))" "distinct (map fst (qc_signatures ?qc'))"
    and h: "qc_block_hash ?qc = Hash [7]" "qc_block_hash ?qc' = Hash [7]"
    by (simp_all add: sample_qc_def)
  ultimately have "qc_block_hash ?qc = qc_block_hash ?qc'"
    using certificates_agree [OF fit _ _ v, of "{Address [4]}"] by simp
  with v show ?thesis unfolding h(2) by (metis h(1))
qed

text \<open>
  What a certificate says besides the block is not covered by the signatures: the votes of one phase,
  height and round verify under any other label.
\<close>
theorem qc_labels_not_signed:
  "qc_verify S (qc\<lparr>qc_height := h, qc_round := r, qc_phase := p, qc_timestamp := t\<rparr>) vs = qc_verify S qc vs"
  by (simp add: qc_verify_def)

text \<open>
  The threshold is weaker than the two-thirds-plus-one of the README: with four validators of
  stake 1, two certificates whose signers are disjoint both verify, for any two blocks.
\<close>
theorem qc_disjoint_quorums:
  "qc_verify sample_secp (sample_qc h [1, 2]) (sample_set [1, 2, 3, 4] 1) \<and>
    qc_verify sample_secp (sample_qc h' [3, 4]) (sample_set [1, 2, 3, 4] 1) \<and>
    signers sample_secp (sample_set [1, 2, 3, 4] 1) (sample_qc h [1, 2]) \<inter>
      signers sample_secp (sample_set [1, 2, 3, 4] 1) (sample_qc h' [3, 4]) = {}"
  by (simp add: qc_verify_def qc_weigh_def signers_code valid_vote_def sample_qc_defs)

text \<open>
  \<open>verify\<close> does not ask for distinct signers: one valid signature repeated often enough
  reaches any threshold.
\<close>
theorem qc_repeated_signature:
  assumes "get_validator vs a = Some v" and "verify_signature S v (qc_block_hash qc) sig"
    and "qc_signatures qc = replicate n (a, sig)"
    and "n * unat (val_stake v) < 2 ^ 128"
    and "unat (total_stake vs * 2 div 3) \<le> n * unat (val_stake v)"
  shows "qc_verify S qc vs"
proof -
  have "filter (valid_vote S vs (qc_block_hash qc)) (replicate n (a, sig)) = replicate n (a, sig)"
    using assms(1,2) by (simp add: valid_vote_def)
  then have "fold (qc_weigh S vs (qc_block_hash qc)) (qc_signatures qc) 0
      = word_of_nat (n * unat (val_stake v))"
    using assms(1) by (simp only: fold_qc_weigh assms(3))
      (simp add: stake_of_def sum_list_replicate)
  then show ?thesis
    using assms(4,5) by (simp add: qc_verify_def word_le_nat_alt unat_of_nat del: of_nat_mult)
qed

theorem qc_repeated_signature_witness:
  "qc_verify sample_secp (sample_qc hash_zero [1, 1]) (sample_set [1, 2, 3] 1)"
  by (rule qc_repeated_signature [where a = "Address [1]" and v = "sample_validator 1 1"
        and sig = "[1]" and n = "Suc (Suc 0)"])
    (simp_all add: sample_qc_defs)

end
