(* ===== verification/Mempool.thy ===== *)
theory Mempool
  imports Types
begin

text \<open>
  \<^verbatim>\<open>src/src/consensus/mod.rs\<close>, \<open>Mempool\<close>: the pending transactions, indexed by hash, by sender and
  nonce, and by gas price. Every operation holds the write locks it needs from its first to its
  last access, so it is one step on the record. \<open>usize\<close> values are counts and stay in \<open>nat\<close>.

  \<open>get_transactions\<close> is shown equal to a prefix of \<open>eligible\<close>, the list of all pending
  transactions at or above the price floor by decreasing price; \<open>mempool_inv\<close> ties the three
  indexes to each other and is kept by every operation: the hashes listed by price are exactly those of
  the pending transactions, and whatever is listed by sender and nonce is pending. (The converse of
  that fails: of two pending transactions with one sender and nonce the index keeps the later one.)
\<close>

subsection \<open>Definitions\<close>

record mempool =
  mp_transactions :: "(hash, transaction) hashmap"
  mp_by_nonce :: "(address \<times> u64, hash) btree"
  mp_by_gas_price :: "(u128, hash list) btree"
  mp_max_size :: nat

definition mempool_new :: "nat \<Rightarrow> mempool" where
  "mempool_new max_size =
     \<lparr>mp_transactions = [], mp_by_nonce = [], mp_by_gas_price = [], mp_max_size = max_size\<rparr>"

definition add_transaction :: "ext \<Rightarrow> transaction \<Rightarrow> mempool \<Rightarrow> mempool rs_result" where
  "add_transaction E tx mp =
     (if length (mp_transactions mp) \<ge> mp_max_size mp then Err ''Mempool full''
      else
        let hash = tx_hash E tx;
            key = (tx_from tx, tx_nonce tx);
            entry = unwrap_or (bt_get (mp_by_gas_price mp) (tx_gas_price tx)) []
        in Ok (mp\<lparr>mp_transactions := hm_insert hash tx (mp_transactions mp),
                  mp_by_nonce := bt_insert key hash (mp_by_nonce mp),
                  mp_by_gas_price :=
                    bt_insert (tx_gas_price tx) (entry @ [hash]) (mp_by_gas_price mp)\<rparr>))"

text \<open>The inner loop over the hashes of one price; the flag says whether it returned early.\<close>

fun collect_hashes ::
    "(hash, transaction) hashmap \<Rightarrow> nat \<Rightarrow> hash list \<Rightarrow> transaction list \<Rightarrow> transaction list \<times> bool" where
  "collect_hashes txs limit [] result = (result, False)"
| "collect_hashes txs limit (h # hashes) result =
     (case hm_get txs h of
        None \<Rightarrow> collect_hashes txs limit hashes result
      | Some tx \<Rightarrow>
          let result' = result @ [tx] in
          if length result' \<ge> limit then (result', True)
          else collect_hashes txs limit hashes result')"

fun collect_prices ::
    "(hash, transaction) hashmap \<Rightarrow> nat \<Rightarrow> u128 \<Rightarrow> (u128 \<times> hash list) list \<Rightarrow> transaction list
      \<Rightarrow> transaction list" where
  "collect_prices txs limit min_gas_price [] result = result"
| "collect_prices txs limit min_gas_price ((price, hashes) # rest) result =
     (if price < min_gas_price then result
      else case collect_hashes txs limit hashes result of
             (result', True) \<Rightarrow> result'
           | (result', False) \<Rightarrow> collect_prices txs limit min_gas_price rest result')"

definition get_transactions :: "mempool \<Rightarrow> nat \<Rightarrow> u128 \<Rightarrow> transaction list" where
  "get_transactions mp limit min_gas_price =
     collect_prices (mp_transactions mp) limit min_gas_price (rev (mp_by_gas_price mp)) []"

definition remove_transaction :: "hash \<Rightarrow> mempool \<Rightarrow> mempool" where
  "remove_transaction h mp =
     (case hm_get (mp_transactions mp) h of
        None \<Rightarrow> mp
      | Some tx \<Rightarrow>
          mp\<lparr>mp_transactions := hm_remove h (mp_transactions mp),
             mp_by_nonce := bt_remove (tx_from tx, tx_nonce tx) (mp_by_nonce mp),
             mp_by_gas_price :=
               (case bt_get (mp_by_gas_price mp) (tx_gas_price tx) of
                  None \<Rightarrow> mp_by_gas_price mp
                | Some entry \<Rightarrow>
                    let entry' = filter (\<lambda>x. x \<noteq> h) entry in
                    if entry' = [] then bt_remove (tx_gas_price tx) (mp_by_gas_price mp)
                    else bt_insert (tx_gas_price tx) entry' (mp_by_gas_price mp))\<rparr>)"

definition remove_transactions :: "hash list \<Rightarrow> mempool \<Rightarrow> mempool" where
  "remove_transactions hashes mp = fold remove_transaction hashes mp"

definition mempool_size :: "mempool \<Rightarrow> nat" where
  "mempool_size mp = length (mp_transactions mp)"

subsection \<open>The invariant\<close>

definition mempool_inv :: "ext \<Rightarrow> mempool \<Rightarrow> bool" where
  "mempool_inv E mp \<longleftrightarrow>
     hm_wf (mp_transactions mp) \<and> bt_wf (mp_by_nonce mp) \<and> bt_wf (mp_by_gas_price mp) \<and>
     length (mp_transactions mp) \<le> mp_max_size mp \<and>
     (\<forall>h tx. hm_get (mp_transactions mp) h = Some tx \<longrightarrow> tx_hash E tx = h \<and>
        (\<exists>hs. bt_get (mp_by_gas_price mp) (tx_gas_price tx) = Some hs \<and> h \<in> set hs)) \<and>
     (\<forall>p hs. bt_get (mp_by_gas_price mp) p = Some hs \<longrightarrow> hs \<noteq> [] \<and>
        (\<forall>h \<in> set hs. \<exists>tx. hm_get (mp_transactions mp) h = Some tx \<and> tx_gas_price tx = p)) \<and>
     (\<forall>key h. bt_get (mp_by_nonce mp) key = Some h \<longrightarrow>
        (\<exists>tx. hm_get (mp_transactions mp) h = Some tx \<and> key = (tx_from tx, tx_nonce tx)))"

lemma mempool_inv_new: "mempool_inv E (mempool_new n)"
  by (simp add: mempool_inv_def mempool_new_def)

lemma mempool_invD:
  assumes "mempool_inv E mp"
  shows "hm_wf (mp_transactions mp)" "bt_wf (mp_by_nonce mp)" "bt_wf (mp_by_gas_price mp)"
    and "length (mp_transactions mp) \<le> mp_max_size mp"
    and "hm_get (mp_transactions mp) h = Some tx \<Longrightarrow> tx_hash E tx = h"
    and "hm_get (mp_transactions mp) h = Some tx \<Longrightarrow>
          \<exists>hs. bt_get (mp_by_gas_price mp) (tx_gas_price tx) = Some hs \<and> h \<in> set hs"
    and "bt_get (mp_by_gas_price mp) p = Some hs \<Longrightarrow> hs \<noteq> []"
    and "bt_get (mp_by_gas_price mp) p = Some hs \<Longrightarrow> h \<in> set hs \<Longrightarrow>
          \<exists>tx. hm_get (mp_transactions mp) h = Some tx \<and> tx_gas_price tx = p"
    and "bt_get (mp_by_nonce mp) key = Some h \<Longrightarrow>
          \<exists>tx. hm_get (mp_transactions mp) h = Some tx \<and> key = (tx_from tx, tx_nonce tx)"
  using assms unfolding mempool_inv_def by blast+

text \<open>The hash of \<open>tx\<close> does not collide with that of another pending transaction.\<close>

definition no_collision :: "ext \<Rightarrow> transaction \<Rightarrow> mempool \<Rightarrow> bool" where
  "no_collision E tx mp \<longleftrightarrow>
     (case hm_get (mp_transactions mp) (tx_hash E tx) of None \<Rightarrow> True | Some tx' \<Rightarrow> tx' = tx)"

lemma no_collision_get:
  "no_collision E tx mp \<Longrightarrow> hm_get (mp_transactions mp) (tx_hash E tx) = Some tx' \<Longrightarrow> tx' = tx"
  by (simp add: no_collision_def)

lemma add_inv:
  assumes "mempool_inv E mp" and "no_collision E tx mp" and "add_transaction E tx mp = Ok mp'"
  shows "mempool_inv E mp'"
proof -
  note inv = mempool_invD [OF assms(1)]
  have mp': "mp' = mp\<lparr>mp_transactions := hm_insert (tx_hash E tx) tx (mp_transactions mp),
      mp_by_nonce := bt_insert (tx_from tx, tx_nonce tx) (tx_hash E tx) (mp_by_nonce mp),
      mp_by_gas_price := bt_insert (tx_gas_price tx)
        (unwrap_or (bt_get (mp_by_gas_price mp) (tx_gas_price tx)) [] @ [tx_hash E tx])
        (mp_by_gas_price mp)\<rparr>" and room: "length (mp_transactions mp) < mp_max_size mp"
    using assms(3) by (auto simp: add_transaction_def Let_def split: if_splits)
  have "length (mp_transactions mp') \<le> mp_max_size mp'"
    using hm.length_ins [OF inv(1)] room by (simp add: mp')
  moreover have "tx_hash E t = h \<and>
        (\<exists>hs. bt_get (mp_by_gas_price mp') (tx_gas_price t) = Some hs \<and> h \<in> set hs)"
    if "hm_get (mp_transactions mp') h = Some t" for h t
    using inv(5,6) [of h t] that by (auto simp: mp' split: if_splits)
  moreover have "hs \<noteq> [] \<and>
        (\<forall>h \<in> set hs. \<exists>t. hm_get (mp_transactions mp') h = Some t \<and> tx_gas_price t = p)"
    if hs: "bt_get (mp_by_gas_price mp') p = Some hs" for p hs
  proof -
    show ?thesis
    proof (cases "p = tx_gas_price tx")
      case True
      with hs have "hs = unwrap_or (bt_get (mp_by_gas_price mp) p) [] @ [tx_hash E tx]"
        by (simp add: mp')
      then show ?thesis
        using True inv(8) [of p] by (cases "bt_get (mp_by_gas_price mp) p") (auto simp: mp')
    next
      case False
      with hs have old: "bt_get (mp_by_gas_price mp) p = Some hs" by (simp add: mp')
      have "\<exists>t. hm_get (mp_transactions mp') h = Some t \<and> tx_gas_price t = p" if h: "h \<in> set hs" for h
      proof -
        obtain t where t: "hm_get (mp_transactions mp) h = Some t" "tx_gas_price t = p"
          using inv(8) [OF old h] by blast
        with False no_collision_get [OF assms(2), of t] have "h \<noteq> tx_hash E tx" by auto
        with t show ?thesis by (simp add: mp')
      qed
      with inv(7) [OF old] show ?thesis by blast
    qed
  qed
  moreover have "\<exists>t. hm_get (mp_transactions mp') h = Some t \<and> key = (tx_from t, tx_nonce t)"
    if "bt_get (mp_by_nonce mp') key = Some h" for key h
    using inv(2) inv(9) [of key h] that no_collision_get [OF assms(2)] by (auto simp: mp' split: if_splits)
  moreover have "hm_wf (mp_transactions mp')" "bt_wf (mp_by_nonce mp')" "bt_wf (mp_by_gas_price mp')"
    using inv(1-3) by (simp_all add: mp')
  ultimately show ?thesis unfolding mempool_inv_def by blast
qed

lemma remove_transaction_get:
  "hm_get (mp_transactions (remove_transaction h mp)) = (hm_get (mp_transactions mp))(h := None)"
  by (auto simp: remove_transaction_def fun_eq_iff split: option.splits)

lemma remove_transaction_gas:
  assumes "bt_wf (mp_by_gas_price mp)"
    and "hm_get (mp_transactions mp) h = Some tx"
    and "bt_get (mp_by_gas_price mp) (tx_gas_price tx) = Some entry"
  shows "bt_get (mp_by_gas_price (remove_transaction h mp)) p =
    (if p \<noteq> tx_gas_price tx then bt_get (mp_by_gas_price mp) p
     else if filter (\<lambda>x. x \<noteq> h) entry = [] then None else Some (filter (\<lambda>x. x \<noteq> h) entry))"
  using assms by (auto simp: remove_transaction_def Let_def)

lemma remove_inv:
  assumes "mempool_inv E mp"
  shows "mempool_inv E (remove_transaction h mp)"
proof (cases "hm_get (mp_transactions mp) h")
  case None
  with assms show ?thesis by (simp add: remove_transaction_def)
next
  case (Some tx)
  note inv = mempool_invD [OF assms]
  let ?mp = "remove_transaction h mp"
  obtain entry where e: "bt_get (mp_by_gas_price mp) (tx_gas_price tx) = Some entry" "h \<in> set entry"
    using inv(6) [OF Some] by blast
  note gas = remove_transaction_gas [OF inv(3) Some e(1)]
  have wf: "hm_wf (mp_transactions ?mp)" "bt_wf (mp_by_nonce ?mp)" "bt_wf (mp_by_gas_price ?mp)"
      "mp_max_size ?mp = mp_max_size mp" "mp_transactions ?mp = hm_remove h (mp_transactions mp)"
    using inv(1-3) Some e(1) by (simp_all add: remove_transaction_def Let_def)
  have "length (mp_transactions ?mp) \<le> mp_max_size ?mp"
    using hm.length_rem [OF inv(1), of h] inv(4) by (auto simp: wf split: if_splits)
  moreover have "tx_hash E t = k \<and> (\<exists>hs. bt_get (mp_by_gas_price ?mp) (tx_gas_price t) = Some hs \<and> k \<in> set hs)"
    if "hm_get (mp_transactions ?mp) k = Some t" for k t
  proof -
    from that have k: "k \<noteq> h" "hm_get (mp_transactions mp) k = Some t"
      by (simp_all add: remove_transaction_get split: if_splits)
    then obtain hs where hs: "bt_get (mp_by_gas_price mp) (tx_gas_price t) = Some hs" "k \<in> set hs"
      using inv(6) by blast
    with k e(1) have "\<exists>hs. bt_get (mp_by_gas_price ?mp) (tx_gas_price t) = Some hs \<and> k \<in> set hs"
      by (auto simp: gas filter_empty_conv)
    then show ?thesis using inv(5) [OF k(2)] by simp
  qed
  moreover have "hs \<noteq> [] \<and> (\<forall>k \<in> set hs. \<exists>t. hm_get (mp_transactions ?mp) k = Some t \<and> tx_gas_price t = p)"
    if "bt_get (mp_by_gas_price ?mp) p = Some hs" for p hs
  proof -
    have old: "\<exists>hs0. bt_get (mp_by_gas_price mp) p = Some hs0 \<and> set hs \<subseteq> set hs0 \<and> hs \<noteq> [] \<and> h \<notin> set hs"
    proof (cases "p = tx_gas_price tx")
      case True
      with that e show ?thesis by (auto simp: gas split: if_splits)
    next
      case False
      then have "bt_get (mp_by_gas_price mp) p = Some hs" using that by (simp add: gas)
      with False Some inv(7,8) [of p] show ?thesis by fastforce
    qed
    then show ?thesis using inv(8) [of p] by (fastforce simp: remove_transaction_get)
  qed
  moreover have "\<exists>t. hm_get (mp_transactions ?mp) k = Some t \<and> key = (tx_from t, tx_nonce t)"
    if "bt_get (mp_by_nonce ?mp) key = Some k" for key k
  proof -
    have "bt_get (mp_by_nonce mp) key = Some k" "key \<noteq> (tx_from tx, tx_nonce tx)"
      using that inv(2) Some by (auto simp: remove_transaction_def split: if_splits)
    with inv(9) [of key k] Some show ?thesis by (auto simp: remove_transaction_get)
  qed
  ultimately show ?thesis
    using wf by (simp add: mempool_inv_def)
qed

lemma remove_transactions_inv: "mempool_inv E mp \<Longrightarrow> mempool_inv E (remove_transactions hs mp)"
  unfolding remove_transactions_def
  by (induction hs arbitrary: mp) (simp_all add: remove_inv)

lemma remove_transactions_get:
  "hm_get (mp_transactions (remove_transactions hs mp)) h =
     (if h \<in> set hs then None else hm_get (mp_transactions mp) h)"
  unfolding remove_transactions_def
  by (induction hs arbitrary: mp) (auto simp: remove_transaction_get)

text \<open>
  The mempool keeps its invariant (the index by price lists exactly the pending transactions, that
  by sender and nonce nothing else, every hash is
  that of its transaction, the size bound holds) under every operation, as long as no two pending
  transactions collide.
\<close>
theorem mempool_invariant:
  assumes "mempool_inv E mp"
  shows "(no_collision E tx mp \<longrightarrow> add_transaction E tx mp = Ok mp' \<longrightarrow> mempool_inv E mp') \<and>
    mempool_inv E (remove_transactions hs mp) \<and> mempool_inv E (mempool_new n)"
  using assms by (auto intro: add_inv remove_transactions_inv mempool_inv_new)

lemma remove_transactions_facts:
  assumes "mempool_inv E mp"
  shows "hm_get (mp_transactions (remove_transactions hs mp)) =
      (hm_get (mp_transactions mp)) |` (- set hs) \<and>
    (\<forall>p entry. bt_get (mp_by_gas_price (remove_transactions hs mp)) p = Some entry \<longrightarrow>
       set entry \<inter> set hs = {})"
proof
  show "hm_get (mp_transactions (remove_transactions hs mp)) =
      (hm_get (mp_transactions mp)) |` (- set hs)"
    by (auto simp: remove_transactions_get restrict_map_def fun_eq_iff)
  show "\<forall>p entry. bt_get (mp_by_gas_price (remove_transactions hs mp)) p = Some entry \<longrightarrow>
       set entry \<inter> set hs = {}"
    using mempool_invD(8) [OF remove_transactions_inv [OF assms, of hs]]
    by (fastforce simp: remove_transactions_get split: if_splits)
qed

text \<open>
  \<open>remove_transactions\<close> removes exactly the given hashes and leaves no trace of them in the
  price index, so \<open>get_transactions\<close> cannot return them again.
\<close>
theorem remove_transactions_spec:
  assumes "mempool_inv E mp"
  shows "hm_get (mp_transactions (remove_transactions hs mp)) =
      (hm_get (mp_transactions mp)) |` (- set hs) \<and>
    (\<forall>p entry. bt_get (mp_by_gas_price (remove_transactions hs mp)) p = Some entry \<longrightarrow>
       set entry \<inter> set hs = {})"
  by (rule remove_transactions_facts) (use assms in blast)+

subsection \<open>What is selected for a block\<close>

definition eligible :: "mempool \<Rightarrow> u128 \<Rightarrow> transaction list" where
  "eligible mp min_price =
     List.map_filter (hm_get (mp_transactions mp))
       (concat (map snd (takeWhile (\<lambda>(p, _). min_price \<le> p) (rev (mp_by_gas_price mp)))))"

lemma map_filter_append [simp]:
  "List.map_filter f (xs @ ys) = List.map_filter f xs @ List.map_filter f ys"
  by (simp add: List.map_filter_def)

lemma map_filter_Cons: "List.map_filter f (x # xs) = (case f x of None \<Rightarrow> [] | Some y \<Rightarrow> [y]) @ List.map_filter f xs"
  by (simp add: List.map_filter_simps split: option.splits)

lemma collect_hashes_spec:
  assumes "length res < max 1 limit"
  shows "(case collect_hashes txs limit hs res of
      (r, True) \<Rightarrow> r = take (max 1 limit) (res @ List.map_filter (hm_get txs) hs) \<and> length r = max 1 limit
    | (r, False) \<Rightarrow> r = res @ List.map_filter (hm_get txs) hs \<and> length r < max 1 limit)"
  using assms
proof (induction txs limit hs res rule: collect_hashes.induct)
  case (1 txs limit result)
  then show ?case by (simp add: List.map_filter_simps)
next
  case (2 txs limit h hashes result)
  show ?case
  proof (cases "hm_get txs h")
    case None
    with 2 show ?thesis by (simp add: map_filter_Cons)
  next
    case (Some tx)
    show ?thesis
    proof (cases "limit \<le> Suc (length result)")
      case True
      then have "max 1 limit = Suc (length result)" using "2.prems" by auto
      with True Some show ?thesis by (simp add: map_filter_Cons)
    next
      case False
      with 2 Some show ?thesis by (simp add: map_filter_Cons)
    qed
  qed
qed

lemma collect_prices_spec:
  assumes "length res < max 1 limit"
  shows "collect_prices txs limit min_price ps res
    = take (max 1 limit) (res @ List.map_filter (hm_get txs)
        (concat (map snd (takeWhile (\<lambda>(p, _). min_price \<le> p) ps))))"
  using assms
proof (induction ps arbitrary: res)
  case Nil
  then show ?case by (simp add: List.map_filter_simps)
next
  case (Cons q ps)
  obtain p hs where q: "q = (p, hs)" by (cases q)
  obtain r early where c: "collect_hashes txs limit hs res = (r, early)" by fastforce
  note spec = collect_hashes_spec [OF Cons.prems, of txs hs, unfolded c]
  show ?case
  proof (cases "p < min_price")
    case True
    then have "\<not> min_price \<le> p" by simp
    with True Cons.prems show ?thesis by (simp add: q List.map_filter_simps)
  next
    case False
    let ?n = "max 1 limit" and ?A = "List.map_filter (hm_get txs) hs"
    let ?B = "List.map_filter (hm_get txs) (concat (map snd (takeWhile (\<lambda>(p, _). min_price \<le> p) ps)))"
    from False have rhs: "take ?n (res @ List.map_filter (hm_get txs) (concat (map snd
        (takeWhile (\<lambda>(p, _). min_price \<le> p) (q # ps))))) = take ?n ((res @ ?A) @ ?B)"
      by (simp add: q not_less)
    show ?thesis
    proof (cases early)
      case True
      then have e: "early = True" by simp
      note r = spec [unfolded e prod.case bool.case]
      have r1: "r = take ?n (res @ ?A)" using r by (rule conjunct1)
      have "length (take ?n (res @ ?A)) = ?n" using conjunct2 [OF r] unfolding r1 .
      then have le: "?n \<le> length (res @ ?A)" by (simp only: length_take min.absorb_iff2)
      then have "take ?n ((res @ ?A) @ ?B) = r"
        unfolding r1 by (subst take_append) (simp del: take_append)
      with False True show ?thesis unfolding rhs by (simp add: q c)
    next
      case False
      then have e: "early = False" by simp
      note r = conjunct1 [OF spec [unfolded e prod.case bool.case]]
        conjunct2 [OF spec [unfolded e prod.case bool.case]]
      show ?thesis
        unfolding rhs r(1) [symmetric] Cons.IH [OF r(2), symmetric]
        using False \<open>\<not> p < min_price\<close> by (simp add: q c)
    qed
  qed
qed

lemma get_transactions_take: "get_transactions mp limit min_price = take (max 1 limit) (eligible mp min_price)"
  by (simp add: get_transactions_def eligible_def collect_prices_spec)

lemma takeWhile_sorted:
  fixes xs :: "('a :: linorder \<times> 'b) list"
  assumes "sorted_wrt (>) (map fst xs)"
  shows "takeWhile (\<lambda>(p, _). m \<le> p) xs = filter (\<lambda>(p, _). m \<le> p) xs"
  using assms
proof (induction xs)
  case (Cons x xs)
  then show ?case by (cases x) (fastforce simp: filter_empty_conv not_le intro: filter_False [symmetric])
qed simp

lemma set_eligible:
  assumes "mempool_inv E mp"
  shows "set (eligible mp m) = {tx. \<exists>h. hm_get (mp_transactions mp) h = Some tx \<and> m \<le> tx_gas_price tx}"
proof -
  note inv = mempool_invD [OF assms]
  have "sorted_wrt (>) (map fst (rev (mp_by_gas_price mp)))"
    using inv(3) by (simp add: bt_wf_def rev_map [symmetric] sorted_wrt_rev)
  then have "eligible mp m = List.map_filter (hm_get (mp_transactions mp))
      (concat (map snd (filter (\<lambda>(p, _). m \<le> p) (rev (mp_by_gas_price mp)))))"
    by (simp add: eligible_def takeWhile_sorted)
  then have "set (eligible mp m) = {tx. \<exists>p hs h. bt_get (mp_by_gas_price mp) p = Some hs \<and> m \<le> p \<and>
      h \<in> set hs \<and> hm_get (mp_transactions mp) h = Some tx}"
    by (force simp: bt_in_set_get [OF inv(3)])
  also have "\<dots> = {tx. \<exists>h. hm_get (mp_transactions mp) h = Some tx \<and> m \<le> tx_gas_price tx}"
    using inv(6,8) by fastforce
  finally show ?thesis .
qed

lemma sorted_concat_prices:
  assumes "sorted_wrt (>) (map fst ps)"
    and "\<And>p hs h. (p, hs) \<in> set ps \<Longrightarrow> h \<in> set hs \<Longrightarrow> \<exists>tx. f h = Some tx \<and> price tx = p"
  shows "sorted_wrt (\<ge>) (map price (List.map_filter f (concat (map snd ps))) :: 'p :: linorder list)"
  using assms
proof (induction ps)
  case Nil
  then show ?case by (simp add: List.map_filter_simps)
next
  case (Cons q ps)
  obtain p hs where q: "q = (p, hs)" by (cases q)
  have hs: "\<exists>tx. f h = Some tx \<and> price tx = p" if "h \<in> set hs" for h
    using Cons.prems(2) [of p hs h] that by (simp add: q)
  have 1: "\<forall>x \<in> set (map price (List.map_filter f hs)). x = p"
    using hs by fastforce
  have 2: "\<forall>x \<in> set (map price (List.map_filter f (concat (map snd ps)))). x < p"
  proof -
    have lt: "p' < p" if "(p', hs') \<in> set ps" for p' hs'
      using Cons.prems(1) that by (force simp: q)
    have "price tx < p" if "(p', hs') \<in> set ps" "h \<in> set hs'" "f h = Some tx" for p' hs' h tx
      using Cons.prems(2) [of p' hs' h] lt that by auto
    then show ?thesis by fastforce
  qed
  have const: "(\<forall>x \<in> set xs. x = p) \<Longrightarrow> sorted_wrt (\<ge>) xs" for xs :: "'p list"
    by (induction xs) auto
  have ih: "sorted_wrt (\<ge>) (map price (List.map_filter f (concat (map snd ps))))"
    using Cons.prems by (intro Cons.IH) auto
  show ?case
    using const [OF 1] ih 1 2 by (fastforce simp: q sorted_wrt_append intro: less_imp_le)
qed

lemma get_transactions_facts:
  assumes "mempool_inv E mp"
  shows "get_transactions mp limit m = take (max 1 limit) (eligible mp m) \<and>
    set (eligible mp m) = {tx. \<exists>h. hm_get (mp_transactions mp) h = Some tx \<and> m \<le> tx_gas_price tx} \<and>
    sorted_wrt (\<ge>) (map tx_gas_price (eligible mp m))"
proof -
  note inv = mempool_invD [OF assms]
  let ?ps = "takeWhile (\<lambda>(p, _). m \<le> p) (rev (mp_by_gas_price mp))"
  have s: "sorted_wrt (>) (map fst (rev (mp_by_gas_price mp)))"
    using inv(3) by (simp add: bt_wf_def rev_map [symmetric] sorted_wrt_rev)
  then have "sorted_wrt (>) (map fst ?ps)"
    by (metis sorted_wrt_append map_append takeWhile_dropWhile_id)
  moreover have "\<exists>tx. hm_get (mp_transactions mp) h = Some tx \<and> tx_gas_price tx = p"
    if "(p, hs) \<in> set ?ps" "h \<in> set hs" for p hs h
    using inv(8) [of p hs h] that by (auto dest: set_takeWhileD simp: bt_in_set_get [OF inv(3)])
  ultimately show ?thesis
    unfolding get_transactions_take set_eligible [OF assms]
    by (simp add: eligible_def) (rule sorted_concat_prices)
qed

text \<open>
  \<open>get_transactions\<close> is a prefix of the eligible transactions: these are exactly the pending
  ones whose gas price reaches the floor, ordered by decreasing gas price. The prefix has length
  \<open>limit\<close>, but at least one transaction is returned even for \<open>limit = 0\<close>.
\<close>
theorem get_transactions_spec:
  assumes "mempool_inv E mp"
  shows "get_transactions mp limit m = take (max 1 limit) (eligible mp m) \<and>
    set (eligible mp m) = {tx. \<exists>h. hm_get (mp_transactions mp) h = Some tx \<and> m \<le> tx_gas_price tx} \<and>
    sorted_wrt (\<ge>) (map tx_gas_price (eligible mp m))"
  by (rule get_transactions_facts) (use assms in blast)+

text \<open>
  The pool does not recognise a transaction it already holds: submitting one transaction
  twice succeeds twice, counts once, and then selects it twice for one block.
\<close>
theorem resubmission_selects_twice:
  assumes "n \<ge> 2" and "m \<le> tx_gas_price tx"
  shows "\<exists>mp mp'. add_transaction E tx (mempool_new n) = Ok mp \<and> add_transaction E tx mp = Ok mp' \<and>
    mempool_size mp' = 1 \<and> get_transactions mp' 2 m = [tx, tx]"
  using assms
  by (simp add: add_transaction_def mempool_new_def mempool_size_def get_transactions_take
      eligible_def List.map_filter_simps hm_insert_def hm_get_def bt_get_def Let_def)

theorem resubmission_selects_twice_witness:
  "\<exists>mp mp'. add_transaction sample_ext (sample_tx 1 0 None 5 10) (mempool_new 4) = Ok mp \<and>
    add_transaction sample_ext (sample_tx 1 0 None 5 10) mp = Ok mp' \<and> mempool_size mp' = 1 \<and>
    get_transactions mp' 2 1 = [sample_tx 1 0 None 5 10, sample_tx 1 0 None 5 10]"
  by (rule resubmission_selects_twice) (simp_all add: sample_tx_def)

text \<open>A pool with two transactions.\<close>

definition sample_pool :: mempool where
  "sample_pool = \<lparr>mp_transactions = [(Hash [1, 0], sample_tx 1 0 None 5 10), (Hash [2, 0], sample_tx 2 0 None 5 20)],
     mp_by_nonce = [((Address [1], 0), Hash [1, 0]), ((Address [2], 0), Hash [2, 0])],
     mp_by_gas_price = [(10, [Hash [1, 0]]), (20, [Hash [2, 0]])], mp_max_size = 4\<rparr>"

lemma sample_pool_inv: "mempool_inv sample_ext sample_pool"
  by (auto simp: mempool_inv_def sample_pool_def hm_wf_def hm_get_def bt_wf_def bt_get_def
      less_address_def sample_tx_def tx_hash_def sample_ext_def hash_new_def less_prod_def)

theorem mempool_invariant_witness:
  "mempool_inv sample_ext (remove_transactions [Hash [1, 0]] sample_pool) \<and>
   (\<exists>mp'. add_transaction sample_ext (sample_tx 3 0 None 5 10) sample_pool = Ok mp' \<and>
      mempool_inv sample_ext mp')"
  using mempool_invariant [OF sample_pool_inv, of "sample_tx 3 0 None 5 10" _ "[Hash [1, 0]]" 0]
  by (auto simp: no_collision_def sample_pool_def hm_get_def add_transaction_def Let_def)

theorem remove_transactions_spec_witness:
  "hm_get (mp_transactions (remove_transactions [Hash [1, 0]] sample_pool)) (Hash [1, 0]) = None"
  using remove_transactions_spec [OF sample_pool_inv, of "[Hash [1, 0]]"]
  by (simp add: restrict_map_def)

theorem get_transactions_spec_witness:
  "get_transactions sample_pool 0 15 = [sample_tx 2 0 None 5 20] \<and>
   get_transactions sample_pool 9 1 = [sample_tx 2 0 None 5 20, sample_tx 1 0 None 5 10]"
  using get_transactions_spec [OF sample_pool_inv, of 0 15]
    get_transactions_spec [OF sample_pool_inv, of 9 1]
  by (simp add: eligible_def sample_pool_def List.map_filter_simps hm_get_def)

end
