(* ===== verification/HotStuff.thy ===== *)
theory HotStuff
  imports Validators Mempool
begin

text \<open>
  \<^verbatim>\<open>src/src/consensus/mod.rs\<close>, \<open>HotStuffConsensus\<close>: proposing, validating and finalising blocks
  over the validator set and the mempool. The clock (\<open>current_timestamp_ms\<close>) is the argument
  \<open>now\<close>; the block channel and the secret key are stored by \<open>new\<close> and never used by an operation,
  so the record leaves them out. The spawned task of \<open>start\<close> only reads the leader of round 0 and
  changes nothing. The engine's \<open>Arc<ValidatorSet>\<close> is a field: no operation of the engine writes it.
\<close>

subsection \<open>Definitions\<close>

record hotstuff =
  hs_config :: chain_config
  hs_validator_set :: validator_set
  hs_current_height :: u64
  hs_current_round :: u64
  hs_phase :: consensus_phase
  hs_blocks :: "(u64, block) btree"
  hs_qcs :: "(u64, quorum_certificate) btree"
  hs_mempool :: mempool
  hs_my_address :: address
  hs_blocks_proposed :: u64
  hs_blocks_finalized :: u64
  hs_avg_latency_ms :: u64

definition hotstuff_new :: "chain_config \<Rightarrow> validator_set \<Rightarrow> address \<Rightarrow> hotstuff" where
  "hotstuff_new config vs my_address =
     \<lparr>hs_config = config, hs_validator_set = vs, hs_current_height = 0, hs_current_round = 0,
      hs_phase = NewView, hs_blocks = [], hs_qcs = [], hs_mempool = mempool_new 100000,
      hs_my_address = my_address, hs_blocks_proposed = 0, hs_blocks_finalized = 0,
      hs_avg_latency_ms = 0\<rparr>"

definition propose_block :: "ext \<Rightarrow> u64 \<Rightarrow> hotstuff \<Rightarrow> hash \<Rightarrow> block option" where
  "propose_block E now hs prev_hash =
     (let height = hs_current_height hs + 1;
          txs = get_transactions (hs_mempool hs) 1000 (cfg_min_gas_price (hs_config hs))
      in if txs = [] then None
         else
           let root = merkle_root (sha3_256 E) (map (tx_hash E) txs);
               hdr = \<lparr>hdr_version = 1, hdr_prev_hash = prev_hash, hdr_merkle_root = root,
                      hdr_state_root = hash_zero, hdr_shard_id = 0, hdr_height = height,
                      hdr_timestamp = now, hdr_validator = hs_my_address hs, hdr_signature = [],
                      hdr_tx_count = word_of_nat (length txs), hdr_gas_used = 0, hdr_extra_data = []\<rparr>
           in Some \<lparr>header = hdr, transactions = txs, shard_proofs = []\<rparr>)"

definition validate_block :: "ext \<Rightarrow> secp \<Rightarrow> hotstuff \<Rightarrow> block \<Rightarrow> bool" where
  "validate_block E S hs b =
     (if hdr_height (header b) > 0 \<and> bt_get (hs_blocks hs) (hdr_height (header b) - 1) = None
      then False
      else if merkle_root (sha3_256 E) (map (tx_hash E) (transactions b)) \<noteq> hdr_merkle_root (header b)
      then False
      else if (case get_leader (hs_validator_set hs) (hdr_height (header b)) of
                 None \<Rightarrow> False | Some leader \<Rightarrow> leader \<noteq> hdr_validator (header b))
      then False
      else (case get_validator (hs_validator_set hs) (hdr_validator (header b)) of
              None \<Rightarrow> True
            | Some v \<Rightarrow> verify_signature S v (header_hash E (header b)) (hdr_signature (header b))))"

definition finalize_block :: "ext \<Rightarrow> block \<Rightarrow> hotstuff \<Rightarrow> hotstuff" where
  "finalize_block E b hs =
     hs\<lparr>hs_blocks := bt_insert (hdr_height (header b)) b (hs_blocks hs),
        hs_mempool := remove_transactions (map (tx_hash E) (transactions b)) (hs_mempool hs),
        hs_blocks_finalized := hs_blocks_finalized hs + 1\<rparr>"

definition get_block :: "hotstuff \<Rightarrow> u64 \<Rightarrow> block option" where
  "get_block hs height = bt_get (hs_blocks hs) height"

definition get_latest_height :: "hotstuff \<Rightarrow> u64" where
  "get_latest_height hs = hs_current_height hs"

definition get_mempool :: "hotstuff \<Rightarrow> mempool" where
  "get_mempool hs = hs_mempool hs"

record consensus_stats =
  cs_height :: u64
  cs_round :: u64
  cs_blocks_proposed :: u64
  cs_blocks_finalized :: u64
  cs_mempool_size :: nat
  cs_avg_latency_ms :: u64

definition get_consensus_stats :: "hotstuff \<Rightarrow> consensus_stats" where
  "get_consensus_stats hs =
     \<lparr>cs_height = hs_current_height hs, cs_round = hs_current_round hs,
      cs_blocks_proposed = hs_blocks_proposed hs, cs_blocks_finalized = hs_blocks_finalized hs,
      cs_mempool_size = mempool_size (hs_mempool hs), cs_avg_latency_ms = hs_avg_latency_ms hs\<rparr>"

subsection \<open>Proposals\<close>

text \<open>
  A block is proposed exactly when some pending transaction reaches the minimum gas price. It
  extends the current height by one, carries the Merkle root of its transactions, between 1 and
  1000 pending transactions at or above the minimum price by decreasing price, and the number of
  them as its count.
\<close>
theorem propose_block_spec:
  assumes "mempool_inv E (hs_mempool hs)"
  shows "case propose_block E now hs prev of
      None \<Rightarrow> \<forall>h tx. hm_get (mp_transactions (hs_mempool hs)) h = Some tx \<longrightarrow>
                tx_gas_price tx < cfg_min_gas_price (hs_config hs)
    | Some b \<Rightarrow>
        hdr_height (header b) = get_latest_height hs + 1 \<and> hdr_prev_hash (header b) = prev \<and>
        hdr_merkle_root (header b) = merkle_root (sha3_256 E) (map (tx_hash E) (transactions b)) \<and>
        1 \<le> length (transactions b) \<and> length (transactions b) \<le> 1000 \<and>
        unat (hdr_tx_count (header b)) = length (transactions b) \<and>
        sorted_wrt (\<ge>) (map tx_gas_price (transactions b)) \<and>
        (\<forall>tx \<in> set (transactions b). cfg_min_gas_price (hs_config hs) \<le> tx_gas_price tx \<and>
           hm_get (mp_transactions (hs_mempool hs)) (tx_hash E tx) = Some tx)"
proof -
  let ?m = "cfg_min_gas_price (hs_config hs)"
  let ?el = "eligible (hs_mempool hs) ?m"
  let ?txs = "get_transactions (hs_mempool hs) 1000 ?m"
  note spec = get_transactions_facts [OF assms, of 1000 ?m]
  have txs: "?txs = take 1000 ?el" using spec by simp
  have el: "set ?el = {tx. \<exists>h. hm_get (mp_transactions (hs_mempool hs)) h = Some tx \<and> ?m \<le> tx_gas_price tx}"
    using spec by simp
  show ?thesis
  proof (cases "?txs = []")
    case True
    then have "?el = []" by (simp add: txs)
    with True el show ?thesis by (auto simp: propose_block_def not_le [symmetric])
  next
    case False
    have len: "1 \<le> length ?txs" "length ?txs \<le> 1000" using False by (simp_all add: txs Suc_le_eq)
    have "unat (word_of_nat (length ?txs) :: u32) = length ?txs"
      using len by (simp add: unat_of_nat)
    moreover have "sorted_wrt (\<ge>) (map tx_gas_price ?txs)"
      using spec unfolding txs take_map [symmetric] by (blast intro: sorted_wrt_take)
    moreover have "?m \<le> tx_gas_price tx \<and> hm_get (mp_transactions (hs_mempool hs)) (tx_hash E tx) = Some tx"
      if "tx \<in> set ?txs" for tx
    proof -
      have "tx \<in> set ?el" using that set_take_subset [of 1000 ?el] by (auto simp: txs)
      then obtain h where "hm_get (mp_transactions (hs_mempool hs)) h = Some tx" "?m \<le> tx_gas_price tx"
        by (auto simp: el)
      then show ?thesis using mempool_invD(5) [OF assms] by blast
    qed
    ultimately show ?thesis
      using False len by (simp add: propose_block_def Let_def get_latest_height_def)
  qed
qed

subsection \<open>Validation\<close>

text \<open>
  What acceptance means: for a set with at least one validator, a block is accepted exactly
  when its parent height is stored (or its height is 0), its Merkle root matches its transactions,
  its proposer is the leader of the round numbered by its height, and the proposer's key verifies
  the signature over the header hash.
\<close>
theorem validate_block_iff:
  assumes "vs_wf (hs_validator_set hs)" and "validators (hs_validator_set hs) \<noteq> []"
  shows "validate_block E S hs b \<longleftrightarrow>
    (hdr_height (header b) = 0 \<or> get_block hs (hdr_height (header b) - 1) \<noteq> None) \<and>
    merkle_root (sha3_256 E) (map (tx_hash E) (transactions b)) = hdr_merkle_root (header b) \<and>
    get_leader (hs_validator_set hs) (hdr_height (header b)) = Some (hdr_validator (header b)) \<and>
    (\<exists>v. get_validator (hs_validator_set hs) (hdr_validator (header b)) = Some v \<and>
       verify_signature S v (header_hash E (header b)) (hdr_signature (header b)))"
proof -
  let ?vs = "hs_validator_set hs" and ?r = "hdr_height (header b)"
  let ?ks = "sorted_list_of_set (fst ` set (validators ?vs))"
  obtain l where l: "get_leader ?vs ?r = Some l"
    using assms by (auto simp: get_leader_facts Let_def)
  moreover have "?ks \<noteq> []" using assms by simp
  ultimately have "l \<in> set ?ks"
    using nth_mem [of "unat ?r mod length ?ks" ?ks]
    by (simp add: get_leader_facts [OF assms(1)] Let_def del: length_sorted_list_of_set)
  then have "l \<in> dom (get_validator ?vs)"
    using assms(1) by (simp add: get_validator_eq vs_wf_def hm.dom_get)
  then obtain v where "get_validator ?vs l = Some v" by auto
  with l show ?thesis
    by (auto simp: validate_block_def get_block_def word_neq_0_conv split: if_splits)
qed

text \<open>
  With an empty validator set the leader and signature checks are skipped: any header whose
  parent height is stored and whose Merkle root matches is accepted, whoever signed it.
\<close>
theorem validate_block_no_validators:
  assumes "validators (hs_validator_set hs) = []"
  shows "validate_block E S hs b \<longleftrightarrow>
    (hdr_height (header b) = 0 \<or> get_block hs (hdr_height (header b) - 1) \<noteq> None) \<and>
    merkle_root (sha3_256 E) (map (tx_hash E) (transactions b)) = hdr_merkle_root (header b)"
  using assms
  by (auto simp: validate_block_def get_leader_def get_validator_def get_block_def word_neq_0_conv)

text \<open>
  A fresh engine rejects its own proposals: it proposes height 1 whatever it has finalised, and
  no block of height 0 is stored, so the parent check fails.
\<close>
theorem fresh_engine_rejects_own_proposal:
  assumes "hs_blocks hs = []" and "hs_current_height hs = 0"
    and "propose_block E now hs prev = Some b"
  shows "\<not> validate_block E S hs b"
  using assms by (auto simp: propose_block_def validate_block_def Let_def split: if_splits)

subsection \<open>Finalisation\<close>

text \<open>
  Finalising a block stores it under its height, counts it, removes exactly its transactions
  from the mempool and keeps the mempool invariant. The current height, which \<open>get_latest_height\<close>
  reports and the next proposal extends, stays what it was.
\<close>
theorem finalize_block_spec:
  assumes "mempool_inv E (hs_mempool hs)"
  shows "get_block (finalize_block E b hs) = (get_block hs)(hdr_height (header b) \<mapsto> b) \<and>
    mempool_inv E (hs_mempool (finalize_block E b hs)) \<and>
    hm_get (mp_transactions (hs_mempool (finalize_block E b hs))) =
      hm_get (mp_transactions (hs_mempool hs)) |` (- tx_hash E ` set (transactions b)) \<and>
    hs_blocks_finalized (finalize_block E b hs) = hs_blocks_finalized hs + 1 \<and>
    get_latest_height (finalize_block E b hs) = get_latest_height hs"
  using remove_transactions_facts [OF assms, of "map (tx_hash E) (transactions b)"]
    remove_transactions_inv [OF assms, of "map (tx_hash E) (transactions b)"]
  by (simp add: finalize_block_def get_block_def get_latest_height_def fun_eq_iff)

text \<open>An engine with two validators and two pending transactions.\<close>

definition sample_engine :: hotstuff where
  "sample_engine = (hotstuff_new chain_config_default (sample_set [1, 2] 5) (Address [1]))
     \<lparr>hs_mempool := sample_pool\<rparr>"

lemma sample_engine_simps [simp]:
  "hs_mempool sample_engine = sample_pool" "hs_blocks sample_engine = []"
  "hs_validator_set sample_engine = sample_set [1, 2] 5" "hs_current_height sample_engine = 0"
  "hs_config sample_engine = chain_config_default"
  by (simp_all add: sample_engine_def hotstuff_new_def)

lemma sample_engine_txs:
  "get_transactions sample_pool 1000 1 = [sample_tx 2 0 None 5 20, sample_tx 1 0 None 5 10]"
  by (simp add: get_transactions_take eligible_def sample_pool_def List.map_filter_simps hm_get_def)

lemma sample_engine_proposes: "\<exists>b. propose_block sample_ext 7 sample_engine hash_zero = Some b"
  by (simp add: propose_block_def Let_def chain_config_default_def sample_engine_txs)

theorem propose_block_spec_witness:
  "\<exists>b. propose_block sample_ext 7 sample_engine hash_zero = Some b \<and>
    hdr_height (header b) = 1 \<and> unat (hdr_tx_count (header b)) = length (transactions b)"
  using propose_block_spec [where E = sample_ext and hs = sample_engine and now = 7 and prev = hash_zero]
    sample_engine_proposes
  by (auto simp: sample_pool_inv get_latest_height_def)

theorem fresh_engine_rejects_own_proposal_witness:
  "\<exists>b. propose_block sample_ext 7 sample_engine hash_zero = Some b \<and>
    \<not> validate_block sample_ext sample_secp sample_engine b"
  using sample_engine_proposes fresh_engine_rejects_own_proposal [where hs = sample_engine and E = sample_ext and now = 7
        and prev = hash_zero and S = sample_secp]
  by auto

text \<open>A block of height 0 by the leader of round 0, signed with its key.\<close>

definition sample_block :: block where
  "sample_block =
     \<lparr>header = \<lparr>hdr_version = 1, hdr_prev_hash = hash_zero, hdr_merkle_root = Hash [2, 0],
        hdr_state_root = hash_zero, hdr_shard_id = 0, hdr_height = 0, hdr_timestamp = 0,
        hdr_validator = Address [1], hdr_signature = [1], hdr_tx_count = 1, hdr_gas_used = 0,
        hdr_extra_data = []\<rparr>,
      transactions = [sample_tx 2 0 None 5 20], shard_proofs = []\<rparr>"

theorem validate_block_iff_witness:
  "validate_block sample_ext sample_secp sample_engine sample_block"
proof -
  have "get_leader (sample_set [1, 2] 5) 0 = Some (Address [1])"
    by (simp add: get_leader_def sample_defs less_eq_address_def)
  then show ?thesis
    using validate_block_iff [of sample_engine sample_ext sample_secp sample_block]
    by (simp add: sample_block_def merkle_root_singleton)
      (simp add: sample_qc_defs)
qed

theorem validate_block_no_validators_witness:
  "validate_block sample_ext sample_secp (hotstuff_new chain_config_default validator_set_new (Address [1]))
     sample_block"
  using validate_block_no_validators
      [of "hotstuff_new chain_config_default validator_set_new (Address [1])" sample_ext sample_secp sample_block]
  by (simp add: hotstuff_new_def validator_set_new_def sample_block_def merkle_root_singleton)

theorem finalize_block_spec_witness:
  "get_block (finalize_block sample_ext sample_block sample_engine) 0 = Some sample_block \<and>
   get_latest_height (finalize_block sample_ext sample_block sample_engine) = 0 \<and>
   hm_get (mp_transactions (hs_mempool (finalize_block sample_ext sample_block sample_engine)))
     (Hash [2, 0]) = None"
  using finalize_block_spec [of sample_ext sample_engine sample_block]
  by (simp add: sample_pool_inv) (simp add: sample_block_def get_latest_height_def)

end
