(* ===== verification/Vm.thy ===== *)
theory Vm
  imports Types
begin

text \<open>
  \<^verbatim>\<open>src/src/vm/mod.rs\<close>: \<open>ProtonVM\<close>, the block executors and the gas estimator.

  The VM state is the record that the handlers take and return; every handler holds the write lock
  of the state from its first read to its last write, so a transaction is one atomic step, and a
  parallel block is some order of these steps (\<open>execute_block_parallel\<close>). Balances and gas are
  words: \<open>+\<close>, \<open>-\<close> and \<open>*\<close> wrap as in the release build, and the casts to \<^verbatim>\<open>i128\<close>/\<^verbatim>\<open>i64\<close> and back keep the
  bits, so \<open>balance_delta\<close> and \<open>nonce_delta\<close> are words read as signed.
\<close>

subsection \<open>Definitions\<close>

record log_entry =
  log_address :: address
  log_topics :: "hash list"
  log_data :: bytes

record account_change =
  balance_delta :: u128
  nonce_delta :: u64
  storage_changes :: "(hash, bytes) hashmap"
  change_code :: "bytes option"

record execution_result =
  success :: bool
  gas_used :: u64
  return_data :: bytes
  logs :: "log_entry list"
  state_changes :: "(address, account_change) hashmap"
  exec_error :: "string option"

datatype vm_type = Wasm | EVM | Native

record contract_code =
  cc_code :: bytes
  cc_abi :: bytes
  cc_vm_type :: vm_type

record block_context =
  ctx_height :: u64
  ctx_timestamp :: u64
  ctx_coinbase :: address
  ctx_difficulty :: u64
  ctx_gas_limit :: u64

record vm_state =
  vm_accounts :: "(address, account) hashmap"
  vm_contracts :: "(address, contract_code) hashmap"
  vm_storage :: "(address \<times> hash, bytes) hashmap"
  vm_block_context :: block_context

record gas_schedule =
  base_tx_cost :: u64
  storage_load :: u64
  storage_store :: u64
  memory_page :: u64
  call_cost :: u64
  log_cost :: u64
  wasm_instruction :: u64
  evm_instruction :: u64

definition gas_schedule_default :: gas_schedule where
  "gas_schedule_default =
     \<lparr>base_tx_cost = 21000, storage_load = 200, storage_store = 20000, memory_page = 100,
      call_cost = 700, log_cost = 375, wasm_instruction = 1, evm_instruction = 1\<rparr>"

definition failed :: "u64 \<Rightarrow> string \<Rightarrow> execution_result" where
  "failed gas msg =
     \<lparr>success = False, gas_used = gas, return_data = [], logs = [], state_changes = [],
      exec_error = Some msg\<rparr>"

definition account_at :: "vm_state \<Rightarrow> address \<Rightarrow> account" where
  "account_at st a = unwrap_or (hm_get (vm_accounts st) a) account_default"

definition apply_account_change :: "address \<times> account_change \<Rightarrow> vm_state \<Rightarrow> vm_state" where
  "apply_account_change = (\<lambda>(addr, change) st.
     let acc = account_at st addr;
         acc' = acc\<lparr>acc_balance := acc_balance acc + balance_delta change,
                    acc_nonce := acc_nonce acc + nonce_delta change\<rparr>
     in st\<lparr>vm_accounts := hm_insert addr acc' (vm_accounts st)\<rparr>)"

definition execute_transfer :: "gas_schedule \<Rightarrow> transaction \<Rightarrow> u64 \<Rightarrow> vm_state \<Rightarrow> execution_result \<times> vm_state" where
  "execute_transfer G tx gas st =
     (let sender = account_at st (tx_from tx);
          total_cost = tx_value tx + gas_cost tx
      in if acc_balance sender < total_cost then (failed gas ''Insufficient balance'', st)
         else
           let sender_change = \<lparr>balance_delta = - total_cost, nonce_delta = 1, storage_changes = [],
                                change_code = None\<rparr>;
               receiver_addr = unwrap_or (tx_to tx) (tx_from tx);
               receiver_change = \<lparr>balance_delta = tx_value tx, nonce_delta = 0, storage_changes = [],
                                  change_code = None\<rparr>;
               changes = hm_insert receiver_addr receiver_change
                           (hm_insert (tx_from tx) sender_change []);
               st' = fold apply_account_change changes st;
               gas' = gas + base_tx_cost G
           in (\<lparr>success = True, gas_used = gas', return_data = [], logs = [],
                state_changes = changes, exec_error = None\<rparr>, st'))"

definition contract_address :: "ext \<Rightarrow> transaction \<Rightarrow> address" where
  "contract_address E tx = address_new (sha3_256 E) (address_bytes (tx_from tx) @ u64_le (tx_nonce tx))"

definition execute_contract_deploy ::
    "ext \<Rightarrow> gas_schedule \<Rightarrow> transaction \<Rightarrow> u64 \<Rightarrow> vm_state \<Rightarrow> execution_result \<times> vm_state" where
  "execute_contract_deploy E G tx gas st =
     (let contract_addr = contract_address E tx;
          contract = \<lparr>cc_code = tx_data tx, cc_abi = [], cc_vm_type = Wasm\<rparr>;
          acc = account_default\<lparr>acc_is_contract := True,
                  acc_code_hash := Some (hash_new (sha3_256 E) (tx_data tx)),
                  acc_balance := tx_value tx\<rparr>;
          st' = st\<lparr>vm_contracts := hm_insert contract_addr contract (vm_contracts st),
                   vm_accounts := hm_insert contract_addr acc (vm_accounts st)\<rparr>;
          sender_change = \<lparr>balance_delta = - (tx_value tx + gas_cost tx), nonce_delta = 1,
                           storage_changes = [], change_code = None\<rparr>;
          contract_change = \<lparr>balance_delta = tx_value tx, nonce_delta = 0, storage_changes = [],
                             change_code = Some (tx_data tx)\<rparr>;
          changes = hm_insert contract_addr contract_change (hm_insert (tx_from tx) sender_change []);
          gas' = gas + (base_tx_cost G + word_of_nat (length (tx_data tx)) * 200)
      in (\<lparr>success = True, gas_used = gas', return_data = [], logs = [], state_changes = changes,
           exec_error = None\<rparr>, st'))"

definition call_succeeded :: "u64 \<Rightarrow> execution_result" where
  "call_succeeded gas =
     \<lparr>success = True, gas_used = gas, return_data = [1], logs = [], state_changes = [],
      exec_error = None\<rparr>"

definition execute_wasm :: "gas_schedule \<Rightarrow> bytes \<Rightarrow> transaction \<Rightarrow> u64 \<Rightarrow> execution_result" where
  "execute_wasm G code tx gas = call_succeeded (gas + word_of_nat (length code) * wasm_instruction G)"

definition execute_evm :: "gas_schedule \<Rightarrow> bytes \<Rightarrow> transaction \<Rightarrow> u64 \<Rightarrow> execution_result" where
  "execute_evm G code tx gas = call_succeeded (gas + word_of_nat (length code) * evm_instruction G)"

definition execute_native :: "bytes \<Rightarrow> transaction \<Rightarrow> u64 \<Rightarrow> execution_result" where
  "execute_native code tx gas = call_succeeded gas"

definition execute_contract_call ::
    "gas_schedule \<Rightarrow> transaction \<Rightarrow> u64 \<Rightarrow> vm_state \<Rightarrow> execution_result \<times> vm_state" where
  "execute_contract_call G tx gas st =
     (let contract_addr = unwrap_or (tx_to tx) (tx_from tx) in
      case hm_get (vm_contracts st) contract_addr of
        None \<Rightarrow> (failed gas ''Contract not found'', st)
      | Some contract \<Rightarrow>
          ((case cc_vm_type contract of
              Wasm \<Rightarrow> execute_wasm G (cc_code contract) tx gas
            | EVM \<Rightarrow> execute_evm G (cc_code contract) tx gas
            | Native \<Rightarrow> execute_native (cc_code contract) tx gas), st))"

definition execute_private_transfer ::
    "gas_schedule \<Rightarrow> transaction \<Rightarrow> u64 \<Rightarrow> vm_state \<Rightarrow> execution_result \<times> vm_state" where
  "execute_private_transfer G tx gas st =
     (let gas' = (case tx_zk_proof tx of None \<Rightarrow> gas | Some proof \<Rightarrow> gas + 100000)
      in execute_transfer G tx gas' st)"

definition execute_transaction ::
    "ext \<Rightarrow> gas_schedule \<Rightarrow> transaction \<Rightarrow> vm_state \<Rightarrow> execution_result \<times> vm_state" where
  "execute_transaction E G tx st =
     (let gas = base_tx_cost G in
      case tx_type tx of
        Transfer \<Rightarrow> execute_transfer G tx gas st
      | ContractDeploy \<Rightarrow> execute_contract_deploy E G tx gas st
      | ContractCall \<Rightarrow> execute_contract_call G tx gas st
      | PrivateTransfer \<Rightarrow> execute_private_transfer G tx gas st
      | _ \<Rightarrow> (failed gas ''Unsupported transaction type'', st))"

definition vm_get_account :: "vm_state \<Rightarrow> address \<Rightarrow> account option" where
  "vm_get_account st a = hm_get (vm_accounts st) a"
definition vm_get_contract :: "vm_state \<Rightarrow> address \<Rightarrow> contract_code option" where
  "vm_get_contract st a = hm_get (vm_contracts st) a"
definition vm_get_storage :: "vm_state \<Rightarrow> address \<Rightarrow> hash \<Rightarrow> bytes option" where
  "vm_get_storage st a k = hm_get (vm_storage st) (a, k)"

definition vm_state_root :: "ext \<Rightarrow> vm_state \<Rightarrow> hash" where
  "vm_state_root E st = hash_new (sha3_256 E)
     (concat (map (\<lambda>(a, acc). address_bytes a @ u128_le (acc_balance acc) @ u64_le (acc_nonce acc))
        (vm_accounts st)))"

fun execute_block_sequential ::
    "ext \<Rightarrow> gas_schedule \<Rightarrow> transaction list \<Rightarrow> vm_state \<Rightarrow> execution_result list \<times> vm_state" where
  "execute_block_sequential E G [] st = ([], st)"
| "execute_block_sequential E G (tx # txs) st =
     (case execute_transaction E G tx st of
        (r, st') \<Rightarrow> (case execute_block_sequential E G txs st' of (rs, st'') \<Rightarrow> (r # rs, st'')))"

text \<open>
  The thread pool takes the transactions in some order; each takes the state lock for its whole
  run. The results are collected by index: the result of position \<open>i\<close> is that of transaction \<open>i\<close>.
\<close>

definition execute_block_parallel ::
    "ext \<Rightarrow> gas_schedule \<Rightarrow> transaction list \<Rightarrow> vm_state \<Rightarrow> execution_result list \<times> vm_state \<Rightarrow> bool" where
  "execute_block_parallel E G txs st = (\<lambda>(results, st').
     \<exists>order rs. mset order = mset [0 ..< length txs] \<and>
       execute_block_sequential E G (map ((!) txs) order) st = (rs, st') \<and>
       results = map (\<lambda>i. the (map_of (zip order rs) i)) [0 ..< length txs])"

definition estimate_gas :: "transaction \<Rightarrow> u64" where
  "estimate_gas tx =
     (case tx_type tx of
        Transfer \<Rightarrow> 21000
      | ContractDeploy \<Rightarrow> 53000 + word_of_nat (length (tx_data tx)) * 200
      | ContractCall \<Rightarrow> 21000 + word_of_nat (length (tx_data tx)) * 100
      | PrivateTransfer \<Rightarrow> 121000
      | _ \<Rightarrow> 21000)"

subsection \<open>Balances\<close>

definition balance_of :: "vm_state \<Rightarrow> address \<Rightarrow> u128" where
  "balance_of st a = acc_balance (account_at st a)"

text \<open>
  Two sums of all balances: \<open>vm_supply\<close> in \<open>u128\<close>, hence modulo \<open>2^128\<close>, which is right for equations
  that hold whatever overflows, and \<open>funds\<close> over the natural numbers, the money that is really there.
\<close>

definition vm_supply :: "vm_state \<Rightarrow> u128" where
  "vm_supply st = hm_sum acc_balance (vm_accounts st)"

definition funds :: "vm_state \<Rightarrow> nat" where
  "funds st = hm_sum (\<lambda>acc. unat (acc_balance acc)) (vm_accounts st)"

definition vm_wf :: "vm_state \<Rightarrow> bool" where
  "vm_wf st \<longleftrightarrow> hm_wf (vm_accounts st)"

lemma default_balance [simp]: "acc_balance account_default = 0" "acc_nonce account_default = 0"
  by (simp_all add: account_default_def)

lemma account_at_apply:
  "account_at (apply_account_change (a, ch) st) b =
    (if b = a then (account_at st a)\<lparr>acc_balance := acc_balance (account_at st a) + balance_delta ch,
                                      acc_nonce := acc_nonce (account_at st a) + nonce_delta ch\<rparr>
     else account_at st b)"
  by (simp add: apply_account_change_def account_at_def Let_def)

lemma apply_wf: "vm_wf st \<Longrightarrow> vm_wf (apply_account_change c st)"
  by (cases c) (simp add: vm_wf_def apply_account_change_def Let_def)

lemma supply_apply:
  assumes "vm_wf st"
  shows "vm_supply (apply_account_change (a, ch) st) = vm_supply st + balance_delta ch"
proof -
  let ?acc = "(account_at st a)\<lparr>acc_balance := acc_balance (account_at st a) + balance_delta ch,
      acc_nonce := acc_nonce (account_at st a) + nonce_delta ch\<rparr>"
  have "hm_sum acc_balance (hm_insert a ?acc (vm_accounts st)) + acc_balance (account_at st a)
      = hm_sum acc_balance (vm_accounts st) + acc_balance ?acc"
    using hm_sum_insert [of "vm_accounts st" acc_balance a ?acc] assms
    by (cases "hm_get (vm_accounts st) a") (simp_all add: vm_wf_def account_at_def)
  then show ?thesis
    by (simp add: vm_supply_def apply_account_change_def Let_def algebra_simps)
qed

lemma funds_sum:
  assumes "vm_wf st"
  shows "funds st = (\<Sum>a \<in> dom (hm_get (vm_accounts st)). unat (balance_of st a))"
  using assms unfolding funds_def hm_sum_total vm_wf_def
  by (auto simp: hm.total_dom balance_of_def account_at_def intro!: sum.cong split: option.splits)

lemma funds_apply:
  assumes "vm_wf st"
  shows "funds (apply_account_change (a, ch) st) + unat (balance_of st a)
    = funds st + unat (balance_of st a + balance_delta ch)"
proof -
  let ?acc = "(account_at st a)\<lparr>acc_balance := acc_balance (account_at st a) + balance_delta ch,
      acc_nonce := acc_nonce (account_at st a) + nonce_delta ch\<rparr>"
  show ?thesis
    using hm_sum_insert [of "vm_accounts st" "\<lambda>acc. unat (acc_balance acc)" a ?acc] assms
    by (cases "hm_get (vm_accounts st) a")
      (simp_all add: vm_wf_def account_at_def funds_def apply_account_change_def Let_def balance_of_def)
qed

lemma two_balances:
  assumes "vm_wf st" and "a \<noteq> b"
  shows "unat (balance_of st a) + unat (balance_of st b) \<le> funds st"
proof -
  let ?D = "dom (hm_get (vm_accounts st))"
  have z: "unat (balance_of st x) = 0" if "x \<notin> ?D" for x
    using that by (simp add: balance_of_def account_at_def domIff)
  have fin: "finite ?D" using assms(1) by (simp add: vm_wf_def hm.finite_dom)
  have "unat (balance_of st a) + unat (balance_of st b) = (\<Sum>x \<in> {a, b}. unat (balance_of st x))"
    using assms(2) by simp
  also have "\<dots> = (\<Sum>x \<in> {a, b} \<inter> ?D. unat (balance_of st x))"
  proof (rule sum.mono_neutral_right)
    show "\<forall>x \<in> {a, b} - {a, b} \<inter> ?D. unat (balance_of st x) = 0" by (rule ballI, rule z) blast
  qed auto
  also have "\<dots> \<le> (\<Sum>x \<in> ?D. unat (balance_of st x))" using fin by (intro sum_mono2) auto
  finally show ?thesis by (simp add: funds_sum [OF assms(1)])
qed

lemma supply_fold:
  "vm_wf st \<Longrightarrow> vm_supply (fold apply_account_change cs st) = vm_supply st + (\<Sum>c \<leftarrow> cs. balance_delta (snd c)) \<and>
    vm_wf (fold apply_account_change cs st)"
proof (induction cs arbitrary: st)
  case (Cons c cs)
  then show ?case by (cases c) (simp add: apply_wf supply_apply)
qed simp

text \<open>The two shapes of a successful transfer.\<close>

lemma transfer_success:
  assumes "tx_value tx + gas_cost tx \<le> balance_of st (tx_from tx)"
  shows "success (fst (execute_transfer G tx gas st))"
  using leD [OF assms] by (simp add: execute_transfer_def Let_def balance_of_def)

lemma transfer_failure:
  assumes "balance_of st (tx_from tx) < tx_value tx + gas_cost tx"
  shows "execute_transfer G tx gas st = (failed gas ''Insufficient balance'', st)"
  using assms by (simp add: execute_transfer_def Let_def balance_of_def)

lemma transfer_not_success:
  "\<not> success (fst (execute_transfer G tx gas st)) \<Longrightarrow>
    execute_transfer G tx gas st = (failed gas ''Insufficient balance'', st)"
  using transfer_success transfer_failure not_less by blast

lemma transfer_other:
  assumes "tx_value tx + gas_cost tx \<le> balance_of st (tx_from tx)"
    and "tx_to tx = Some r" and "r \<noteq> tx_from tx"
  shows "snd (execute_transfer G tx gas st) =
    apply_account_change (r, \<lparr>balance_delta = tx_value tx, nonce_delta = 0, storage_changes = [], change_code = None\<rparr>)
      (apply_account_change (tx_from tx, \<lparr>balance_delta = - (tx_value tx + gas_cost tx), nonce_delta = 1,
          storage_changes = [], change_code = None\<rparr>) st)"
  using leD [OF assms(1)] assms(2,3)
  by (simp add: execute_transfer_def Let_def balance_of_def hm_insert_def)

lemma transfer_self:
  assumes "tx_value tx + gas_cost tx \<le> balance_of st (tx_from tx)"
    and "unwrap_or (tx_to tx) (tx_from tx) = tx_from tx"
  shows "snd (execute_transfer G tx gas st) =
    apply_account_change (tx_from tx, \<lparr>balance_delta = tx_value tx, nonce_delta = 0,
      storage_changes = [], change_code = None\<rparr>) st"
  using leD [OF assms(1)] assms(2)
  by (simp add: execute_transfer_def Let_def balance_of_def hm_insert_def)

lemma unat_ucast_64_128 [simp]: "unat (ucast (w :: u64) :: u128) = unat w"
proof -
  have "unat w < 2 ^ 64" using unsigned_less [of w] by simp
  then show ?thesis by (simp add: unsigned_ucast_eq take_bit_eq_mod)
qed

text \<open>What each transaction does to the sum of all balances.\<close>

definition minted :: "ext \<Rightarrow> transaction \<Rightarrow> vm_state \<Rightarrow> u128" where
  "minted E tx st =
     (if tx_type tx \<in> {Transfer, PrivateTransfer} then
        (if balance_of st (tx_from tx) < tx_value tx + gas_cost tx then 0
         else if unwrap_or (tx_to tx) (tx_from tx) = tx_from tx then tx_value tx
         else - gas_cost tx)
      else if tx_type tx = ContractDeploy then tx_value tx - balance_of st (contract_address E tx)
      else 0)"

lemma transfer_supply:
  assumes "vm_wf st"
  shows "vm_supply (snd (execute_transfer G tx gas st)) = vm_supply st +
      (if balance_of st (tx_from tx) < tx_value tx + gas_cost tx then 0
       else if unwrap_or (tx_to tx) (tx_from tx) = tx_from tx then tx_value tx else - gas_cost tx) \<and>
    vm_wf (snd (execute_transfer G tx gas st))"
proof (cases "balance_of st (tx_from tx) < tx_value tx + gas_cost tx")
  case True
  then show ?thesis using assms by (simp add: transfer_failure)
next
  case False
  then have le: "tx_value tx + gas_cost tx \<le> balance_of st (tx_from tx)" by simp
  show ?thesis
  proof (cases "unwrap_or (tx_to tx) (tx_from tx) = tx_from tx")
    case True
    with False assms show ?thesis by (simp add: transfer_self [OF le] supply_apply apply_wf)
  next
    case other: False
    then obtain r where "tx_to tx = Some r" "r \<noteq> tx_from tx" by (cases "tx_to tx") auto
    with False assms show ?thesis by (simp add: transfer_other [OF le] supply_apply apply_wf)
  qed
qed

text \<open>
  C13. The complete account of the money supply, modulo \<open>2^128\<close>: a transfer between two addresses
  burns its gas cost, a refused or unsupported transaction and a call change nothing, a transfer
  to oneself (or without a receiver) creates its value, and a deployment creates its value (and
  destroys what the contract address held) without charging the sender.
\<close>
theorem transaction_supply:
  assumes "vm_wf st"
  shows "vm_supply (snd (execute_transaction E G tx st)) = vm_supply st + minted E tx st \<and>
    vm_wf (snd (execute_transaction E G tx st))"
proof (cases "tx_type tx")
  case ContractDeploy
  have "vm_supply (snd (execute_contract_deploy E G tx g st)) + balance_of st (contract_address E tx)
      = vm_supply st + tx_value tx" for g
    using assms hm_sum_insert [of "vm_accounts st" acc_balance "contract_address E tx"]
    by (cases "hm_get (vm_accounts st) (contract_address E tx)")
      (simp_all add: vm_wf_def vm_supply_def execute_contract_deploy_def Let_def balance_of_def account_at_def)
  with ContractDeploy assms show ?thesis
    by (simp add: execute_transaction_def Let_def minted_def algebra_simps)
      (simp add: execute_contract_deploy_def Let_def vm_wf_def)
qed (use assms in \<open>auto simp: execute_transaction_def Let_def minted_def transfer_supply
      execute_private_transfer_def execute_contract_call_def split: option.splits\<close>)

text \<open>The amount a transfer costs its sender, over the natural numbers.\<close>

definition transfer_cost :: "transaction \<Rightarrow> nat" where
  "transfer_cost tx = unat (tx_value tx) + unat (tx_gas_price tx) * unat (tx_gas_limit tx)"

text \<open>
  A transfer between two addresses, when nothing overflows: it succeeds exactly when the sender
  can pay value and gas cost; then the sender loses exactly that and its nonce grows by one, the
  receiver gains exactly the value, and no other account changes.
\<close>
theorem transfer_exact:
  assumes "tx_to tx = Some r" and "r \<noteq> tx_from tx" and "transfer_cost tx < 2 ^ 128"
    and "unat (balance_of st r) + unat (tx_value tx) < 2 ^ 128"
  shows "case execute_transfer G tx gas st of (res, st') \<Rightarrow>
    (success res \<longleftrightarrow> transfer_cost tx \<le> unat (balance_of st (tx_from tx))) \<and>
    (if success res
     then unat (balance_of st' (tx_from tx)) = unat (balance_of st (tx_from tx)) - transfer_cost tx \<and>
       acc_nonce (account_at st' (tx_from tx)) = acc_nonce (account_at st (tx_from tx)) + 1 \<and>
       unat (balance_of st' r) = unat (balance_of st r) + unat (tx_value tx) \<and>
       acc_nonce (account_at st' r) = acc_nonce (account_at st r) \<and>
       (\<forall>a. a \<noteq> r \<longrightarrow> a \<noteq> tx_from tx \<longrightarrow> account_at st' a = account_at st a)
     else st' = st)"
proof -
  let ?tc = "tx_value tx + gas_cost tx" and ?s = "tx_from tx"
  have gas: "unat (gas_cost tx) = unat (tx_gas_price tx) * unat (tx_gas_limit tx)"
    using assms(3) by (simp add: gas_cost_def unat_word_ariths transfer_cost_def)
  then have tc: "unat ?tc = transfer_cost tx"
    using assms(3) by (simp add: unat_word_ariths transfer_cost_def)
  show ?thesis
  proof (cases "balance_of st ?s < ?tc")
    case True
    then show ?thesis using tc by (simp add: transfer_failure failed_def word_less_nat_alt)
  next
    case False
    then have le: "?tc \<le> balance_of st ?s" by simp
    have ok: "success (fst (execute_transfer G tx gas st))" by (rule transfer_success [OF le])
    have le': "transfer_cost tx \<le> unat (balance_of st ?s)" using le tc by (simp add: word_le_nat_alt)
    have "unat (balance_of st ?s - ?tc) = unat (balance_of st ?s) - transfer_cost tx"
      using le tc by (simp add: unat_sub)
    then have "unat (balance_of st ?s + (- tx_value tx - gas_cost tx)) = unat (balance_of st ?s) - transfer_cost tx"
      by (simp add: algebra_simps)
    moreover have "unat (balance_of st r + tx_value tx) = unat (balance_of st r) + unat (tx_value tx)"
      using assms(4) by (simp add: unat_word_ariths)
    ultimately show ?thesis
      using assms(2) le' ok transfer_other [OF le assms(1,2), of G gas]
      by (cases "execute_transfer G tx gas st") (simp add: account_at_apply balance_of_def)
  qed
qed

text \<open>
  The sum \<open>value + gas cost\<close> that is compared with the balance wraps: a transfer of
  \<open>2^128 - gas cost\<close> succeeds for every sender, whatever its balance, charges it nothing, and adds
  that value to the receiver.
\<close>
theorem overflowing_transfer_is_free:
  assumes "tx_to tx = Some r" and "r \<noteq> tx_from tx" and "tx_value tx = - gas_cost tx"
  shows "success (fst (execute_transfer G tx gas st)) \<and>
    balance_of (snd (execute_transfer G tx gas st)) (tx_from tx) = balance_of st (tx_from tx) \<and>
    balance_of (snd (execute_transfer G tx gas st)) r = balance_of st r - gas_cost tx"
proof -
  have le: "tx_value tx + gas_cost tx \<le> balance_of st (tx_from tx)" using assms(3) by simp
  show ?thesis
    using transfer_success [OF le, of G gas] transfer_other [OF le assms(1,2), of G gas] assms(2,3)
    by (simp add: account_at_apply balance_of_def)
qed

text \<open>
  A transfer to oneself (or without a receiver) that the balance covers creates money: the
  sender's change is overwritten by the receiver's, so the balance grows by the value, no gas is
  charged and the nonce stays, which leaves the transaction repeatable.
\<close>
theorem self_transfer_mints:
  assumes "unwrap_or (tx_to tx) (tx_from tx) = tx_from tx"
    and "tx_value tx + gas_cost tx \<le> balance_of st (tx_from tx)"
  shows "success (fst (execute_transfer G tx gas st)) \<and>
    balance_of (snd (execute_transfer G tx gas st)) (tx_from tx) = balance_of st (tx_from tx) + tx_value tx \<and>
    acc_nonce (account_at (snd (execute_transfer G tx gas st)) (tx_from tx)) =
      acc_nonce (account_at st (tx_from tx))"
  using transfer_success [OF assms(2), of G gas] transfer_self [OF assms(2,1), of G gas]
  by (simp add: account_at_apply balance_of_def)

text \<open>
  A transaction that does not succeed reports an error, returns no data and no changes, and
  leaves the state as it was, for every transaction type.
\<close>
theorem failed_transaction_changes_nothing:
  assumes "\<not> success (fst (execute_transaction E G tx st))"
  shows "snd (execute_transaction E G tx st) = st \<and>
    exec_error (fst (execute_transaction E G tx st)) \<noteq> None \<and>
    state_changes (fst (execute_transaction E G tx st)) = []"
  using assms
  by (cases "tx_type tx")
    (auto simp: execute_transaction_def Let_def transfer_not_success execute_private_transfer_def
      execute_contract_deploy_def execute_contract_call_def execute_wasm_def execute_evm_def
      execute_native_def call_succeeded_def failed_def split: option.splits vm_type.splits)

text \<open>
  A deployment always succeeds, installs the code under an address derived from sender and
  nonce, and changes no other account: the sender is charged neither value nor gas (the changes it
  reports are not applied) and its nonce stays, so the next deployment with the same nonce
  replaces the contract.
\<close>
theorem deploy_spec:
  assumes "tx_type tx = ContractDeploy"
  shows "case execute_transaction E G tx st of (res, st') \<Rightarrow>
    success res \<and> vm_get_contract st' (contract_address E tx) =
      Some \<lparr>cc_code = tx_data tx, cc_abi = [], cc_vm_type = Wasm\<rparr> \<and>
    balance_of st' (contract_address E tx) = tx_value tx \<and>
    (\<forall>a. a \<noteq> contract_address E tx \<longrightarrow> account_at st' a = account_at st a \<and>
       vm_get_contract st' a = vm_get_contract st a)"
  using assms
  by (simp add: execute_transaction_def execute_contract_deploy_def Let_def vm_get_contract_def
      balance_of_def account_at_def)

text \<open>
  The zero-knowledge proof of a private transfer is not examined: any proof, or none, leads to
  the same state, that of the plain transfer.
\<close>
theorem private_proof_not_examined:
  "snd (execute_private_transfer G (tx\<lparr>tx_zk_proof := proof\<rparr>) gas st) = snd (execute_transfer G tx gas st)"
  by (simp add: execute_private_transfer_def execute_transfer_def gas_cost_def Let_def)

text \<open>
  With the default schedule a successful transfer is charged the base cost twice, 42000, while
  the estimator promises 21000.
\<close>
theorem transfer_gas_exceeds_estimate:
  assumes "tx_type tx = Transfer" and "success (fst (execute_transaction E gas_schedule_default tx st))"
  shows "gas_used (fst (execute_transaction E gas_schedule_default tx st)) = 42000 \<and> estimate_gas tx = 21000"
  using assms
  by (auto simp: execute_transaction_def execute_transfer_def Let_def estimate_gas_def
      gas_schedule_default_def failed_def split: if_splits)

subsection \<open>Blocks\<close>

text \<open>A public transfer between two addresses.\<close>

definition plain_transfer :: "transaction \<Rightarrow> bool" where
  "plain_transfer tx \<longleftrightarrow> tx_type tx = Transfer \<and> (\<exists>r. tx_to tx = Some r \<and> r \<noteq> tx_from tx)"

text \<open>What a result charges for gas, in the program's arithmetic and as a natural number.\<close>

definition gas_paid :: "transaction \<Rightarrow> execution_result \<Rightarrow> u128" where
  "gas_paid tx r = (if success r then gas_cost tx else 0)"

definition gas_burnt :: "transaction \<Rightarrow> execution_result \<Rightarrow> nat" where
  "gas_burnt tx r = (if success r then unat (tx_gas_price tx) * unat (tx_gas_limit tx) else 0)"

lemma plain_transfer_supply:
  assumes "vm_wf st" and "plain_transfer tx" and "execute_transaction E G tx st = (r, st')"
  shows "vm_wf st' \<and> vm_supply st' + gas_paid tx r = vm_supply st"
proof -
  let ?gas = "base_tx_cost G"
  have e: "execute_transfer G tx ?gas st = (r, st')"
    using assms(2,3) by (simp add: execute_transaction_def plain_transfer_def)
  have "success r \<longleftrightarrow> \<not> balance_of st (tx_from tx) < tx_value tx + gas_cost tx"
  proof (cases "balance_of st (tx_from tx) < tx_value tx + gas_cost tx")
    case True
    then show ?thesis using e by (auto simp: transfer_failure failed_def)
  next
    case False
    then show ?thesis using e transfer_success [of tx st G ?gas] by simp
  qed
  then show ?thesis
    using transfer_supply [OF assms(1), of G tx ?gas] assms(2)
    by (auto simp: e gas_paid_def plain_transfer_def)
qed

lemma block_sequential_supply:
  assumes "vm_wf st" and "\<forall>tx \<in> set txs. plain_transfer tx"
    and "execute_block_sequential E G txs st = (rs, st')"
  shows "length rs = length txs \<and> vm_wf st' \<and>
    vm_supply st' + sum_list (map2 gas_paid txs rs) = vm_supply st"
  using assms
proof (induction txs arbitrary: st rs)
  case (Cons tx txs)
  obtain r st1 where 1: "execute_transaction E G tx st = (r, st1)" by fastforce
  obtain rs' where 2: "execute_block_sequential E G txs st1 = (rs', st')" "rs = r # rs'"
    using Cons.prems(3) 1 by (auto split: prod.splits)
  have p: "plain_transfer tx" using Cons.prems(2) by simp
  note head = plain_transfer_supply [OF Cons.prems(1) p 1]
  have "length rs' = length txs \<and> vm_wf st' \<and>
      vm_supply st' + sum_list (map2 gas_paid txs rs') = vm_supply st1"
    using Cons.prems(2) head 2(1) by (intro Cons.IH) auto
  moreover have "vm_supply st' + (gas_paid tx r + S) = vm_supply st"
    if "vm_supply st' + S = vm_supply st1" for S
    using head that by (metis add.assoc add.commute)
  ultimately show ?case by (simp only: 2(2) length_Cons zip_Cons_Cons list.map prod.case
      sum_list.Cons simp_thms)
qed simp

lemma plain_transfer_funds:
  assumes wf: "vm_wf st" and p: "plain_transfer tx" and c: "transfer_cost tx < 2 ^ 128"
    and f: "funds st < 2 ^ 128" and run: "execute_transaction E G tx st = (r, st')"
  shows "funds st' + gas_burnt tx r = funds st"
proof -
  let ?gas = "base_tx_cost G" and ?s = "tx_from tx" and ?tc = "tx_value tx + gas_cost tx"
  obtain b where b: "tx_to tx = Some b" "b \<noteq> ?s" using p by (auto simp: plain_transfer_def)
  have e: "execute_transfer G tx ?gas st = (r, st')"
    using p run by (simp add: execute_transaction_def plain_transfer_def)
  have gas: "unat (gas_cost tx) = unat (tx_gas_price tx) * unat (tx_gas_limit tx)"
    using c by (simp add: gas_cost_def unat_word_ariths transfer_cost_def)
  then have tc: "unat ?tc = transfer_cost tx"
    using c by (simp add: unat_word_ariths transfer_cost_def)
  show ?thesis
  proof (cases "balance_of st ?s < ?tc")
    case True
    then show ?thesis using e by (auto simp: transfer_failure failed_def gas_burnt_def)
  next
    case False
    then have le: "?tc \<le> balance_of st ?s" by simp
    let ?st1 = "apply_account_change (?s, \<lparr>balance_delta = - ?tc, nonce_delta = 1,
        storage_changes = [], change_code = None\<rparr>) st"
    have ok: "success r" and st': "st' = apply_account_change
        (b, \<lparr>balance_delta = tx_value tx, nonce_delta = 0, storage_changes = [], change_code = None\<rparr>) ?st1"
      using transfer_success [OF le, of G ?gas] transfer_other [OF le b, of G ?gas] by (simp_all add: e)
    have le': "transfer_cost tx \<le> unat (balance_of st ?s)" using le tc by (simp add: word_le_nat_alt)
    have "unat (balance_of st ?s - ?tc) = unat (balance_of st ?s) - transfer_cost tx"
      using le tc by (simp add: unat_sub)
    then have "unat (balance_of st ?s + - ?tc) + transfer_cost tx = unat (balance_of st ?s)"
      using le' by (simp add: algebra_simps)
    then have f1: "funds ?st1 + transfer_cost tx = funds st"
      using funds_apply [OF wf, of ?s "\<lparr>balance_delta = - ?tc, nonce_delta = 1,
        storage_changes = [], change_code = None\<rparr>"] by (simp only: account_change.simps)
    have wf1: "vm_wf ?st1" by (rule apply_wf [OF wf])
    have b1: "balance_of ?st1 b = balance_of st b" using b(2) by (simp add: balance_of_def account_at_apply)
    have "unat (balance_of st b) + unat (tx_value tx) < 2 ^ 128"
      using two_balances [OF wf b(2)] f le' by (simp add: transfer_cost_def)
    then have "unat (balance_of st b + tx_value tx) = unat (balance_of st b) + unat (tx_value tx)"
      by (simp add: unat_word_ariths)
    then have "funds st' = funds ?st1 + unat (tx_value tx)"
      using funds_apply [OF wf1, where a = b and ch = "\<lparr>balance_delta = tx_value tx, nonce_delta = 0,
        storage_changes = [], change_code = None\<rparr>"] b1 by (simp add: st' del: minus_add_distrib)
    with f1 show ?thesis by (simp add: ok gas_burnt_def transfer_cost_def)
  qed
qed

lemma block_sequential_funds:
  assumes "vm_wf st" and "\<forall>tx \<in> set txs. plain_transfer tx \<and> transfer_cost tx < 2 ^ 128"
    and "funds st < 2 ^ 128" and "execute_block_sequential E G txs st = (rs, st')"
  shows "funds st' + sum_list (map2 gas_burnt txs rs) = funds st"
  using assms
proof (induction txs arbitrary: st rs)
  case (Cons tx txs)
  obtain r st1 where 1: "execute_transaction E G tx st = (r, st1)" by fastforce
  obtain rs' where 2: "execute_block_sequential E G txs st1 = (rs', st')" "rs = r # rs'"
    using Cons.prems(4) 1 by (auto split: prod.splits)
  have p: "plain_transfer tx" "transfer_cost tx < 2 ^ 128" using Cons.prems(2) by simp_all
  have head: "funds st1 + gas_burnt tx r = funds st"
    by (rule plain_transfer_funds [OF Cons.prems(1) p Cons.prems(3) 1])
  have "funds st' + sum_list (map2 gas_burnt txs rs') = funds st1"
  proof (rule Cons.IH [OF _ _ _ 2(1)])
    show "vm_wf st1" using plain_transfer_supply [OF Cons.prems(1) p(1) 1] by blast
    show "funds st1 < 2 ^ 128" using head Cons.prems(3) by linarith
  qed (use Cons.prems(2) in simp)
  with head show ?case by (simp add: 2(2))
qed simp

lemma map_of_zip_nth:
  assumes "distinct xs" and "length ys = length xs" and "j < length xs"
  shows "map_of (zip xs ys) (xs ! j) = Some (ys ! j)"
  using assms by (intro map_of_is_SomeI) (auto simp: set_zip)

text \<open>
  The thread pool runs some permutation of the block and files the results under their indices, so
  any sum over transactions and results is the sum over that permutation.
\<close>
lemma parallel_block_permutes:
  fixes g :: "transaction \<Rightarrow> execution_result \<Rightarrow> 'n :: comm_monoid_add"
  assumes "execute_block_parallel E G txs st (results, st')"
  obtains ptxs rs where "mset ptxs = mset txs" and "execute_block_sequential E G ptxs st = (rs, st')"
    and "length rs = length ptxs \<longrightarrow> sum_list (map2 g ptxs rs) = sum_list (map2 g txs results)"
    and "length results = length txs"
proof -
  let ?n = "length txs"
  obtain order rs where o: "mset order = mset [0 ..< ?n]"
    and run: "execute_block_sequential E G (map ((!) txs) order) st = (rs, st')"
    and res: "results = map (\<lambda>i. the (map_of (zip order rs) i)) [0 ..< ?n]"
    using assms by (auto simp: execute_block_parallel_def)
  have d: "distinct order" using mset_eq_imp_distinct_iff [OF o] by simp
  let ?f = "\<lambda>i. g (txs ! i) (the (map_of (zip order rs) i))"
  have sums: "length rs = length (map ((!) txs) order) \<longrightarrow>
      sum_list (map2 g (map ((!) txs) order) rs) = sum_list (map2 g txs results)"
  proof
    assume len: "length rs = length (map ((!) txs) order)"
    have "map2 g (map ((!) txs) order) rs = map ?f order"
      using len d by (intro nth_equalityI) (simp_all add: map_of_zip_nth)
    then have "sum_list (map2 g (map ((!) txs) order) rs) = sum_list (map ?f [0 ..< ?n])"
      by (simp only: sum_mset_sum_list [symmetric] mset_map o)
    also have "map ?f [0 ..< ?n] = map2 g txs results"
      by (intro nth_equalityI) (simp_all add: res)
    finally show "sum_list (map2 g (map ((!) txs) order) rs) = sum_list (map2 g txs results)" .
  qed
  have "mset (map ((!) txs) order) = mset (map ((!) txs) [0 ..< ?n])" by (simp only: mset_map o)
  then have "mset (map ((!) txs) order) = mset txs" by (simp only: map_nth)
  then show ?thesis by (rule that [OF _ run sums]) (simp_all add: res)
qed

text \<open>
  C14. Whatever order the thread pool runs a block of transfers between distinct addresses in, it
  returns one result per transaction, and the \<open>u128\<close> sum of all balances drops, modulo \<open>2^128\<close>, by the gas
  cost of the transactions it reports as successful. If moreover no transaction's value plus gas
  cost reaches \<open>2^128\<close> and all balances together stay below it, the money itself, summed over the
  natural numbers, drops by exactly the gas of the successful transactions. (Without that bound it
  need not: \<open>overflowing_transfer_is_free\<close> gives a transfer that creates money.)
\<close>
theorem parallel_block_supply:
  assumes "vm_wf st" and "\<forall>tx \<in> set txs. plain_transfer tx"
    and "execute_block_parallel E G txs st (results, st')"
  shows "length results = length txs \<and>
    vm_supply st' + sum_list (map2 gas_paid txs results) = vm_supply st \<and>
    ((\<forall>tx \<in> set txs. transfer_cost tx < 2 ^ 128) \<and> funds st < 2 ^ 128 \<longrightarrow>
       funds st' + sum_list (map2 gas_burnt txs results) = funds st)"
proof -
  obtain ptxs rs where p: "mset ptxs = mset txs" and run: "execute_block_sequential E G ptxs st = (rs, st')"
    and paid: "length rs = length ptxs \<longrightarrow> sum_list (map2 gas_paid ptxs rs) = sum_list (map2 gas_paid txs results)"
    and len: "length results = length txs"
    by (rule parallel_block_permutes [where g = gas_paid, OF assms(3)])
  obtain ptxs' rs' where p': "mset ptxs' = mset txs" and run': "execute_block_sequential E G ptxs' st = (rs', st')"
    and burnt: "length rs' = length ptxs' \<longrightarrow> sum_list (map2 gas_burnt ptxs' rs') = sum_list (map2 gas_burnt txs results)"
    by (rule parallel_block_permutes [where g = gas_burnt, OF assms(3)])
  have sets: "set ptxs = set txs" "set ptxs' = set txs" using p p' by (auto dest: mset_eq_setD)
  then have plain: "\<forall>tx \<in> set ptxs. plain_transfer tx" "\<forall>tx \<in> set ptxs'. plain_transfer tx"
    using assms(2) by simp_all
  have word: "vm_supply st' + sum_list (map2 gas_paid txs results) = vm_supply st"
    using block_sequential_supply [OF assms(1) plain(1) run] paid by simp
  have "funds st' + sum_list (map2 gas_burnt txs results) = funds st"
    if "\<forall>tx \<in> set txs. transfer_cost tx < 2 ^ 128" "funds st < 2 ^ 128"
  proof -
    have "funds st' + sum_list (map2 gas_burnt ptxs' rs') = funds st"
      by (rule block_sequential_funds [OF assms(1) _ that(2) run']) (use that(1) plain(2) sets in simp)
    then show ?thesis using burnt block_sequential_supply [OF assms(1) plain(2) run'] by simp
  qed
  with word len show ?thesis by blast
qed

text \<open>A state with one funded account, and the instances.\<close>

definition sample_vm :: vm_state where
  "sample_vm = \<lparr>vm_accounts = [(Address [1], account_default\<lparr>acc_balance := 100\<rparr>)],
     vm_contracts = [], vm_storage = [], vm_block_context = \<lparr>ctx_height = 0, ctx_timestamp = 0,
       ctx_coinbase = Address [0], ctx_difficulty = 1, ctx_gas_limit = 0\<rparr>\<rparr>"

lemmas sample_vm_simps = sample_vm_def sample_tx_def vm_wf_def hm_wf_def balance_of_def account_at_def
  hm_get_def gas_cost_def account_default_def

theorem transaction_supply_witness:
  "vm_supply (snd (execute_transaction sample_ext gas_schedule_default (sample_tx 1 0 (Some (Address [2])) 30 5) sample_vm)) = 95"
  using transaction_supply [of sample_vm sample_ext gas_schedule_default "sample_tx 1 0 (Some (Address [2])) 30 5"]
  by (simp add: minted_def sample_vm_simps vm_supply_def hm_sum_def)

theorem transfer_exact_witness:
  "case execute_transfer gas_schedule_default (sample_tx 1 0 (Some (Address [2])) 30 5) 21000 sample_vm of (res, st') \<Rightarrow>
     success res \<and> unat (balance_of st' (Address [1])) = 65 \<and> unat (balance_of st' (Address [2])) = 30"
proof -
  let ?tx = "sample_tx 1 0 (Some (Address [2])) 30 5"
  have bal: "unat (balance_of sample_vm (Address [1])) = 100" "unat (balance_of sample_vm (Address [2])) = 0"
    and cost: "transfer_cost ?tx = 35"
    and tx: "tx_to ?tx = Some (Address [2])" "tx_from ?tx = Address [1]" "unat (tx_value ?tx) = 30"
    by (simp_all add: sample_vm_simps transfer_cost_def)
  show ?thesis
    using transfer_exact [of ?tx "Address [2]" sample_vm gas_schedule_default 21000]
    by (simp add: bal cost tx split: prod.splits if_splits)
qed

theorem overflowing_transfer_is_free_witness:
  "balance_of (snd (execute_transfer gas_schedule_default (sample_tx 9 0 (Some (Address [2])) (- 5) 5) 0 sample_vm))
     (Address [2]) = - 5"
  using overflowing_transfer_is_free [of "sample_tx 9 0 (Some (Address [2])) (- 5) 5" "Address [2]"
      gas_schedule_default 0 sample_vm]
  by (simp add: sample_vm_simps)

theorem self_transfer_mints_witness:
  "balance_of (snd (execute_transfer gas_schedule_default (sample_tx 1 0 None 30 5) 0 sample_vm)) (Address [1]) = 130"
  using self_transfer_mints [of "sample_tx 1 0 None 30 5" sample_vm gas_schedule_default 0]
  by (simp add: sample_vm_simps)

theorem failed_transaction_changes_nothing_witness:
  "snd (execute_transaction sample_ext gas_schedule_default (sample_tx 1 0 (Some (Address [2])) 100 5) sample_vm) = sample_vm"
  using failed_transaction_changes_nothing [of sample_ext gas_schedule_default
      "sample_tx 1 0 (Some (Address [2])) 100 5" sample_vm]
  by (simp add: execute_transaction_def execute_transfer_def failed_def sample_vm_simps)

theorem deploy_spec_witness:
  "case execute_transaction sample_ext gas_schedule_default
       ((sample_tx 1 0 None 500 5)\<lparr>tx_type := ContractDeploy, tx_data := [7]\<rparr>) sample_vm of (res, st') \<Rightarrow>
     success res \<and> balance_of st' (contract_address sample_ext
       ((sample_tx 1 0 None 500 5)\<lparr>tx_type := ContractDeploy, tx_data := [7]\<rparr>)) = 500"
  using deploy_spec [where tx = "(sample_tx 1 0 None 500 5)\<lparr>tx_type := ContractDeploy, tx_data := [7]\<rparr>"
      and E = sample_ext and G = gas_schedule_default and st = sample_vm]
  by (auto simp: sample_tx_def split: prod.splits)

theorem transfer_gas_exceeds_estimate_witness:
  "gas_used (fst (execute_transaction sample_ext gas_schedule_default (sample_tx 1 0 None 30 5) sample_vm)) = 42000"
  using transfer_gas_exceeds_estimate [of "sample_tx 1 0 None 30 5" sample_ext sample_vm]
  by (simp add: execute_transaction_def execute_transfer_def sample_vm_simps Let_def)

theorem parallel_block_supply_witness:
  "\<exists>results st'. execute_block_parallel sample_ext gas_schedule_default
     [sample_tx 1 0 (Some (Address [2])) 30 5, sample_tx 2 0 (Some (Address [1])) 10 5] sample_vm (results, st') \<and>
     length results = 2 \<and>
     funds st' + sum_list (map2 gas_burnt [sample_tx 1 0 (Some (Address [2])) 30 5, sample_tx 2 0 (Some (Address [1])) 10 5] results) = 100"
proof -
  let ?txs = "[sample_tx 1 0 (Some (Address [2])) 30 5, sample_tx 2 0 (Some (Address [1])) 10 5]"
  obtain rs st' where run: "execute_block_sequential sample_ext gas_schedule_default
      (map ((!) ?txs) [1, 0]) sample_vm = (rs, st')" by fastforce
  let ?res = "map (\<lambda>i. the (map_of (zip [1, 0] rs) i)) [0 ..< length ?txs]"
  have par: "execute_block_parallel sample_ext gas_schedule_default ?txs sample_vm (?res, st')"
    unfolding execute_block_parallel_def prod.case
    using run by (intro exI [of _ "[1, 0]"] exI [of _ rs]) simp
  have plain: "\<forall>tx \<in> set ?txs. plain_transfer tx" and wf: "vm_wf sample_vm"
    and cost: "\<forall>tx \<in> set ?txs. transfer_cost tx < 2 ^ 128" and funds: "funds sample_vm = 100"
    by (simp_all add: plain_transfer_def transfer_cost_def funds_def hm_sum_def sample_vm_simps)
  have "length ?res = 2 \<and> funds st' + sum_list (map2 gas_burnt ?txs ?res) = 100"
    using parallel_block_supply [OF wf plain par] cost funds by simp
  with par show ?thesis by blast
qed

end
