(* ===== verification/Multichain.thy ===== *)
theory Multichain
  imports HotStuff Vm
begin

text \<open>
  \<^verbatim>\<open>src/src/multichain/mod.rs\<close>: \<open>CrossChainRouter\<close>, \<open>ShardManager\<close> and the reports that
  \<open>ShardSync\<close> reads.

  Every operation holds the locks it needs until it returns, so it is one step on the records. A
  handler returns its \<open>Result\<close> together with the state it leaves behind, because the source does
  not undo what it changed before an error. The channels of the shards are \<^verbatim>\<open>tokio\<close>'s: their type
  \<open>'ch\<close> and \<open>try_send\<close>, whose result the router ignores, are parameters. So are the shuffle of
  \<open>get_random_committee\<close> and \<open>addr_hash\<close>, the \<open>hash()\<close> method that \<open>route_transaction\<close> calls on an
  address and that no file of the repository defines. The state that the shards share through
  \<open>Arc\<close> (consensus engine, VM) belongs to one shard each and is stored in its record.
\<close>

subsection \<open>The router\<close>

datatype cross_chain_status = Pending | SourceConfirmed | InTransit | TargetConfirmed | Failed

record cross_tx =
  ct_id :: hash
  ct_source_shard :: u16
  ct_target_shard :: u16
  ct_sender :: address
  ct_receiver :: address
  ct_amount :: u128
  ct_nonce :: u64
  ct_status :: cross_chain_status
  ct_proof :: "bytes option"
  ct_timestamp :: u64

record 'ch router =
  pending_txs :: "(hash, cross_tx) hashmap"
  completed_txs :: "(u64, hash) btree"
  shard_channels :: "(u16, 'ch) hashmap"
  relay_validators :: "address list"

definition router_new :: "'ch router" where
  "router_new = \<lparr>pending_txs = [], completed_txs = [], shard_channels = [], relay_validators = []\<rparr>"

definition register_shard :: "u16 \<Rightarrow> 'ch \<Rightarrow> 'ch router \<Rightarrow> 'ch router" where
  "register_shard shard_id sender r = r\<lparr>shard_channels := hm_insert shard_id sender (shard_channels r)\<rparr>"

definition submit_cross_tx ::
    "('ch \<Rightarrow> cross_tx \<Rightarrow> 'ch) \<Rightarrow> cross_tx \<Rightarrow> 'ch router \<Rightarrow> unit rs_result \<times> 'ch router" where
  "submit_cross_tx try_send tx r =
     (if hm_get (pending_txs r) (ct_id tx) \<noteq> None then (Err ''Transaction already pending'', r)
      else
        let r' = r\<lparr>pending_txs := hm_insert (ct_id tx) tx (pending_txs r)\<rparr>
        in (Ok (), case hm_get (shard_channels r') (ct_target_shard tx) of
                     None \<Rightarrow> r'
                   | Some ch \<Rightarrow> r'\<lparr>shard_channels :=
                       hm_insert (ct_target_shard tx) (try_send ch tx) (shard_channels r')\<rparr>))"

definition confirm_tx :: "hash \<Rightarrow> bytes \<Rightarrow> 'ch router \<Rightarrow> unit rs_result \<times> 'ch router" where
  "confirm_tx tx_id proof r =
     (case hm_get (pending_txs r) tx_id of
        None \<Rightarrow> (Err ''Transaction not found'', r)
      | Some tx \<Rightarrow>
          let tx' = tx\<lparr>ct_status := TargetConfirmed, ct_proof := Some proof\<rparr>;
              pending = hm_insert tx_id tx' (pending_txs r)
          in (Ok (), r\<lparr>completed_txs := bt_insert (ct_timestamp tx') tx_id (completed_txs r),
                       pending_txs := hm_remove tx_id pending\<rparr>))"

definition get_pending :: "'ch router \<Rightarrow> cross_tx list" where
  "get_pending r = map snd (pending_txs r)"

record cross_chain_stats =
  pending_count :: nat
  completed_count :: nat

definition router_stats :: "'ch router \<Rightarrow> cross_chain_stats" where
  "router_stats r = \<lparr>pending_count = length (pending_txs r), completed_count = length (completed_txs r)\<rparr>"

subsection \<open>The shard manager\<close>

record shard_state =
  ss_accounts :: "(address, account) hashmap"
  ss_nonce_tracker :: "(address, u64) hashmap"
  ss_last_block_hash :: hash
  ss_cross_chain_nonce :: u64

record shard =
  sh_id :: u16
  sh_validators :: "address list"
  sh_consensus :: hotstuff
  sh_vm :: vm_state
  sh_gas_schedule :: gas_schedule
  sh_cross_chain_enabled :: bool
  sh_state :: shard_state
  sh_block_height :: u64
  sh_pending_cross_txs :: "cross_tx list"

record 'ch shard_manager =
  sm_shards :: "(u16, shard) hashmap"
  sm_router :: "'ch router"
  sm_config :: chain_config
  sm_total_tx_processed :: u64

definition shard_manager_new :: "chain_config \<Rightarrow> 'ch router \<Rightarrow> 'ch shard_manager" where
  "shard_manager_new config r =
     \<lparr>sm_shards = [], sm_router = r, sm_config = config, sm_total_tx_processed = 0\<rparr>"

definition init_shard ::
    "ext \<Rightarrow> (bytes \<Rightarrow> address list \<Rightarrow> address list) \<Rightarrow> chain_config \<Rightarrow> validator_set \<Rightarrow> u16 \<Rightarrow> shard" where
  "init_shard E shuffle config vs shard_id =
     \<lparr>sh_id = shard_id,
      sh_validators = get_random_committee shuffle vs (ucast shard_id) 16,
      sh_consensus = hotstuff_new config vs (address_new (sha3_256 E) (replicate 32 (ucast shard_id))),
      sh_vm = \<lparr>vm_accounts = [], vm_contracts = [], vm_storage = [], vm_block_context =
        \<lparr>ctx_height = 0, ctx_timestamp = 0, ctx_coinbase = address_new (sha3_256 E) (replicate 32 0),
         ctx_difficulty = 1, ctx_gas_limit = cfg_max_block_gas config\<rparr>\<rparr>,
      sh_gas_schedule = gas_schedule_default,
      sh_cross_chain_enabled = cfg_cross_chain_enabled config,
      sh_state = \<lparr>ss_accounts = [], ss_nonce_tracker = [], ss_last_block_hash = hash_zero,
        ss_cross_chain_nonce = 0\<rparr>,
      sh_block_height = 0, sh_pending_cross_txs = []\<rparr>"

definition initialize_shards ::
    "ext \<Rightarrow> (bytes \<Rightarrow> address list \<Rightarrow> address list) \<Rightarrow> validator_set \<Rightarrow> 'ch shard_manager \<Rightarrow> 'ch shard_manager" where
  "initialize_shards E shuffle vs sm =
     sm\<lparr>sm_shards :=
       fold (\<lambda>i shards. let shard_id = word_of_nat i in
                hm_insert shard_id (init_shard E shuffle (sm_config sm) vs shard_id) shards)
         [0 ..< unat (cfg_shard_count (sm_config sm))] (sm_shards sm)\<rparr>"

definition update_shard :: "u16 \<Rightarrow> shard \<Rightarrow> 'ch shard_manager \<Rightarrow> 'ch shard_manager" where
  "update_shard shard_id sh sm = sm\<lparr>sm_shards := hm_insert shard_id sh (sm_shards sm)\<rparr>"

text \<open>\<open>None\<close> is the panic of \<open>% 0\<close>.\<close>

definition pick_shard :: "(address \<Rightarrow> hash) \<Rightarrow> chain_config \<Rightarrow> transaction \<Rightarrow> u16 option" where
  "pick_shard addr_hash config tx =
     (if tx_shard_id tx > 0 \<and> tx_shard_id tx < cfg_shard_count config then Some (tx_shard_id tx)
      else if cfg_shard_count config = 0 then None
      else
        let h = hash_bytes (addr_hash (tx_from tx))
        in Some (word_of_nat (from_le [h ! 0, h ! 1]) mod cfg_shard_count config))"

definition route_transaction ::
    "ext \<Rightarrow> (address \<Rightarrow> hash) \<Rightarrow> transaction \<Rightarrow> 'ch shard_manager \<Rightarrow> (u16 rs_result \<times> 'ch shard_manager) option" where
  "route_transaction E addr_hash tx sm =
     (case pick_shard addr_hash (sm_config sm) tx of
        None \<Rightarrow> None
      | Some shard_id \<Rightarrow>
          Some (case hm_get (sm_shards sm) shard_id of
                  None \<Rightarrow> (Err ''Shard not found'', sm)
                | Some sh \<Rightarrow>
                    (case add_transaction E tx (hs_mempool (sh_consensus sh)) of
                       Err e \<Rightarrow> (Err e, sm)
                     | Ok mp \<Rightarrow>
                         (Ok shard_id,
                          update_shard shard_id
                            (sh\<lparr>sh_consensus := (sh_consensus sh)\<lparr>hs_mempool := mp\<rparr>\<rparr>) sm))))"

definition shard_account :: "shard \<Rightarrow> address \<Rightarrow> account" where
  "shard_account sh a = unwrap_or (hm_get (ss_accounts (sh_state sh)) a) account_default"

definition set_shard_account :: "address \<Rightarrow> account \<Rightarrow> shard \<Rightarrow> shard" where
  "set_shard_account a acc sh =
     sh\<lparr>sh_state := (sh_state sh)\<lparr>ss_accounts := hm_insert a acc (ss_accounts (sh_state sh))\<rparr>\<rparr>"

definition process_cross_chain_tx ::
    "('ch \<Rightarrow> cross_tx \<Rightarrow> 'ch) \<Rightarrow> cross_tx \<Rightarrow> 'ch shard_manager \<Rightarrow> unit rs_result \<times> 'ch shard_manager" where
  "process_cross_chain_tx try_send tx sm =
     (case hm_get (sm_shards sm) (ct_source_shard tx) of
        None \<Rightarrow> (Ok (), sm)
      | Some sh \<Rightarrow>
          let sender = shard_account sh (ct_sender tx) in
          if acc_balance sender < ct_amount tx
          then (Err ''Insufficient balance for cross-chain transfer'', sm)
          else
            let sender' = sender\<lparr>acc_balance := acc_balance sender - ct_amount tx\<rparr>;
                sm' = update_shard (ct_source_shard tx) (set_shard_account (ct_sender tx) sender' sh) sm;
                (res, r) = submit_cross_tx try_send (tx\<lparr>ct_status := SourceConfirmed\<rparr>) (sm_router sm')
            in (res, sm'\<lparr>sm_router := r\<rparr>))"

definition receive_cross_chain_tx ::
    "cross_tx \<Rightarrow> 'ch shard_manager \<Rightarrow> unit rs_result \<times> 'ch shard_manager" where
  "receive_cross_chain_tx tx sm =
     (case hm_get (sm_shards sm) (ct_target_shard tx) of
        None \<Rightarrow> (Ok (), sm)
      | Some sh \<Rightarrow>
          let receiver = shard_account sh (ct_receiver tx);
              receiver' = receiver\<lparr>acc_balance := acc_balance receiver + ct_amount tx\<rparr>;
              sm' = update_shard (ct_target_shard tx) (set_shard_account (ct_receiver tx) receiver' sh) sm;
              (res, r) = confirm_tx (ct_id tx) [1] (sm_router sm')
          in (res, sm'\<lparr>sm_router := r\<rparr>))"

record shard_info =
  si_shard_id :: u16
  si_block_height :: u64
  si_validator_count :: nat
  si_mempool_size :: nat
  si_pending_cross_txs :: nat

definition info_of :: "u16 \<Rightarrow> shard \<Rightarrow> shard_info" where
  "info_of shard_id sh =
     \<lparr>si_shard_id = shard_id, si_block_height = sh_block_height sh,
      si_validator_count = length (sh_validators sh),
      si_mempool_size = mempool_size (get_mempool (sh_consensus sh)),
      si_pending_cross_txs = length (sh_pending_cross_txs sh)\<rparr>"

definition get_shard_info :: "'ch shard_manager \<Rightarrow> u16 \<Rightarrow> shard_info option" where
  "get_shard_info sm shard_id = map_option (info_of shard_id) (hm_get (sm_shards sm) shard_id)"

definition get_all_shard_stats :: "'ch shard_manager \<Rightarrow> shard_info list" where
  "get_all_shard_stats sm = map (\<lambda>(i, sh). info_of i sh) (sm_shards sm)"

definition get_cross_chain_stats :: "'ch shard_manager \<Rightarrow> cross_chain_stats" where
  "get_cross_chain_stats sm = router_stats (sm_router sm)"

subsection \<open>Where the money is\<close>

definition shard_funds :: "shard \<Rightarrow> u128" where
  "shard_funds sh = hm_sum acc_balance (ss_accounts (sh_state sh))"

definition cross_supply :: "'ch shard_manager \<Rightarrow> u128" where
  "cross_supply sm = hm_sum shard_funds (sm_shards sm) + hm_sum ct_amount (pending_txs (sm_router sm))"

definition sm_wf :: "'ch shard_manager \<Rightarrow> bool" where
  "sm_wf sm \<longleftrightarrow> hm_wf (sm_shards sm) \<and> hm_wf (pending_txs (sm_router sm)) \<and>
     bt_wf (completed_txs (sm_router sm)) \<and>
     (\<forall>i sh. hm_get (sm_shards sm) i = Some sh \<longrightarrow> hm_wf (ss_accounts (sh_state sh)))"

definition cross_balance :: "'ch shard_manager \<Rightarrow> u16 \<Rightarrow> address \<Rightarrow> u128" where
  "cross_balance sm i a =
     (case hm_get (sm_shards sm) i of None \<Rightarrow> 0 | Some sh \<Rightarrow> acc_balance (shard_account sh a))"

lemma set_account_funds:
  assumes "hm_wf (ss_accounts (sh_state sh))"
  shows "shard_funds (set_shard_account a acc sh) = shard_funds sh + acc_balance acc - acc_balance (shard_account sh a)"
proof -
  have "shard_funds (set_shard_account a acc sh) + acc_balance (shard_account sh a) = shard_funds sh + acc_balance acc"
    using hm_sum_insert [OF assms, of acc_balance a acc]
    by (cases "hm_get (ss_accounts (sh_state sh)) a")
      (simp_all add: shard_funds_def set_shard_account_def shard_account_def)
  then show ?thesis by (simp add: algebra_simps)
qed

lemma update_funds:
  assumes "hm_wf (sm_shards sm)" and "hm_get (sm_shards sm) i = Some sh"
  shows "hm_sum shard_funds (sm_shards (update_shard i sh' sm))
    = hm_sum shard_funds (sm_shards sm) + shard_funds sh' - shard_funds sh"
  using hm_sum_insert [OF assms(1), of shard_funds i sh'] assms(2)
  by (simp add: update_shard_def algebra_simps)

lemma set_account_update:
  assumes "sm_wf sm" and "hm_get (sm_shards sm) i = Some sh"
  shows "hm_sum shard_funds (sm_shards (update_shard i (set_shard_account a acc sh) sm))
    = hm_sum shard_funds (sm_shards sm) + acc_balance acc - acc_balance (shard_account sh a)"
    and "sm_wf (update_shard i (set_shard_account a acc sh) sm)"
  using assms by (simp_all add: update_funds set_account_funds sm_wf_def)
    (auto simp: update_shard_def set_shard_account_def)

lemma submit_spec:
  assumes "hm_wf (pending_txs r)" and "submit_cross_tx try_send tx r = (res, r')"
  shows "hm_wf (pending_txs r')" and "completed_txs r' = completed_txs r"
    and "res = (if hm_get (pending_txs r) (ct_id tx) = None then Ok () else Err ''Transaction already pending'')"
    and "hm_get (pending_txs r') = (if hm_get (pending_txs r) (ct_id tx) = None
           then (hm_get (pending_txs r))(ct_id tx \<mapsto> tx) else hm_get (pending_txs r))"
    and "hm_sum ct_amount (pending_txs r') = hm_sum ct_amount (pending_txs r) +
      (if hm_get (pending_txs r) (ct_id tx) = None then ct_amount tx else 0)"
  using assms hm_sum_insert [OF assms(1), of ct_amount "ct_id tx" tx]
  by (auto simp: submit_cross_tx_def Let_def split: if_splits option.splits)

lemma confirm_spec:
  assumes "hm_wf (pending_txs r)" and "bt_wf (completed_txs r)" and "confirm_tx tx_id proof r = (res, r')"
  shows "hm_wf (pending_txs r')" and "bt_wf (completed_txs r')"
    and "res = (if hm_get (pending_txs r) tx_id = None then Err ''Transaction not found'' else Ok ())"
    and "hm_get (pending_txs r') = (hm_get (pending_txs r))(tx_id := None)"
    and "bt_get (completed_txs r') = (case hm_get (pending_txs r) tx_id of None \<Rightarrow> bt_get (completed_txs r)
      | Some tx \<Rightarrow> (bt_get (completed_txs r))(ct_timestamp tx \<mapsto> tx_id))"
    and "hm_sum ct_amount (pending_txs r') = hm_sum ct_amount (pending_txs r) -
      (case hm_get (pending_txs r) tx_id of None \<Rightarrow> 0 | Some tx \<Rightarrow> ct_amount tx)"
proof -
  have "hm_sum ct_amount (hm_remove tx_id (hm_insert tx_id t (pending_txs r)))
      = hm_sum ct_amount (pending_txs r) - (case hm_get (pending_txs r) tx_id of None \<Rightarrow> 0 | Some tx \<Rightarrow> ct_amount tx)"
    for t
  proof -
    let ?c = "case hm_get (pending_txs r) tx_id of None \<Rightarrow> 0 | Some tx \<Rightarrow> ct_amount tx"
    let ?i = "hm_insert tx_id t (pending_txs r)"
    have "hm_sum ct_amount (hm_remove tx_id ?i) = hm_sum ct_amount ?i - ct_amount t"
      using hm_sum_remove [of ?i ct_amount tx_id] assms(1) by (simp add: eq_diff_eq)
    moreover have "hm_sum ct_amount ?i = hm_sum ct_amount (pending_txs r) + ct_amount t - ?c"
      using hm_sum_insert [OF assms(1), of ct_amount tx_id t] by (simp add: eq_diff_eq)
    ultimately show ?thesis by simp
  qed
  then show "hm_sum ct_amount (pending_txs r') = hm_sum ct_amount (pending_txs r) -
      (case hm_get (pending_txs r) tx_id of None \<Rightarrow> 0 | Some tx \<Rightarrow> ct_amount tx)"
    using assms(3) by (auto simp: confirm_tx_def Let_def split: option.splits)
qed (use assms in \<open>auto simp: confirm_tx_def Let_def split: option.splits\<close>)

lemma process_cross_effect:
  assumes "sm_wf sm" and "process_cross_chain_tx try_send tx sm = (res, sm')"
  shows "sm_wf sm' \<and>
    (hm_get (sm_shards sm) (ct_source_shard tx) = None \<longrightarrow> res = Ok () \<and> sm' = sm) \<and>
    (hm_get (sm_shards sm) (ct_source_shard tx) \<noteq> None \<longrightarrow>
      (if cross_balance sm (ct_source_shard tx) (ct_sender tx) < ct_amount tx
       then res \<noteq> Ok () \<and> sm' = sm
       else if hm_get (pending_txs (sm_router sm)) (ct_id tx) = None
       then res = Ok () \<and> cross_supply sm' = cross_supply sm
       else res \<noteq> Ok () \<and> cross_supply sm' = cross_supply sm - ct_amount tx))"
proof (cases "hm_get (sm_shards sm) (ct_source_shard tx)")
  case None
  with assms show ?thesis by (simp add: process_cross_chain_tx_def)
next
  case (Some sh)
  let ?s = "shard_account sh (ct_sender tx)"
  show ?thesis
  proof (cases "acc_balance ?s < ct_amount tx")
    case True
    with Some assms show ?thesis by (auto simp: process_cross_chain_tx_def cross_balance_def Let_def)
  next
    case False
    define sm1 where "sm1 = update_shard (ct_source_shard tx)
      (set_shard_account (ct_sender tx) (?s\<lparr>acc_balance := acc_balance ?s - ct_amount tx\<rparr>) sh) sm"
    obtain r where r: "submit_cross_tx try_send (tx\<lparr>ct_status := SourceConfirmed\<rparr>) (sm_router sm1) = (res, r)"
      and sm': "sm' = sm1\<lparr>sm_router := r\<rparr>"
      using assms(2) Some False by (auto simp: process_cross_chain_tx_def Let_def sm1_def split: prod.splits)
    have wf1: "sm_wf sm1" and funds: "hm_sum shard_funds (sm_shards sm1) = hm_sum shard_funds (sm_shards sm) - ct_amount tx"
      using set_account_update [OF assms(1) Some] by (simp_all add: sm1_def)
    have rt: "sm_router sm1 = sm_router sm" by (simp add: sm1_def update_shard_def)
    have "hm_wf (pending_txs (sm_router sm1))" using wf1 by (simp add: sm_wf_def)
    note sub = submit_spec [OF this r]
    show ?thesis
      using Some False wf1 sub funds by (auto simp: sm' rt sm_wf_def cross_supply_def cross_balance_def)
  qed
qed

text \<open>
  Sending over the bridge of shards: with a sufficient balance and an unused id the amount moves
  from the sender's account to the pending transfers and the sum of both stays; with too low a
  balance, or an unknown source shard, nothing changes. With an id that is already pending the
  handler reports an error after it has debited the sender: the amount is destroyed.
\<close>
theorem process_cross_supply:
  assumes "sm_wf sm" and "process_cross_chain_tx try_send tx sm = (res, sm')"
  shows "sm_wf sm' \<and>
    (hm_get (sm_shards sm) (ct_source_shard tx) = None \<longrightarrow> res = Ok () \<and> sm' = sm) \<and>
    (hm_get (sm_shards sm) (ct_source_shard tx) \<noteq> None \<longrightarrow>
      (if cross_balance sm (ct_source_shard tx) (ct_sender tx) < ct_amount tx
       then res \<noteq> Ok () \<and> sm' = sm
       else if hm_get (pending_txs (sm_router sm)) (ct_id tx) = None
       then res = Ok () \<and> cross_supply sm' = cross_supply sm
       else res \<noteq> Ok () \<and> cross_supply sm' = cross_supply sm - ct_amount tx))"
  by (rule process_cross_effect [OF assms])

lemma receive_cross_effect:
  assumes "sm_wf sm" and "receive_cross_chain_tx tx sm = (res, sm')"
    and "hm_get (sm_shards sm) (ct_target_shard tx) \<noteq> None"
  shows "sm_wf sm' \<and>
    (case hm_get (pending_txs (sm_router sm)) (ct_id tx) of
       None \<Rightarrow> res = Err ''Transaction not found'' \<and> cross_supply sm' = cross_supply sm + ct_amount tx
     | Some p \<Rightarrow> res = Ok () \<and> cross_supply sm' = cross_supply sm + ct_amount tx - ct_amount p)"
proof -
  obtain sh where sh: "hm_get (sm_shards sm) (ct_target_shard tx) = Some sh" using assms(3) by auto
  let ?s = "shard_account sh (ct_receiver tx)"
  define sm1 where "sm1 = update_shard (ct_target_shard tx)
    (set_shard_account (ct_receiver tx) (?s\<lparr>acc_balance := acc_balance ?s + ct_amount tx\<rparr>) sh) sm"
  obtain r where r: "confirm_tx (ct_id tx) [1] (sm_router sm1) = (res, r)" and sm': "sm' = sm1\<lparr>sm_router := r\<rparr>"
    using assms(2) sh by (auto simp: receive_cross_chain_tx_def Let_def sm1_def split: prod.splits)
  have wf1: "sm_wf sm1" and funds: "hm_sum shard_funds (sm_shards sm1) = hm_sum shard_funds (sm_shards sm) + ct_amount tx"
    using set_account_update [OF assms(1) sh] by (simp_all add: sm1_def)
  have rt: "sm_router sm1 = sm_router sm" by (simp add: sm1_def update_shard_def)
  have "hm_wf (pending_txs (sm_router sm1))" "bt_wf (completed_txs (sm_router sm1))"
    using wf1 by (simp_all add: sm_wf_def)
  note con = confirm_spec [OF this r]
  show ?thesis
    using wf1 con funds by (auto simp: sm' rt sm_wf_def cross_supply_def algebra_simps split: option.split)
qed

text \<open>
  Receiving: the amount of the message is credited to the receiver before the router is asked,
  so the sum of balances and pending transfers stays exactly when a transfer of that amount was
  pending under that id; a message that is not pending (a replay, or an invented one) is answered
  with an error and creates its amount.
\<close>
theorem receive_cross_supply:
  assumes "sm_wf sm" and "receive_cross_chain_tx tx sm = (res, sm')"
    and "hm_get (sm_shards sm) (ct_target_shard tx) \<noteq> None"
  shows "sm_wf sm' \<and>
    (case hm_get (pending_txs (sm_router sm)) (ct_id tx) of
       None \<Rightarrow> res = Err ''Transaction not found'' \<and> cross_supply sm' = cross_supply sm + ct_amount tx
     | Some p \<Rightarrow> res = Ok () \<and> cross_supply sm' = cross_supply sm + ct_amount tx - ct_amount p)"
  by (rule receive_cross_effect [OF assms])

subsection \<open>Interleavings\<close>

text \<open>
  The steps of a running system: a client sends with an id that is not pending, a shard receives a
  message that the router holds as pending (as its channel delivers it), a transaction is routed.
  Any number of them run in any order.
\<close>

inductive cross_step ::
    "ext \<Rightarrow> (address \<Rightarrow> hash) \<Rightarrow> ('ch \<Rightarrow> cross_tx \<Rightarrow> 'ch) \<Rightarrow> 'ch shard_manager \<Rightarrow> 'ch shard_manager \<Rightarrow> bool"
  for E addr_hash try_send where
  send: "hm_get (pending_txs (sm_router sm)) (ct_id tx) = None \<Longrightarrow>
    process_cross_chain_tx try_send tx sm = (res, sm') \<Longrightarrow> cross_step E addr_hash try_send sm sm'"
| deliver: "hm_get (pending_txs (sm_router sm)) (ct_id tx) = Some tx \<Longrightarrow>
    receive_cross_chain_tx tx sm = (res, sm') \<Longrightarrow> cross_step E addr_hash try_send sm sm'"
| route: "route_transaction E addr_hash tx sm = Some (rres, sm') \<Longrightarrow> cross_step E addr_hash try_send sm sm'"

inductive cross_reach ::
    "ext \<Rightarrow> (address \<Rightarrow> hash) \<Rightarrow> ('ch \<Rightarrow> cross_tx \<Rightarrow> 'ch) \<Rightarrow> 'ch shard_manager \<Rightarrow> 'ch shard_manager \<Rightarrow> bool"
  for E addr_hash try_send sm0 where
  start: "cross_reach E addr_hash try_send sm0 sm0"
| more: "cross_reach E addr_hash try_send sm0 sm \<Longrightarrow> cross_step E addr_hash try_send sm sm' \<Longrightarrow>
    cross_reach E addr_hash try_send sm0 sm'"

inductive_cases cross_stepE: "cross_step E addr_hash try_send sm sm'"

lemma process_supply_fresh:
  assumes "sm_wf sm" and "hm_get (pending_txs (sm_router sm)) (ct_id tx) = None"
    and "process_cross_chain_tx try_send tx sm = (res, sm')"
  shows "sm_wf sm' \<and> cross_supply sm' = cross_supply sm"
  using process_cross_effect [OF assms(1,3)] assms(2) by (auto split: if_splits)

lemma receive_unknown_shard:
  "hm_get (sm_shards sm) (ct_target_shard tx) = None \<Longrightarrow> receive_cross_chain_tx tx sm = (Ok (), sm)"
  by (simp add: receive_cross_chain_tx_def)

lemma receive_supply_pending:
  assumes "sm_wf sm" and "hm_get (pending_txs (sm_router sm)) (ct_id tx) = Some tx"
    and "receive_cross_chain_tx tx sm = (res, sm')"
  shows "sm_wf sm' \<and> cross_supply sm' = cross_supply sm"
proof (cases "hm_get (sm_shards sm) (ct_target_shard tx)")
  case None
  with assms show ?thesis by (simp add: receive_unknown_shard)
next
  case (Some sh)
  then show ?thesis using receive_cross_effect [OF assms(1,3)] assms(2) by simp
qed

lemma route_cases:
  assumes "route_transaction E addr_hash tx sm = Some (res, sm')"
  obtains (same) "sm' = sm"
  | (added) i sh mp where "pick_shard addr_hash (sm_config sm) tx = Some i" "hm_get (sm_shards sm) i = Some sh"
      "add_transaction E tx (hs_mempool (sh_consensus sh)) = Ok mp" "res = Ok i"
      "sm' = update_shard i (sh\<lparr>sh_consensus := (sh_consensus sh)\<lparr>hs_mempool := mp\<rparr>\<rparr>) sm"
proof (cases "pick_shard addr_hash (sm_config sm) tx")
  case None
  with assms show ?thesis by (simp add: route_transaction_def)
next
  case i: (Some i)
  show ?thesis
  proof (cases "hm_get (sm_shards sm) i")
    case None
    with assms i show ?thesis by (intro same) (simp_all add: route_transaction_def)
  next
    case sh: (Some sh)
    show ?thesis
    proof (cases "add_transaction E tx (hs_mempool (sh_consensus sh))")
      case (Inl e)
      with assms i sh show ?thesis by (intro same) (simp_all add: route_transaction_def)
    next
      case (Inr mp)
      with assms i sh show ?thesis by (intro added) (auto simp: route_transaction_def)
    qed
  qed
qed

lemma route_supply:
  assumes "sm_wf sm" and "route_transaction E addr_hash tx sm = Some (res, sm')"
  shows "sm_wf sm' \<and> cross_supply sm' = cross_supply sm"
  using assms(2)
proof (cases rule: route_cases)
  case (added i sh mp)
  have wf: "hm_wf (sm_shards sm)" using assms(1) by (simp add: sm_wf_def)
  have "hm_wf (ss_accounts (sh_state sh))" using assms(1) added(2) by (simp add: sm_wf_def)
  then show ?thesis
    using assms(1) update_funds [OF wf added(2)]
    by (simp add: added(5) cross_supply_def shard_funds_def)
      (simp add: sm_wf_def update_shard_def)
qed (use assms in simp)

lemma step_supply:
  "cross_step E addr_hash try_send sm sm' \<Longrightarrow> sm_wf sm \<Longrightarrow> sm_wf sm' \<and> cross_supply sm' = cross_supply sm"
  by (elim cross_stepE) (blast dest: process_supply_fresh receive_supply_pending route_supply)+

text \<open>
  No interleaving of sends with fresh ids, deliveries of pending messages and routed
  transactions creates or destroys money: in every reachable state the balances of all shards and
  the amounts in transit add up to what they added up to at the start (modulo \<open>2^128\<close>).
\<close>
theorem cross_supply_invariant:
  assumes "cross_reach E addr_hash try_send sm0 sm" and "sm_wf sm0"
  shows "sm_wf sm \<and> cross_supply sm = cross_supply sm0"
  using assms(1)
proof induction
  case start
  show ?case using assms(2) by simp
next
  case (more sm sm')
  then show ?case using step_supply by metis
qed

subsection \<open>One transfer from end to end\<close>

lemma account_set [simp]:
  "shard_account (set_shard_account a acc sh) b = (if b = a then acc else shard_account sh b)"
  by (simp add: shard_account_def set_shard_account_def)

lemma process_success:
  assumes "sm_wf sm" and "hm_get (sm_shards sm) (ct_source_shard tx) = Some sh"
    and "ct_amount tx \<le> cross_balance sm (ct_source_shard tx) (ct_sender tx)"
    and "hm_get (pending_txs (sm_router sm)) (ct_id tx) = None"
    and "process_cross_chain_tx try_send tx sm = (res, sm')"
  shows "res = Ok ()"
    and "hm_get (pending_txs (sm_router sm')) = (hm_get (pending_txs (sm_router sm)))(ct_id tx \<mapsto> tx\<lparr>ct_status := SourceConfirmed\<rparr>)"
    and "hm_get (sm_shards sm') = (hm_get (sm_shards sm))(ct_source_shard tx \<mapsto>
      set_shard_account (ct_sender tx) ((shard_account sh (ct_sender tx))\<lparr>acc_balance :=
        acc_balance (shard_account sh (ct_sender tx)) - ct_amount tx\<rparr>) sh)"
proof -
  have nl: "\<not> acc_balance (shard_account sh (ct_sender tx)) < ct_amount tx"
    using assms(2,3) by (simp add: cross_balance_def not_less)
  obtain r where r: "submit_cross_tx try_send (tx\<lparr>ct_status := SourceConfirmed\<rparr>) (sm_router sm) = (res, r)"
    and sm': "sm_router sm' = r" and sh': "sm_shards sm' = hm_insert (ct_source_shard tx)
      (set_shard_account (ct_sender tx) ((shard_account sh (ct_sender tx))\<lparr>acc_balance :=
        acc_balance (shard_account sh (ct_sender tx)) - ct_amount tx\<rparr>) sh) (sm_shards sm)"
    using assms(2,5) nl
    by (auto simp: process_cross_chain_tx_def Let_def update_shard_def split: prod.splits)
  have "hm_wf (pending_txs (sm_router sm))" using assms(1) by (simp add: sm_wf_def)
  note sub = submit_spec [OF this r]
  show "res = Ok ()"
    and "hm_get (pending_txs (sm_router sm')) = (hm_get (pending_txs (sm_router sm)))(ct_id tx \<mapsto> tx\<lparr>ct_status := SourceConfirmed\<rparr>)"
    using sub(3,4) assms(4) by (simp_all add: sm')
  show "hm_get (sm_shards sm') = (hm_get (sm_shards sm))(ct_source_shard tx \<mapsto>
      set_shard_account (ct_sender tx) ((shard_account sh (ct_sender tx))\<lparr>acc_balance :=
        acc_balance (shard_account sh (ct_sender tx)) - ct_amount tx\<rparr>) sh)"
    by (simp add: sh')
qed

lemma receive_balance:
  assumes "hm_get (sm_shards sm) (ct_target_shard tx) = Some sh"
    and "receive_cross_chain_tx tx sm = (res, sm')"
  shows "cross_balance sm' i a = cross_balance sm i a +
    (if i = ct_target_shard tx \<and> a = ct_receiver tx then ct_amount tx else 0)"
    and "res = (if hm_get (pending_txs (sm_router sm)) (ct_id tx) = None then Err ''Transaction not found'' else Ok ())"
    and "hm_get (pending_txs (sm_router sm')) (ct_id tx) = None"
    and "hm_get (sm_shards sm') (ct_target_shard tx) \<noteq> None"
proof -
  let ?acc = "(shard_account sh (ct_receiver tx))\<lparr>acc_balance :=
    acc_balance (shard_account sh (ct_receiver tx)) + ct_amount tx\<rparr>"
  let ?sm1 = "update_shard (ct_target_shard tx) (set_shard_account (ct_receiver tx) ?acc sh) sm"
  obtain r where r: "confirm_tx (ct_id tx) [1] (sm_router sm) = (res, r)" and sm': "sm' = ?sm1\<lparr>sm_router := r\<rparr>"
    using assms by (auto simp: receive_cross_chain_tx_def Let_def update_shard_def split: prod.splits)
  have sh': "hm_get (sm_shards sm') = (hm_get (sm_shards sm))
      (ct_target_shard tx \<mapsto> set_shard_account (ct_receiver tx) ?acc sh)"
    by (simp add: sm' update_shard_def)
  show "cross_balance sm' i a = cross_balance sm i a +
      (if i = ct_target_shard tx \<and> a = ct_receiver tx then ct_amount tx else 0)"
    using assms(1) by (simp add: cross_balance_def sh')
  show "hm_get (sm_shards sm') (ct_target_shard tx) \<noteq> None" by (simp add: sh')
  show "res = (if hm_get (pending_txs (sm_router sm)) (ct_id tx) = None then Err ''Transaction not found'' else Ok ())"
    and "hm_get (pending_txs (sm_router sm')) (ct_id tx) = None"
    using r by (auto simp: sm' confirm_tx_def Let_def split: option.splits)
qed

text \<open>
  A transfer between two shards that is sent with a fresh id and then delivered: both handlers
  succeed, the sender's balance falls and the receiver's grows by exactly the amount, every other
  balance of every shard stays, and the transfer is no longer pending.
\<close>
theorem cross_transfer_end_to_end:
  assumes "sm_wf sm" and "hm_get (sm_shards sm) (ct_source_shard tx) \<noteq> None"
    and "hm_get (sm_shards sm) (ct_target_shard tx) \<noteq> None" and "ct_source_shard tx \<noteq> ct_target_shard tx"
    and "ct_amount tx \<le> cross_balance sm (ct_source_shard tx) (ct_sender tx)"
    and "hm_get (pending_txs (sm_router sm)) (ct_id tx) = None"
    and "process_cross_chain_tx try_send tx sm = (res1, sm1)"
    and "receive_cross_chain_tx (tx\<lparr>ct_status := SourceConfirmed\<rparr>) sm1 = (res2, sm2)"
  shows "res1 = Ok () \<and> res2 = Ok () \<and> hm_get (pending_txs (sm_router sm2)) (ct_id tx) = None \<and>
    (\<forall>i a. cross_balance sm2 i a =
       (if i = ct_source_shard tx \<and> a = ct_sender tx then cross_balance sm i a - ct_amount tx
        else if i = ct_target_shard tx \<and> a = ct_receiver tx then cross_balance sm i a + ct_amount tx
        else cross_balance sm i a))"
proof -
  obtain sh where sh: "hm_get (sm_shards sm) (ct_source_shard tx) = Some sh" using assms(2) by auto
  note p = process_success [OF assms(1) sh assms(5,6,7)]
  obtain sh2 where sh2: "hm_get (sm_shards sm1) (ct_target_shard tx) = Some sh2"
    using assms(3,4) p(3) by auto
  have bal: "cross_balance sm1 i a = (if i = ct_source_shard tx \<and> a = ct_sender tx
      then cross_balance sm i a - ct_amount tx else cross_balance sm i a)" for i a
    using p(3) sh by (auto simp: cross_balance_def)
  note q = receive_balance [of sm1 "tx\<lparr>ct_status := SourceConfirmed\<rparr>", simplified, OF sh2 assms(8)]
  show ?thesis using p(1,2) q assms(4) bal by auto
qed

text \<open>
  A delivery that is repeated credits the receiver again: the second call reports an unknown
  transaction, but has already added the amount.
\<close>
theorem receive_replay_mints:
  assumes "hm_get (sm_shards sm) (ct_target_shard tx) \<noteq> None"
    and "receive_cross_chain_tx tx sm = (res1, sm1)" and "receive_cross_chain_tx tx sm1 = (res2, sm2)"
  shows "res2 = Err ''Transaction not found'' \<and>
    cross_balance sm2 (ct_target_shard tx) (ct_receiver tx) =
      cross_balance sm (ct_target_shard tx) (ct_receiver tx) + 2 * ct_amount tx"
proof -
  obtain sh where sh: "hm_get (sm_shards sm) (ct_target_shard tx) = Some sh" using assms(1) by auto
  note a = receive_balance [OF sh assms(2)]
  obtain sh1 where sh1: "hm_get (sm_shards sm1) (ct_target_shard tx) = Some sh1" using a(4) by auto
  note b = receive_balance [OF sh1 assms(3)]
  show ?thesis using a(1,3) b(1,2) by simp
qed

text \<open>
  The completed transfers are keyed by their timestamp: confirming two pending transfers of the
  same millisecond records one of them, and the reported count grows by at most one.
\<close>
theorem completed_same_timestamp:
  assumes "bt_wf (completed_txs r)" and "hm_wf (pending_txs r)"
    and "hm_get (pending_txs r) i = Some t" and "hm_get (pending_txs r) j = Some u" and "i \<noteq> j"
    and "ct_timestamp t = ct_timestamp u"
    and "confirm_tx i p r = (res1, r1)" and "confirm_tx j q r1 = (res2, r2)"
  shows "res1 = Ok () \<and> res2 = Ok () \<and> bt_get (completed_txs r2) (ct_timestamp t) = Some j \<and>
    completed_count (router_stats r2) \<le> completed_count (router_stats r) + 1 \<and>
    pending_count (router_stats r2) = pending_count (router_stats r) - 2"
proof -
  note a = confirm_spec [OF assms(2,1,7)]
  note b = confirm_spec [OF a(1,2) assms(8)]
  have l1: "length (pending_txs r1) = length (pending_txs r) - 1"
    using assms(2,3,7) by (auto simp: confirm_tx_def Let_def hm.length_ins hm.length_rem)
  have j1: "hm_get (pending_txs r1) j = Some u" using a(4) assms(4,5) by simp
  have l2: "length (pending_txs r2) = length (pending_txs r1) - 1"
    using a(1) j1 assms(8) by (auto simp: confirm_tx_def Let_def hm.length_ins hm.length_rem)
  have c1: "length (completed_txs r1) \<le> length (completed_txs r) + 1"
    using assms(1,3,7) by (auto simp: confirm_tx_def Let_def bt.length_ins)
  have "bt_get (completed_txs r1) (ct_timestamp t) = Some i"
    using a(5) assms(3) by simp
  then have c2: "length (completed_txs r2) = length (completed_txs r1)"
    using a(2) j1 assms(6,8) by (auto simp: confirm_tx_def Let_def bt.length_ins)
  show ?thesis
    using a(3) b(3,5) assms(3,6) j1 l1 l2 c1 c2 by (simp add: router_stats_def)
qed

subsection \<open>Initialisation and routing\<close>

lemma fold_init_get:
  "hm_get (fold (\<lambda>i m. let k = word_of_nat i in hm_insert k (f k) m) [0 ..< n] m0) k =
    (if unat k < n then Some (f k) else hm_get m0 k)"
  if "n \<le> 2 ^ 16" for k :: u16
  using that
proof (induction n)
  case (Suc n)
  have "k = word_of_nat n \<longleftrightarrow> unat k = n"
    using Suc.prems by (auto simp: unat_of_nat)
  moreover have "unat k < Suc n \<longleftrightarrow> unat k < n \<or> unat k = n" by auto
  ultimately show ?case using Suc by (auto simp: Let_def)
qed simp

lemma fold_init_wf:
  "hm_wf m0 \<Longrightarrow> hm_wf (fold (\<lambda>i m. let k = g i in hm_insert k (f k) m) xs m0)"
  by (induction xs arbitrary: m0) (simp_all add: Let_def)

lemma init_get:
  "hm_get (sm_shards (initialize_shards E shuffle vs sm)) k =
    (if k < cfg_shard_count (sm_config sm) then Some (init_shard E shuffle (sm_config sm) vs k)
     else hm_get (sm_shards sm) k)"
proof -
  have "unat (cfg_shard_count (sm_config sm)) < 2 ^ LENGTH(16)" by (rule unsigned_less)
  then have "unat (cfg_shard_count (sm_config sm)) \<le> 2 ^ 16" by simp
  then show ?thesis
    by (simp add: initialize_shards_def fold_init_get word_less_nat_alt)
qed

lemma init_new:
  fixes E shuffle config and vs :: validator_set
  defines "sm \<equiv> initialize_shards E shuffle vs (shard_manager_new config router_new)"
  shows "hm_get (sm_shards sm) k = (if k < cfg_shard_count config then Some (init_shard E shuffle config vs k) else None)"
    and "sm_router sm = router_new" and "sm_config sm = config" and "sm_wf sm" and "cross_supply sm = 0"
proof -
  show get: "hm_get (sm_shards sm) k = (if k < cfg_shard_count config
      then Some (init_shard E shuffle config vs k) else None)" for k
    by (simp add: sm_def init_get shard_manager_new_def)
  have wf: "hm_wf (sm_shards sm)"
    by (simp add: sm_def initialize_shards_def shard_manager_new_def fold_init_wf)
  show rt: "sm_router sm = router_new" and "sm_config sm = config"
    by (simp_all add: sm_def initialize_shards_def shard_manager_new_def)
  show "sm_wf sm" using wf by (auto simp: sm_wf_def get rt router_new_def init_shard_def split: if_splits)
  have "shard_funds (the (hm_get (sm_shards sm) k)) = 0" if "k \<in> dom (hm_get (sm_shards sm))" for k
    using that by (auto simp: get shard_funds_def init_shard_def hm_sum_def split: if_splits)
  then have "hm_sum shard_funds (sm_shards sm) = 0" by (simp add: hm_sum_total hm.total_dom [OF wf])
  then show "cross_supply sm = 0" by (simp add: cross_supply_def rt router_new_def hm_sum_def)
qed

text \<open>
  Initialising a new manager creates exactly the shards \<open>0\<close> to \<open>shard_count - 1\<close>, each with no
  money, an empty mempool, height 0 and a committee of \<open>min 16 size\<close> distinct validators of the
  set (for a shuffle that permutes); the manager is well formed and holds no money.
\<close>
theorem initialize_shards_spec:
  assumes "vs_wf vs" and "\<And>seed xs. mset (shuffle seed xs) = mset xs"
    and "sm = initialize_shards E shuffle vs (shard_manager_new config router_new)"
  shows "dom (hm_get (sm_shards sm)) = {i. i < cfg_shard_count config} \<and> sm_wf sm \<and> cross_supply sm = 0 \<and>
    (\<forall>i info. get_shard_info sm i = Some info \<longrightarrow>
       si_shard_id info = i \<and> si_block_height info = 0 \<and> si_mempool_size info = 0 \<and>
       si_validator_count info = min 16 (validator_count vs)) \<and>
    (\<forall>i sh. hm_get (sm_shards sm) i = Some sh \<longrightarrow>
       distinct (sh_validators sh) \<and> set (sh_validators sh) \<subseteq> dom (get_validator vs))"
  unfolding assms(3) using random_committee_facts [OF assms(1,2)] init_new(4,5)
  by (auto simp: init_new(1) get_shard_info_def info_of_def init_shard_def mempool_size_def get_mempool_def
      hotstuff_new_def mempool_new_def split: if_splits)

text \<open>
  Routing on an initialised manager with at least one shard always answers: it names a shard
  below \<open>shard_count\<close> (the one the transaction asks for, if that is a positive valid id), adds the
  transaction to the mempool of that shard only, and otherwise reports that mempool's error and
  changes nothing. With \<open>shard_count = 0\<close> the division by zero panics.
\<close>
theorem route_transaction_spec:
  assumes "dom (hm_get (sm_shards sm)) = {i. i < cfg_shard_count (sm_config sm)}"
  shows "case route_transaction E addr_hash tx sm of
      None \<Rightarrow> cfg_shard_count (sm_config sm) = 0
    | Some (Err e, sm') \<Rightarrow> sm' = sm \<and> cfg_shard_count (sm_config sm) \<noteq> 0 \<and> e = ''Mempool full''
    | Some (Ok i, sm') \<Rightarrow> i < cfg_shard_count (sm_config sm) \<and>
        (0 < tx_shard_id tx \<and> tx_shard_id tx < cfg_shard_count (sm_config sm) \<longrightarrow> i = tx_shard_id tx) \<and>
        (\<forall>j. j \<noteq> i \<longrightarrow> hm_get (sm_shards sm') j = hm_get (sm_shards sm) j) \<and>
        (\<exists>sh sh'. hm_get (sm_shards sm) i = Some sh \<and> hm_get (sm_shards sm') i = Some sh' \<and>
           add_transaction E tx (hs_mempool (sh_consensus sh)) = Ok (hs_mempool (sh_consensus sh')) \<and>
           sh_state sh' = sh_state sh)"
proof (cases "pick_shard addr_hash (sm_config sm) tx")
  case None
  then show ?thesis by (auto simp: route_transaction_def pick_shard_def Let_def split: if_splits)
next
  case (Some i)
  have nz: "cfg_shard_count (sm_config sm) \<noteq> 0" and i: "i < cfg_shard_count (sm_config sm)"
    and want: "0 < tx_shard_id tx \<and> tx_shard_id tx < cfg_shard_count (sm_config sm) \<longrightarrow> i = tx_shard_id tx"
    using Some by (auto simp: pick_shard_def Let_def word_gt_0 word_mod_less_divisor split: if_splits)
  then obtain sh where sh: "hm_get (sm_shards sm) i = Some sh" using assms by blast
  show ?thesis
  proof (cases "add_transaction E tx (hs_mempool (sh_consensus sh))")
    case (Inl e)
    then have "e = ''Mempool full''" by (auto simp: add_transaction_def Let_def split: if_splits)
    then show ?thesis using Some sh Inl nz by (simp add: route_transaction_def)
  next
    case (Inr mp)
    then show ?thesis using Some sh nz i want by (simp add: route_transaction_def update_shard_def)
  qed
qed

subsection \<open>Instances\<close>

text \<open>Two shards; \<open>Address [1]\<close> holds 100 on shard 0. A transfer of 30 to shard 1.\<close>

definition sample_config :: chain_config where
  "sample_config = chain_config_default\<lparr>cfg_shard_count := 2\<rparr>"

definition sample_shard :: "u16 \<Rightarrow> shard" where
  "sample_shard i = init_shard sample_ext (\<lambda>seed xs. xs) sample_config (sample_set [1, 2] 5) i"

definition sample_manager :: "cross_tx list shard_manager" where
  "sample_manager = (shard_manager_new sample_config router_new)\<lparr>sm_shards :=
     [(0, set_shard_account (Address [1]) (account_default\<lparr>acc_balance := 100\<rparr>) (sample_shard 0)),
      (1, sample_shard 1)]\<rparr>"

definition sample_cross :: "u8 \<Rightarrow> cross_tx" where
  "sample_cross i = \<lparr>ct_id = Hash [i], ct_source_shard = 0, ct_target_shard = 1, ct_sender = Address [1],
     ct_receiver = Address [2], ct_amount = 30, ct_nonce = 0, ct_status = Pending, ct_proof = None,
     ct_timestamp = 7\<rparr>"

lemma sample_manager_get:
  "hm_get (sm_shards sample_manager) 0 =
     Some (set_shard_account (Address [1]) (account_default\<lparr>acc_balance := 100\<rparr>) (sample_shard 0))"
  "hm_get (sm_shards sample_manager) 1 = Some (sample_shard 1)"
  "sm_router sample_manager = router_new" "sm_config sample_manager = sample_config"
  by (simp_all add: sample_manager_def hm_get_def shard_manager_new_def)

lemma sample_manager_dom: "dom (hm_get (sm_shards sample_manager)) = {0, 1}"
  by (auto simp: sample_manager_def hm_get_def shard_manager_new_def split: if_splits)

lemma sample_accounts: "ss_accounts (sh_state (sample_shard i)) = []"
  by (simp add: sample_shard_def init_shard_def)

lemma sample_manager_wf: "sm_wf sample_manager"
  by (auto simp: sm_wf_def sample_manager_def hm_defs shard_manager_new_def router_new_def
      set_shard_account_def sample_accounts split: if_splits)

lemma sample_cross_simps [simp]:
  "ct_id (sample_cross i) = Hash [i]" "ct_source_shard (sample_cross i) = 0"
  "ct_target_shard (sample_cross i) = 1" "ct_sender (sample_cross i) = Address [1]"
  "ct_receiver (sample_cross i) = Address [2]" "ct_amount (sample_cross i) = 30"
  "ct_timestamp (sample_cross i) = 7"
  by (simp_all add: sample_cross_def)

lemma sample_balances:
  "cross_balance sample_manager 0 (Address [1]) = 100" "cross_balance sample_manager 1 (Address [2]) = 0"
  by (simp_all add: cross_balance_def sample_manager_get) (simp add: shard_account_def sample_accounts)

lemma sample_no_pending:
  "hm_get (pending_txs (sm_router sample_manager)) h = None" "hm_get (pending_txs router_new) h = None"
  by (simp_all add: sample_manager_get router_new_def)

theorem process_cross_supply_witness:
  "fst (process_cross_chain_tx (\<lambda>ch tx. ch @ [tx]) (sample_cross 1) sample_manager) = Ok () \<and>
   cross_supply (snd (process_cross_chain_tx (\<lambda>ch tx. ch @ [tx]) (sample_cross 1) sample_manager)) =
     cross_supply sample_manager"
  using process_cross_supply [OF sample_manager_wf surjective_pairing, of "\<lambda>ch tx. ch @ [tx]" "sample_cross 1"]
  by (simp add: sample_balances sample_no_pending sample_manager_get)

theorem receive_cross_supply_witness:
  "cross_supply (snd (receive_cross_chain_tx (sample_cross 1) sample_manager)) = cross_supply sample_manager + 30"
  using receive_cross_supply [OF sample_manager_wf surjective_pairing, of "sample_cross 1"]
  by (simp add: sample_no_pending sample_manager_get)

theorem cross_supply_invariant_witness:
  "\<exists>sm. cross_reach sample_ext (\<lambda>a. Hash [0, 0]) (\<lambda>ch tx. ch @ [tx]) sample_manager sm \<and> sm \<noteq> sample_manager \<and>
     cross_supply sm = cross_supply sample_manager"
proof -
  let ?send = "\<lambda>ch tx. ch @ [tx]"
  obtain res sm where p: "process_cross_chain_tx ?send (sample_cross 1) sample_manager = (res, sm)"
    by fastforce
  have r: "cross_reach sample_ext (\<lambda>a. Hash [0, 0]) ?send sample_manager sm"
    by (rule cross_reach.more [OF cross_reach.start cross_step.send [OF _ p]]) (simp add: sample_no_pending)
  have "hm_get (pending_txs (sm_router sm)) (Hash [1]) \<noteq> None"
    using process_success(2) [OF sample_manager_wf _ _ _ p] sample_balances
    by (simp add: sample_manager_get sample_no_pending)
  then have "sm \<noteq> sample_manager" using sample_no_pending by metis
  with cross_supply_invariant [OF r sample_manager_wf] r show ?thesis by blast
qed

theorem cross_transfer_end_to_end_witness:
  "\<exists>res1 sm1 res2 sm2.
     process_cross_chain_tx (\<lambda>ch tx. ch @ [tx]) (sample_cross 1) sample_manager = (res1, sm1) \<and>
     receive_cross_chain_tx ((sample_cross 1)\<lparr>ct_status := SourceConfirmed\<rparr>) sm1 = (res2, sm2) \<and>
     cross_balance sm2 0 (Address [1]) = 70 \<and> cross_balance sm2 1 (Address [2]) = 30"
proof -
  obtain res1 sm1 where p: "process_cross_chain_tx (\<lambda>ch tx. ch @ [tx]) (sample_cross 1) sample_manager = (res1, sm1)"
    by fastforce
  obtain res2 sm2 where q: "receive_cross_chain_tx ((sample_cross 1)\<lparr>ct_status := SourceConfirmed\<rparr>) sm1 = (res2, sm2)"
    by fastforce
  show ?thesis
    using cross_transfer_end_to_end [OF sample_manager_wf _ _ _ _ _ p q] p q
    by (simp add: sample_manager_get sample_no_pending sample_balances)
qed

theorem receive_replay_mints_witness:
  "\<exists>res1 sm1 res2 sm2. receive_cross_chain_tx (sample_cross 1) sample_manager = (res1, sm1) \<and>
     receive_cross_chain_tx (sample_cross 1) sm1 = (res2, sm2) \<and>
     cross_balance sm2 1 (Address [2]) = 60"
proof -
  obtain res1 sm1 where p: "receive_cross_chain_tx (sample_cross 1) sample_manager = (res1, sm1)" by fastforce
  obtain res2 sm2 where q: "receive_cross_chain_tx (sample_cross 1) sm1 = (res2, sm2)" by fastforce
  show ?thesis
    using receive_replay_mints [OF _ p q] p q by (simp add: sample_manager_get sample_balances)
qed

theorem completed_same_timestamp_witness:
  "\<exists>res1 r1 res2 r2. confirm_tx (Hash [1]) [1]
       (router_new\<lparr>pending_txs := [(Hash [1], sample_cross 1), (Hash [2], sample_cross 2)]\<rparr> :: unit router) = (res1, r1) \<and>
     confirm_tx (Hash [2]) [1] r1 = (res2, r2) \<and> completed_count (router_stats r2) \<le> 1 \<and>
     pending_count (router_stats r2) = 0"
proof -
  let ?r = "router_new\<lparr>pending_txs := [(Hash [1], sample_cross 1), (Hash [2], sample_cross 2)]\<rparr> :: unit router"
  obtain res1 r1 where p: "confirm_tx (Hash [1]) [1] ?r = (res1, r1)" by fastforce
  obtain res2 r2 where q: "confirm_tx (Hash [2]) [1] r1 = (res2, r2)" by fastforce
  have "completed_count (router_stats r2) \<le> completed_count (router_stats ?r) + 1 \<and>
      pending_count (router_stats r2) = pending_count (router_stats ?r) - 2"
    using completed_same_timestamp [of ?r "Hash [1]" "sample_cross 1" "Hash [2]" "sample_cross 2", OF _ _ _ _ _ _ p q]
    by (simp add: router_new_def hm_defs)
  with p q show ?thesis by (simp add: router_stats_def router_new_def)
qed

theorem initialize_shards_spec_witness:
  "dom (hm_get (sm_shards (initialize_shards sample_ext (\<lambda>seed xs. xs) (sample_set [1, 2] 5)
     (shard_manager_new sample_config router_new :: unit shard_manager)))) = {i. i < 2}"
  using initialize_shards_spec [OF vs_wf_sample, of "\<lambda>seed xs. xs" "initialize_shards sample_ext (\<lambda>seed xs. xs)
      (sample_set [1, 2] 5) (shard_manager_new sample_config router_new :: unit shard_manager)" sample_ext "[1, 2]" 5 sample_config]
  by (simp add: sample_config_def)

theorem route_transaction_spec_witness:
  "\<exists>sm'. route_transaction sample_ext (\<lambda>a. Hash [0, 0]) ((sample_tx 1 0 None 5 1)\<lparr>tx_shard_id := 1\<rparr>) sample_manager =
     Some (Ok 1, sm')"
proof -
  let ?tx = "(sample_tx 1 0 None 5 1)\<lparr>tx_shard_id := 1\<rparr>"
  have "\<exists>mp. add_transaction sample_ext ?tx (hs_mempool (sh_consensus (sample_shard 1))) = Ok mp"
    by (simp add: add_transaction_def sample_shard_def init_shard_def hotstuff_new_def mempool_new_def Let_def)
  then obtain res sm' where r: "route_transaction sample_ext (\<lambda>a. Hash [0, 0]) ?tx sample_manager = Some (Ok res, sm')"
    by (auto simp: route_transaction_def pick_shard_def sample_manager_get sample_config_def)
  have "i = 0 \<or> i = 1" if "i < 2" for i :: u16
    using that by (simp add: word_less_nat_alt word_unat_eq_iff) arith
  then have "{i :: u16. i < 2} = {0, 1}" by auto
  then have "dom (hm_get (sm_shards sample_manager)) = {i. i < cfg_shard_count (sm_config sample_manager)}"
    by (simp add: sample_manager_dom sample_manager_get sample_config_def)
  from route_transaction_spec [OF this, where E = sample_ext and addr_hash = "\<lambda>a. Hash [0, 0]" and tx = ?tx]
  have "res = 1" by (simp add: r sample_manager_get sample_config_def)
  with r show ?thesis by blast
qed

end
