(* ===== verification/F64.thy ===== *)
theory F64
  imports Complex_Main Prelude
begin

text \<open>
  The part of Rust's \<^verbatim>\<open>f64\<close> that the load estimates of \<^verbatim>\<open>src/src/multichain/mod.rs\<close> use: binary64 values
  without sign (no operation there yields a negative number), with a 53-bit significand, exponents from
  \<open>-1074\<close> to \<open>971\<close>, rounding to nearest with ties to even, overflow to infinity and not-a-number.

  The theory shows that rounding is monotone and leaves representable numbers alone: with these two
  facts comparisons of rounded results are decided without computing a single significand.
\<close>

subsection \<open>Values and operations\<close>

datatype f64 = Finite rat | Infinity | NotANumber

definition min_exp :: int where "min_exp = -1074"
definition max_exp :: int where "max_exp = 971"

definition exponent :: "rat \<Rightarrow> int option" where
  "exponent r = find (\<lambda>e. r < 2 powi (e + 53)) [min_exp .. max_exp]"

definition round_even :: "rat \<Rightarrow> int" where
  "round_even q =
     (let n = \<lfloor>q\<rfloor>; d = q - of_int n
      in if d < 1 / 2 \<or> d = 1 / 2 \<and> even n then n else n + 1)"

definition round_f64 :: "rat \<Rightarrow> f64" where
  "round_f64 r =
     (case exponent r of
        None \<Rightarrow> Infinity
      | Some e \<Rightarrow>
          let m = round_even (r / 2 powi e)
          in if e = max_exp \<and> m = 2 ^ 53 then Infinity else Finite (of_int m * 2 powi e))"

abbreviation f64_of_nat :: "nat \<Rightarrow> f64" where "f64_of_nat n \<equiv> round_f64 (of_nat n)"

fun f64_add :: "f64 \<Rightarrow> f64 \<Rightarrow> f64" where
  "f64_add (Finite a) (Finite b) = round_f64 (a + b)"
| "f64_add NotANumber b = NotANumber"
| "f64_add a NotANumber = NotANumber"
| "f64_add a b = Infinity"

fun f64_mul :: "f64 \<Rightarrow> f64 \<Rightarrow> f64" where
  "f64_mul (Finite a) (Finite b) = round_f64 (a * b)"
| "f64_mul NotANumber b = NotANumber"
| "f64_mul a NotANumber = NotANumber"
| "f64_mul (Finite a) Infinity = (if a = 0 then NotANumber else Infinity)"
| "f64_mul Infinity (Finite b) = (if b = 0 then NotANumber else Infinity)"
| "f64_mul Infinity Infinity = Infinity"

fun f64_div :: "f64 \<Rightarrow> f64 \<Rightarrow> f64" where
  "f64_div (Finite a) (Finite b) =
     (if b = 0 then if a = 0 then NotANumber else Infinity else round_f64 (a / b))"
| "f64_div NotANumber b = NotANumber"
| "f64_div a NotANumber = NotANumber"
| "f64_div (Finite a) Infinity = Finite 0"
| "f64_div Infinity (Finite b) = Infinity"
| "f64_div Infinity Infinity = NotANumber"

fun f64_less :: "f64 \<Rightarrow> f64 \<Rightarrow> bool" where
  "f64_less (Finite a) (Finite b) \<longleftrightarrow> a < b"
| "f64_less (Finite a) Infinity \<longleftrightarrow> True"
| "f64_less a b \<longleftrightarrow> False"

text \<open>The order that rounding preserves.\<close>

fun f64_le :: "f64 \<Rightarrow> f64 \<Rightarrow> bool" where
  "f64_le (Finite a) (Finite b) \<longleftrightarrow> a \<le> b"
| "f64_le (Finite a) Infinity \<longleftrightarrow> True"
| "f64_le Infinity Infinity \<longleftrightarrow> True"
| "f64_le a b \<longleftrightarrow> False"

subsection \<open>Rounding to an integer\<close>

lemma round_even_near:
  "of_int (round_even q) - q \<le> 1 / 2" "q - of_int (round_even q) \<le> 1 / 2"
proof -
  define n where "n = \<lfloor>q\<rfloor>"
  have "of_int n \<le> q" "q < of_int n + 1" unfolding n_def by (simp, linarith)
  then show "of_int (round_even q) - q \<le> 1 / 2" "q - of_int (round_even q) \<le> 1 / 2"
    by (auto simp: round_even_def Let_def simp flip: n_def)
qed

lemma round_even_of_int [simp]: "round_even (of_int n) = n"
  by (simp add: round_even_def Let_def)

lemma round_even_mono:
  assumes "q \<le> p" shows "round_even q \<le> round_even p"
proof (rule ccontr)
  assume "\<not> round_even q \<le> round_even p"
  then have "of_int (round_even p) + 1 \<le> (of_int (round_even q) :: rat)" by linarith
  with assms round_even_near(1) [of q] round_even_near(2) [of p] have "q = p" by linarith
  with \<open>\<not> _\<close> show False by simp
qed

subsection \<open>The exponent\<close>

lemma find_upto_Some:
  "find P [a .. b] = Some e \<longleftrightarrow> a \<le> e \<and> e \<le> b \<and> P e \<and> (\<forall>x. a \<le> x \<and> x < e \<longrightarrow> \<not> P x)"
proof (induction a b rule: upto.induct)
  case (1 a b)
  have "a \<le> x \<longleftrightarrow> x = a \<or> a + 1 \<le> x" for x by arith
  then have split: "(\<forall>x. a \<le> x \<and> x < e \<longrightarrow> \<not> P x) \<longleftrightarrow> (a < e \<longrightarrow> \<not> P a) \<and> (\<forall>x. a + 1 \<le> x \<and> x < e \<longrightarrow> \<not> P x)"
    by auto
  show ?case
  proof (cases "a \<le> b \<and> \<not> P a")
    case True
    then show ?thesis using 1 by (auto simp: upto.simps [of a b] split) (metis add1_zle_eq order_le_less)+
  next
    case False
    then show ?thesis by (auto simp: upto.simps [of a b] split)
  qed
qed

lemma exponent_None:
  assumes "exponent r = None" shows "2 powi (max_exp + 53) \<le> r"
proof -
  have "max_exp \<in> set [min_exp .. max_exp]" by (simp add: min_exp_def max_exp_def)
  then show ?thesis using assms by (auto simp: exponent_def find_None_iff not_less)
qed

lemma exponent_SomeD:
  assumes "exponent r = Some e"
  shows "min_exp \<le> e" "e \<le> max_exp" "r < 2 powi (e + 53)"
    "\<And>x. min_exp \<le> x \<Longrightarrow> r < 2 powi (x + 53) \<Longrightarrow> e \<le> x"
proof -
  note * = assms [unfolded exponent_def find_upto_Some]
  show "min_exp \<le> e" "e \<le> max_exp" "r < 2 powi (e + 53)" using * by auto
  show "e \<le> x" if "min_exp \<le> x" "r < 2 powi (x + 53)" for x
    using * that by (meson not_le)
qed

lemma exponent_lower:
  assumes "exponent r = Some e" "min_exp < e" shows "2 powi (e + 52) \<le> r"
  using exponent_SomeD(4) [OF assms(1), of "e - 1"] assms(2) by (simp add: add.commute not_less [symmetric]) blast

lemma exponent_mono:
  assumes "exponent r = Some d" "exponent s = Some e" "r \<le> s" shows "d \<le> e"
  using exponent_SomeD(4) [OF assms(1) exponent_SomeD(1) [OF assms(2)]] exponent_SomeD(3) [OF assms(2)] assms(3)
  by linarith

lemma powi_split: "2 powi (e + of_nat k) = 2 ^ k * (2 powi e :: rat)"
  by (simp add: power_int_add)

lemma significand_le:
  assumes "exponent r = Some e" shows "round_even (r / 2 powi e) \<le> 2 ^ 53"
proof -
  have "r \<le> 2 ^ 53 * 2 powi e"
    using exponent_SomeD(3) [OF assms] powi_split [of e 53] by simp
  then have "r / 2 powi e \<le> of_int (2 ^ 53)" by (simp add: divide_le_eq)
  then show ?thesis using round_even_mono round_even_of_int by metis
qed

lemma significand_ge:
  assumes "exponent r = Some e" "min_exp < e" shows "2 ^ 52 \<le> round_even (r / 2 powi e)"
proof -
  have "2 ^ 52 * 2 powi e \<le> r" using exponent_lower [OF assms] powi_split [of e 52] by simp
  then have "of_int (2 ^ 52) \<le> r / 2 powi e" by (simp add: le_divide_eq)
  then show ?thesis using round_even_mono round_even_of_int by metis
qed

subsection \<open>Rounding is monotone\<close>

lemma round_exponents_less:
  assumes "exponent r = Some d" "exponent s = Some e" "d < e"
  shows "of_int (round_even (r / 2 powi d)) * 2 powi d \<le> (of_int (round_even (s / 2 powi e)) * 2 powi e :: rat)"
proof -
  have "of_int (round_even (r / 2 powi d)) \<le> (of_int (2 ^ 53) :: rat)"
    using significand_le [OF assms(1)] by (simp only: of_int_le_iff)
  then have "of_int (round_even (r / 2 powi d)) * 2 powi d \<le> (2 ^ 53 * 2 powi d :: rat)"
    by (intro mult_right_mono) auto
  also have "\<dots> = 2 powi (d + 1 + 52)" using powi_split [of d 53] by (simp add: add.assoc)
  also have "\<dots> \<le> 2 powi (e + 52)" using assms(3) by (intro power_int_increasing) auto
  also have "\<dots> = 2 ^ 52 * 2 powi e" using powi_split [of e 52] by simp
  also have "\<dots> \<le> of_int (round_even (s / 2 powi e)) * 2 powi e"
  proof (rule mult_right_mono)
    have "min_exp < e" using exponent_SomeD(1) [OF assms(1)] assms(3) by simp
    then have "of_int (2 ^ 52) \<le> (of_int (round_even (s / 2 powi e)) :: rat)"
      using significand_ge [OF assms(2)] by (simp only: of_int_le_iff)
    then show "2 ^ 52 \<le> (of_int (round_even (s / 2 powi e)) :: rat)" by simp
  qed simp
  finally show ?thesis .
qed

lemma round_f64_mono:
  assumes "r \<le> s" shows "f64_le (round_f64 r) (round_f64 s)"
proof (cases "exponent s")
  case None
  then show ?thesis by (simp add: round_f64_def Let_def split: option.split)
next
  case s: (Some e)
  have "exponent r \<noteq> None"
  proof
    assume "exponent r = None"
    moreover have "2 powi (e + 53) \<le> (2 powi (max_exp + 53) :: rat)"
      using exponent_SomeD(2) [OF s] by (intro power_int_increasing) auto
    ultimately show False using exponent_None [of r] exponent_SomeD(3) [OF s] assms by linarith
  qed
  then obtain d where r: "exponent r = Some d" by auto
  show ?thesis
  proof (cases "d = e")
    case True
    have "r / 2 powi e \<le> s / 2 powi e" using assms by (simp add: divide_right_mono)
    from round_even_mono [OF this] significand_le [OF s] significand_le [OF r] True show ?thesis
      by (auto simp: round_f64_def Let_def r s)
  next
    case False
    then have "d < e" using exponent_mono [OF r s assms] by simp
    then show ?thesis
      using round_exponents_less [OF r s] exponent_SomeD(2) [OF s] by (simp add: round_f64_def Let_def r s)
  qed
qed

subsection \<open>Representable numbers\<close>

lemma round_f64_representable:
  assumes "0 \<le> m" "m \<le> 2 ^ 53" "min_exp \<le> e" "e < max_exp"
  shows "round_f64 (of_int m * 2 powi e) = Finite (of_int m * 2 powi e)"
proof -
  define r :: rat where "r = of_int m * 2 powi e"
  have "r \<le> 2 ^ 53 * 2 powi e"
    unfolding r_def using assms(2) by (intro mult_right_mono) (simp_all flip: of_int_le_iff)
  then have top: "r \<le> 2 powi (e + 53)" using powi_split [of e 53] by simp
  also have "\<dots> < 2 powi (e + 1 + 53)" by (intro power_int_strict_increasing) auto
  finally have next_exp: "r < 2 powi (e + 1 + 53)" .
  obtain d where d: "exponent r = Some d"
  proof (cases "exponent r")
    case None
    have "2 powi (e + 1 + 53) \<le> (2 powi (max_exp + 53) :: rat)"
      using assms(4) by (intro power_int_increasing) auto
    with exponent_None [OF None] next_exp show ?thesis by simp
  qed
  have "d \<le> e + 1" using exponent_SomeD(4) [OF d, of "e + 1"] assms(3) next_exp by simp
  obtain k where k: "r = of_int k * 2 powi d"
  proof (cases "d \<le> e")
    case True
    then have "2 powi e = 2 ^ nat (e - d) * (2 powi d :: rat)" using powi_split [of d "nat (e - d)"] by simp
    then show ?thesis using that [of "m * 2 ^ nat (e - d)"] by (simp add: r_def)
  next
    case False
    then have de: "d = e + 1" using \<open>d \<le> e + 1\<close> by simp
    have "2 powi (e + 1 + 52) \<le> r" using exponent_lower [OF d] assms(3) unfolding de by simp
    with top have "r = 2 powi (d + 52)" by (simp add: de add.assoc)
    then show ?thesis using that [of "2 ^ 52"] powi_split [of d 52] by simp
  qed
  have "r < 2 ^ 53 * 2 powi d" using exponent_SomeD(3) [OF d] powi_split [of d 53] by simp
  then have "(of_int k :: rat) < of_int (2 ^ 53)" by (simp add: k)
  then have "k < 2 ^ 53" by (simp only: of_int_less_iff)
  moreover have "r / 2 powi d = of_int k" by (simp add: k)
  ultimately have "round_f64 r = Finite r" by (simp add: round_f64_def d Let_def flip: k)
  then show ?thesis by (simp add: r_def)
qed

lemma round_f64_nat: "n \<le> 2 ^ 53 \<Longrightarrow> round_f64 (of_nat n) = Finite (of_nat n)"
  using round_f64_representable [of "int n" 0] by (simp add: min_exp_def max_exp_def)

lemma round_f64_0 [simp]: "round_f64 0 = Finite 0" and round_f64_1 [simp]: "round_f64 1 = Finite 1"
  using round_f64_nat [of 0] round_f64_nat [of 1] by simp_all

lemma round_f64_half [simp]: "round_f64 (1 / 2) = Finite (1 / 2)"
  using round_f64_representable [of 1 "- 1"] by (simp add: min_exp_def max_exp_def)

lemma round_f64_nonneg:
  assumes "0 \<le> r" "round_f64 r = Finite v" shows "0 \<le> v"
  using round_f64_mono [OF assms(1)] assms(2) by simp

lemma round_f64_cases: obtains (finite) v where "round_f64 r = Finite v" | (infinite) "round_f64 r = Infinity"
  by (cases "round_f64 r") (auto simp: round_f64_def Let_def split: option.splits if_splits)

lemma round_f64_le_infinity [simp]: "f64_le (round_f64 r) Infinity" "round_f64 r \<noteq> NotANumber"
  by (cases r rule: round_f64_cases; simp)+

text \<open>A rounded number does not change when it is rounded again.\<close>

lemma round_f64_idem:
  assumes "0 \<le> r" "round_f64 r = Finite v" shows "round_f64 v = Finite v"
proof -
  obtain e where e: "exponent r = Some e" using assms(2) by (auto simp: round_f64_def split: option.splits)
  define m where "m = round_even (r / 2 powi e)"
  have v: "v = of_int m * 2 powi e" and top: "\<not> (e = max_exp \<and> m = 2 ^ 53)"
    using assms(2) by (auto simp: round_f64_def e Let_def m_def split: if_splits)
  have "0 \<le> r / 2 powi e" using assms(1) by simp
  then have m: "0 \<le> m" "m \<le> 2 ^ 53"
    using round_even_mono [of 0 "r / 2 powi e"] round_even_of_int [of 0] significand_le [OF e] by (auto simp: m_def)
  show ?thesis
  proof (cases "e = max_exp")
    case False
    then show ?thesis
      using exponent_SomeD [OF e] m round_f64_representable [of m e] by (simp add: v)
  next
    case True
    have "m < 2 ^ 53" using m(2) top True by simp
    then have "(of_int m :: rat) < of_int (2 ^ 53)" by (simp only: of_int_less_iff)
    then have "v < 2 ^ 53 * 2 powi e" by (simp add: v)
    then have up: "v < 2 powi (e + 53)" using powi_split [of e 53] by simp
    have "2 ^ 52 \<le> m" unfolding m_def by (rule significand_ge [OF e]) (simp add: True min_exp_def max_exp_def)
    then have "(of_int (2 ^ 52) :: rat) \<le> of_int m" by (simp only: of_int_le_iff)
    then have "2 ^ 52 * 2 powi e \<le> v" by (simp add: v)
    then have low: "2 powi (e + 52) \<le> v" using powi_split [of e 52] by simp
    have "\<not> v < 2 powi (x + 53)" if "x < e" for x
    proof -
      have "2 powi (x + 53) \<le> (2 powi (e + 52) :: rat)" using that by (intro power_int_increasing) auto
      with low show ?thesis by simp
    qed
    then have "exponent v = Some e"
      using up exponent_SomeD(1,2) [OF e] by (simp add: exponent_def find_upto_Some)
    moreover have "v / 2 powi e = of_int m" by (simp add: v)
    ultimately show ?thesis using top by (simp add: round_f64_def Let_def flip: v)
  qed
qed

lemma f64_less_le_trans: "f64_less a b \<Longrightarrow> f64_le b c \<Longrightarrow> f64_less a c"
  by (cases a; cases b; cases c) auto

lemma f64_le_less_trans: "f64_le a b \<Longrightarrow> f64_less b c \<Longrightarrow> f64_less a c"
  by (cases a; cases b; cases c) auto

lemma f64_less_irrefl: "f64_le a b \<Longrightarrow> \<not> f64_less b a"
  by (cases a; cases b) auto

lemma f64_div_mono:
  assumes "f64_le a b" "0 < d" "d \<le> e" "\<And>v. a = Finite v \<Longrightarrow> 0 \<le> v"
  shows "f64_le (f64_div a (Finite e)) (f64_div b (Finite d))"
  using assms by (cases a; cases b) (auto intro!: round_f64_mono frac_le)

end
