(* ===== verification/Adaptive.thy ===== *)
theory Adaptive
  imports Multichain F64
begin

text \<open>
  \<^verbatim>\<open>src/src/multichain/mod.rs\<close>: \<open>AdaptiveSharding\<close>, which estimates the load of shards from the sizes of
  their mempools, and the transaction count of the manager. The shard manager that the struct shares
  is an argument. The estimates are doubles of theory \<open>F64\<close>; \<open>0.8\<close> and \<open>0.3\<close> are the doubles nearest to
  these numbers.
\<close>

subsection \<open>Definitions\<close>

definition f64_of_u64 :: "u64 \<Rightarrow> f64" where "f64_of_u64 w = f64_of_nat (unat w)"

record adaptive_sharding =
  load_threshold :: f64
  target_tps_per_shard :: u64

definition adaptive_new :: "u64 \<Rightarrow> adaptive_sharding" where
  "adaptive_new target_tps = \<lparr>load_threshold = round_f64 (4 / 5), target_tps_per_shard = target_tps\<rparr>"

definition estimated_tps :: "shard_info \<Rightarrow> f64" where
  "estimated_tps info = f64_div (f64_of_nat (si_mempool_size info)) (Finite 10)"

definition should_split_shard :: "adaptive_sharding \<Rightarrow> 'ch shard_manager \<Rightarrow> u16 \<Rightarrow> bool" where
  "should_split_shard ad sm shard_id =
     (case get_shard_info sm shard_id of
        Some info \<Rightarrow>
          let current_tps = estimated_tps info;
              load = f64_div current_tps (f64_of_u64 (target_tps_per_shard ad))
          in f64_less (load_threshold ad) load
      | None \<Rightarrow> False)"

definition total_load :: "'ch shard_manager \<Rightarrow> u16 list \<Rightarrow> f64" where
  "total_load sm shard_ids = foldl f64_add (Finite 0) (map estimated_tps (List.map_filter (get_shard_info sm) shard_ids))"

definition should_merge_shards :: "adaptive_sharding \<Rightarrow> 'ch shard_manager \<Rightarrow> u16 list \<Rightarrow> bool" where
  "should_merge_shards ad sm shard_ids =
     f64_less (f64_div (total_load sm shard_ids) (f64_of_nat (length shard_ids)))
       (f64_mul (f64_of_u64 (target_tps_per_shard ad)) (round_f64 (3 / 10)))"

definition get_total_tps :: "'ch shard_manager \<Rightarrow> f64" where
  "get_total_tps sm = f64_of_u64 (sm_total_tx_processed sm)"

subsection \<open>Estimates\<close>

lemma literals:
  obtains h l where "round_f64 (4 / 5) = Finite h" "3 / 4 \<le> h" "h \<le> 1"
    "round_f64 (3 / 10) = Finite l" "0 < l" "l \<le> 3 / 8"
proof -
  have exact: "round_f64 (1 / 4) = Finite (1 / 4)" "round_f64 (3 / 4) = Finite (3 / 4)" "round_f64 (3 / 8) = Finite (3 / 8)"
    using round_f64_representable [of 1 "- 2"] round_f64_representable [of 3 "- 2"] round_f64_representable [of 3 "- 3"]
    by (simp_all add: min_exp_def max_exp_def)
  have "f64_le (Finite (3 / 4)) (round_f64 (4 / 5))" "f64_le (round_f64 (4 / 5)) (Finite 1)"
    using round_f64_mono [of "3 / 4" "4 / 5"] round_f64_mono [of "4 / 5" 1] by (simp_all add: exact)
  moreover have "f64_le (Finite (1 / 4)) (round_f64 (3 / 10))" "f64_le (round_f64 (3 / 10)) (Finite (3 / 8))"
    using round_f64_mono [of "1 / 4" "3 / 10"] round_f64_mono [of "3 / 10" "3 / 8"] by (simp_all add: exact)
  ultimately show ?thesis
    by (cases "round_f64 (4 / 5)"; cases "round_f64 (3 / 10)") (auto intro!: that)
qed

lemma round_count:
  assumes "n \<le> 2 ^ 64" obtains t where "f64_of_nat n = Finite t" "0 \<le> t" "n \<noteq> 0 \<Longrightarrow> 1 \<le> t"
proof -
  have "round_f64 (2 ^ 64) = Finite (2 ^ 64)"
    using round_f64_representable [of 1 64] by (simp add: min_exp_def max_exp_def)
  moreover have "(of_nat n :: rat) \<le> 2 ^ 64" using assms by (simp flip: of_nat_le_iff)
  ultimately obtain t where t: "f64_of_nat n = Finite t"
    using round_f64_mono [of "of_nat n" "2 ^ 64"] by (cases "f64_of_nat n") auto
  moreover have "n \<noteq> 0 \<Longrightarrow> 1 \<le> t" using round_f64_mono [of 1 "of_nat n"] t by simp
  ultimately show ?thesis using that round_f64_nonneg [of "of_nat n" t] by simp
qed

lemma target_count:
  obtains t where "f64_of_u64 T = Finite t" "0 \<le> t" "T \<noteq> 0 \<Longrightarrow> 1 \<le> t"
proof -
  have "unat T < 2 ^ LENGTH(64)" by (rule unsigned_less)
  then have "unat T \<le> 2 ^ 64" by simp
  then show ?thesis by (rule round_count) (use that in \<open>simp add: f64_of_u64_def unat_eq_0\<close>)
qed

lemma estimated_tps_cases:
  obtains (finite) c where "estimated_tps info = Finite c" "0 \<le> c" "round_f64 c = Finite c"
  | (infinite) "estimated_tps info = Infinity"
proof (cases "f64_of_nat (si_mempool_size info)" rule: f64.exhaust)
  case (Finite n)
  have n: "0 \<le> n" using round_f64_nonneg [OF _ Finite] by simp
  show ?thesis
  proof (cases "n / 10" rule: round_f64_cases)
    case (finite c)
    then show ?thesis
      using that(1) [of c] n Finite round_f64_nonneg [OF _ finite] round_f64_idem [OF _ finite]
      by (simp add: estimated_tps_def)
  qed (use that(2) Finite in \<open>simp add: estimated_tps_def\<close>)
qed (use that(2) in \<open>simp_all add: estimated_tps_def\<close>)

lemma estimated_tps_nonneg: "estimated_tps info = Finite v \<Longrightarrow> 0 \<le> v"
  by (cases info rule: estimated_tps_cases) auto

lemma total_load_Nil [simp]: "total_load sm [] = Finite 0"
  by (simp add: total_load_def List.map_filter_def)

lemma total_load_single:
  assumes "get_shard_info sm i = Some info" shows "total_load sm [i] = estimated_tps info"
  using assms by (cases info rule: estimated_tps_cases) (simp_all add: total_load_def List.map_filter_def)

lemma target_bound: "f64_of_u64 T = Finite t \<Longrightarrow> t \<le> 2 ^ 64"
proof -
  assume t: "f64_of_u64 T = Finite t"
  have "unat T < 2 ^ LENGTH(64)" by (rule unsigned_less)
  then have "unat T \<le> 2 ^ 64" by simp
  then have "(of_nat (unat T) :: rat) \<le> of_nat (2 ^ 64)" by (simp only: of_nat_le_iff)
  moreover have "round_f64 (2 ^ 64) = Finite (2 ^ 64)"
    using round_f64_representable [of 1 64] by (simp add: min_exp_def max_exp_def)
  ultimately show ?thesis
    using round_f64_mono [of "of_nat (unat T)" "2 ^ 64"] t unfolding f64_of_u64_def by simp
qed

text \<open>A power of two between three eighths and three quarters of the target, and its small multiples.\<close>

lemma separating_power:
  assumes "1 \<le> t" and "t \<le> 2 ^ 64"
  obtains p :: rat where "3 / 8 * t \<le> p" "p \<le> 3 / 4 * t" "0 < p"
    "\<And>k. k \<le> 2 ^ 53 \<Longrightarrow> round_f64 (of_nat k * p) = Finite (of_nat k * p)"
proof -
  define k where "k = nat \<lfloor>3 / 2 * t\<rfloor>"
  have k: "1 \<le> k" "of_nat k \<le> 3 / 2 * t" "3 / 2 * t < of_nat k + 1"
    using assms(1) unfolding k_def by linarith+
  obtain n where n: "2 ^ n \<le> k" "k < 2 ^ (n + 1)" using ex_power_ivl1 [of 2 k] k(1) by auto
  have lo: "(2 ^ n :: rat) \<le> of_nat k" using n(1) by (metis of_nat_le_iff of_nat_numeral of_nat_power)
  have "(of_nat (k + 1) :: rat) \<le> of_nat (2 ^ (n + 1))" unfolding of_nat_le_iff using n(2) by simp
  then have hi: "of_nat k + 1 \<le> (2 * 2 ^ n :: rat)" by simp
  have "(2 :: rat) ^ n < 2 ^ 65" using order_trans [OF lo k(2)] assms(2) by simp
  then have "n < 65" by (rule power_less_imp_less_exp [rotated]) simp
  define p :: rat where "p = 2 ^ n / 2"
  have "p = 2 powi (int n - 1)" by (simp add: p_def power_int_diff)
  then have "round_f64 (of_nat j * p) = Finite (of_nat j * p)" if "j \<le> 2 ^ 53" for j
    using round_f64_representable [of "int j" "int n - 1"] that \<open>n < 65\<close>
    by (simp add: min_exp_def max_exp_def)
  moreover have "3 / 8 * t \<le> p" "p \<le> 3 / 4 * t" "0 < p" using order_trans [OF lo k(2)] hi k(3) by (simp_all add: p_def)
  ultimately show ?thesis by (rule that [rotated 3])
qed

text \<open>Summing \<open>n\<close> numbers that are at least \<open>p\<close> gives at least \<open>n * p\<close>, roundings included.\<close>

lemma sum_at_least:
  assumes "\<And>k. k \<le> 2 ^ 53 \<Longrightarrow> round_f64 (of_nat k * p) = Finite (of_nat k * p)"
    and "\<forall>c \<in> set cs. f64_le (Finite p) c" and "f64_le (Finite (of_nat j * p)) s" and "j + length cs \<le> 2 ^ 53"
  shows "f64_le (Finite (of_nat (j + length cs) * p)) (foldl f64_add s cs)"
  using assms(2-4)
proof (induction cs arbitrary: j s)
  case (Cons c cs)
  have "f64_le (Finite (of_nat (Suc j) * p)) (f64_add s c)"
  proof (cases "s = Infinity \<or> c = Infinity")
    case True
    with Cons.prems(1,2) show ?thesis by (cases s; cases c) auto
  next
    case False
    then obtain x y where f: "s = Finite x" "c = Finite y" using Cons.prems(1,2) by (cases s; cases c) auto
    have "of_nat (Suc j) * p \<le> x + y" using Cons.prems(1,2) by (simp add: f algebra_simps)
    from round_f64_mono [OF this] show ?thesis using assms(1) [of "Suc j"] Cons.prems(3) by (simp add: f)
  qed
  from Cons.IH [OF _ this] Cons.prems(1,3) show ?case by simp
qed simp

lemma split_load_at_least:
  assumes "should_split_shard (adaptive_new T) sm i" and "T \<noteq> 0" and "f64_of_u64 T = Finite t" and "p \<le> 3 / 4 * t"
  shows "\<exists>info. get_shard_info sm i = Some info \<and> f64_le (Finite p) (estimated_tps info)"
proof -
  obtain h where h: "round_f64 (4 / 5) = Finite h" "3 / 4 \<le> h" by (rule literals) blast
  have t: "1 \<le> t" using target_count [of T] assms(2,3) by (metis f64.inject)
  obtain info where info: "get_shard_info sm i = Some info"
    and load: "f64_less (Finite h) (f64_div (estimated_tps info) (Finite t))"
    using assms(1) by (auto simp: should_split_shard_def adaptive_new_def h assms(3) Let_def split: option.splits)
  have "f64_le (Finite p) (estimated_tps info)"
  proof (cases info rule: estimated_tps_cases)
    case c: (finite c)
    have "p \<le> c"
    proof (rule ccontr)
      assume "\<not> p \<le> c"
      then have "c / t \<le> 3 / 4" using t assms(4) by (simp add: divide_le_eq)
      moreover have "round_f64 (3 / 4) = Finite (3 / 4)"
        using round_f64_representable [of 3 "- 2"] by (simp add: min_exp_def max_exp_def)
      ultimately have "f64_le (round_f64 (c / t)) (Finite h)"
        using round_f64_mono [of "c / t" "3 / 4"] h(2) by (cases "round_f64 (c / t)") auto
      with load c t show False using f64_less_irrefl by auto
    qed
    with c show ?thesis by simp
  qed simp
  with info show ?thesis by blast
qed

subsection \<open>Properties\<close>

text \<open>
  C30. Shards that should all be split should not be merged: for a list of up to \<open>2^53\<close> shards, whatever
  their mempools and the target, and in spite of the rounding of every intermediate result, of the sum
  over the list in particular. (A shard that should be split can still be merged together with others
  that are idle or missing, as \<open>split_and_merged\<close> shows: the two decisions are not exclusive for it.)
\<close>
theorem split_excludes_merge:
  assumes split: "\<forall>i \<in> set shard_ids. should_split_shard (adaptive_new T) sm i" and len: "length shard_ids \<le> 2 ^ 53"
  shows "\<not> should_merge_shards (adaptive_new T) sm shard_ids"
proof -
  obtain l where l: "round_f64 (3 / 10) = Finite l" "0 < l" "l \<le> 3 / 8" by (rule literals) blast
  obtain t where t: "f64_of_u64 T = Finite t" "0 \<le> t" "T \<noteq> 0 \<Longrightarrow> 1 \<le> t" by (rule target_count [of T]) blast
  let ?infos = "List.map_filter (get_shard_info sm) shard_ids" and ?n = "of_nat (length shard_ids) :: rat"
  have n: "round_f64 ?n = Finite ?n" by (rule round_f64_nat [OF len])
  have merge: "should_merge_shards (adaptive_new T) sm shard_ids \<longleftrightarrow>
      f64_less (f64_div (total_load sm shard_ids) (Finite ?n)) (round_f64 (t * l))"
    by (simp add: should_merge_shards_def adaptive_new_def t l n)
  have "\<exists>p. 0 \<le> p \<and> t * l \<le> p \<and> (\<forall>k. k \<le> 2 ^ 53 \<longrightarrow> round_f64 (of_nat k * p) = Finite (of_nat k * p)) \<and>
      (\<forall>i \<in> set shard_ids. \<exists>info. get_shard_info sm i = Some info \<and> f64_le (Finite p) (estimated_tps info))"
  proof (cases "T = 0")
    case True
    have "\<exists>info. get_shard_info sm i = Some info" if "i \<in> set shard_ids" for i
      using split that by (auto simp: should_split_shard_def split: option.splits)
    moreover have "f64_le (Finite 0) (estimated_tps info)" for info
      by (cases info rule: estimated_tps_cases) simp_all
    moreover have "t = 0" using t(1) True by (simp add: f64_of_u64_def)
    ultimately show ?thesis by (intro exI [of _ 0]) simp
  next
    case False
    obtain p where p: "3 / 8 * t \<le> p" "p \<le> 3 / 4 * t" "0 < p"
      "\<And>k. k \<le> 2 ^ 53 \<Longrightarrow> round_f64 (of_nat k * p) = Finite (of_nat k * p)"
      using separating_power [OF t(3) [OF False] target_bound [OF t(1)]] by blast
    have "t * l \<le> p" using mult_left_mono [OF l(3) t(2)] p(1) by simp
    moreover have "\<forall>i \<in> set shard_ids. \<exists>info. get_shard_info sm i = Some info \<and> f64_le (Finite p) (estimated_tps info)"
      using split_load_at_least [OF _ False t(1) p(2)] split by blast
    ultimately show ?thesis using p(3,4) by (intro exI [of _ p]) simp
  qed
  then obtain p where p: "0 \<le> p" "t * l \<le> p" "\<And>k. k \<le> 2 ^ 53 \<Longrightarrow> round_f64 (of_nat k * p) = Finite (of_nat k * p)"
    and info: "\<forall>i \<in> set shard_ids. \<exists>info. get_shard_info sm i = Some info \<and> f64_le (Finite p) (estimated_tps info)"
    by blast
  from info have "length (map estimated_tps ?infos) = length shard_ids"
    by (induction shard_ids) (force simp: List.map_filter_simps)+
  moreover have "\<forall>c \<in> set (map estimated_tps ?infos). f64_le (Finite p) c"
    using info by (fastforce simp: List.map_filter_def)
  ultimately have sum: "f64_le (Finite (?n * p)) (total_load sm shard_ids)"
    using sum_at_least [OF p(3), of "map estimated_tps ?infos" 0 "Finite 0"] len by (simp add: total_load_def)
  have p1: "round_f64 p = Finite p" using p(3) [of 1] by simp
  from round_f64_mono [OF p(2)] have limit: "f64_le (round_f64 (t * l)) (Finite p)" by (simp only: p1)
  show ?thesis
  proof (cases "shard_ids = []")
    case False
    then have "f64_le (f64_div (Finite (?n * p)) (Finite ?n)) (f64_div (total_load sm shard_ids) (Finite ?n))"
      using mult_nonneg_nonneg [OF of_nat_0_le_iff p(1)] by (intro f64_div_mono [OF sum]) auto
    then have "f64_le (Finite p) (f64_div (total_load sm shard_ids) (Finite ?n))"
      using False p1 by simp
    then show ?thesis using limit merge f64_less_le_trans f64_less_irrefl by blast
  qed (use merge in simp)
qed

text \<open>
  More load or a lower target never turns a split off: the decision is monotone through all the
  roundings.
\<close>
theorem should_split_mono:
  assumes "get_shard_info sm i = Some info" "get_shard_info sm' i' = Some info'"
    and "si_mempool_size info \<le> si_mempool_size info'" "unat T' \<le> unat T" "T' \<noteq> 0"
    and "should_split_shard (adaptive_new T) sm i"
  shows "should_split_shard (adaptive_new T') sm' i'"
proof -
  obtain t where t: "f64_of_u64 T = Finite t" by (rule target_count [of T]) blast
  obtain t' where t': "f64_of_u64 T' = Finite t'" "T' \<noteq> 0 \<Longrightarrow> 1 \<le> t'" by (rule target_count [of T']) blast
  have "t' \<le> t"
    using round_f64_mono [of "of_nat (unat T')" "of_nat (unat T)"] assms(4) t t'(1)
    unfolding f64_of_u64_def of_nat_le_iff by simp
  have size: "f64_le (f64_of_nat (si_mempool_size info)) (f64_of_nat (si_mempool_size info'))"
    using assms(3) by (intro round_f64_mono) simp
  have "f64_le (estimated_tps info) (estimated_tps info')"
    unfolding estimated_tps_def by (rule f64_div_mono [OF size]) (auto dest: round_f64_nonneg [rotated])
  then have "f64_le (f64_div (estimated_tps info) (Finite t)) (f64_div (estimated_tps info') (Finite t'))"
    by (rule f64_div_mono) (use t'(2) assms(5) \<open>t' \<le> t\<close> in \<open>auto dest: estimated_tps_nonneg\<close>)
  moreover have "f64_less (round_f64 (4 / 5)) (f64_div (estimated_tps info) (Finite t))"
    using assms(6) by (simp add: should_split_shard_def adaptive_new_def assms(1) t)
  ultimately show ?thesis
    using f64_less_le_trans by (auto simp: should_split_shard_def adaptive_new_def assms(2) t')
qed

text \<open>A target of 0 splits every shard whose load estimate is not 0.\<close>

theorem split_without_target:
  "should_split_shard (adaptive_new 0) sm i \<longleftrightarrow>
    (\<exists>info. get_shard_info sm i = Some info \<and> estimated_tps info \<noteq> Finite 0)"
proof -
  obtain h where "round_f64 (4 / 5) = Finite h" by (rule literals) blast
  then have "f64_less (round_f64 (4 / 5)) (f64_div (estimated_tps info) (Finite 0)) \<longleftrightarrow>
      estimated_tps info \<noteq> Finite 0" for info
    by (cases info rule: estimated_tps_cases) auto
  then show ?thesis
    by (simp add: should_split_shard_def adaptive_new_def f64_of_u64_def split: option.split)
qed

text \<open>
  Shards that do not exist count as idle: any non-empty list of shards that are missing or have
  an empty mempool can be merged, as soon as the target is not 0. Nothing is merged for a target of
  0, and the empty list never (its load is 0 divided by 0).
\<close>
theorem merge_idle_or_missing:
  assumes "\<forall>i \<in> set shard_ids. \<forall>info. get_shard_info sm i = Some info \<longrightarrow> si_mempool_size info = 0"
    and "length shard_ids \<le> 2 ^ 64"
  shows "should_merge_shards (adaptive_new T) sm shard_ids \<longleftrightarrow> shard_ids \<noteq> [] \<and> T \<noteq> 0"
proof -
  obtain l where l: "round_f64 (3 / 10) = Finite l" "0 < l" by (rule literals) blast
  obtain t where t: "f64_of_u64 T = Finite t" "0 \<le> t" "T \<noteq> 0 \<Longrightarrow> 1 \<le> t" by (rule target_count [of T]) blast
  obtain n where n: "f64_of_nat (length shard_ids) = Finite n" "shard_ids \<noteq> [] \<Longrightarrow> 1 \<le> n"
    by (rule round_count [OF assms(2)]) auto
  have idle: "foldl f64_add (Finite 0) (map estimated_tps infos) = Finite 0"
    if "\<forall>info \<in> set infos. si_mempool_size info = 0" for infos
    using that by (induction infos) (simp_all add: estimated_tps_def)
  have load: "total_load sm shard_ids = Finite 0"
    unfolding total_load_def by (rule idle) (use assms(1) in \<open>auto simp: List.map_filter_def\<close>)
  have limit: "f64_less (Finite 0) (round_f64 (t * l))" if "T \<noteq> 0"
  proof -
    have "1 * l \<le> t * l" using t(3) that l(2) by (intro mult_right_mono) auto
    moreover have "round_f64 l = Finite l" using round_f64_idem [OF _ l(1)] by simp
    ultimately have "f64_le (Finite l) (round_f64 (t * l))" using round_f64_mono [of l "t * l"] by simp
    then show ?thesis using l(2) by (cases "round_f64 (t * l)") auto
  qed
  show ?thesis
    using limit n t l(1)
    by (cases "T = 0"; cases "shard_ids = []")
      (simp_all add: should_merge_shards_def adaptive_new_def load f64_of_u64_def)
qed

subsection \<open>A loaded shard and an empty one\<close>

definition loaded_shard :: "nat \<Rightarrow> shard" where
  "loaded_shard n = (sample_shard 0)\<lparr>sh_consensus := (sh_consensus (sample_shard 0))\<lparr>hs_mempool := (mempool_new 100)\<lparr>
     mp_transactions := map (\<lambda>i. (Hash [word_of_nat i], sample_tx 1 (word_of_nat i) None 0 1)) [0 ..< n]\<rparr>\<rparr>\<rparr>"

definition loaded_manager :: "nat \<Rightarrow> cross_tx list shard_manager" where
  "loaded_manager n = (shard_manager_new sample_config router_new)\<lparr>sm_shards := [(0, loaded_shard n)]\<rparr>"

lemma loaded_info:
  "\<exists>info. get_shard_info (loaded_manager n) 0 = Some info \<and> si_mempool_size info = n"
  by (simp add: loaded_manager_def loaded_shard_def get_shard_info_def hm_get_def info_of_def
      get_mempool_def mempool_size_def)

lemma loaded_splits: "should_split_shard (adaptive_new 1) (loaded_manager 20) 0"
proof -
  obtain h where h: "round_f64 (4 / 5) = Finite h" "h \<le> 1" by (rule literals) blast
  have "round_f64 2 = Finite 2" "round_f64 20 = Finite 20" using round_f64_nat [of 2] round_f64_nat [of 20] by simp_all
  then show ?thesis
    using loaded_info [of 20] h
    by (auto simp: should_split_shard_def adaptive_new_def estimated_tps_def f64_of_u64_def)
qed

theorem split_excludes_merge_witness:
  "should_split_shard (adaptive_new 1) (loaded_manager 20) 0 \<and>
   \<not> should_merge_shards (adaptive_new 1) (loaded_manager 20) [0, 0]"
  using split_excludes_merge [of "[0, 0]" 1 "loaded_manager 20"] loaded_splits by simp

text \<open>
  The average hides a loaded shard: with a target of 1, shard 0 has twenty pending transactions and
  should be split, and at the same time the sixteen shards 0 to 15, the others of which do not even
  exist, should be merged.
\<close>
theorem split_and_merged:
  "should_split_shard (adaptive_new 1) (loaded_manager 20) 0 \<and>
   should_merge_shards (adaptive_new 1) (loaded_manager 20) [0, 1, 2, 3, 4, 5, 6, 7, 8, 9, 10, 11, 12, 13, 14, 15]"
proof -
  obtain info where info: "get_shard_info (loaded_manager 20) 0 = Some info" "si_mempool_size info = 20"
    using loaded_info by blast
  have missing: "get_shard_info (loaded_manager 20) i = None" if "i \<noteq> 0" for i
    using that by (simp add: loaded_manager_def get_shard_info_def hm_get_def)
  have exact: "round_f64 2 = Finite 2" "round_f64 16 = Finite 16" "round_f64 20 = Finite 20" "round_f64 (1 / 8) = Finite (1 / 8)"
    "round_f64 (1 / 4) = Finite (1 / 4)"
    using round_f64_nat [of 2] round_f64_nat [of 16] round_f64_nat [of 20] round_f64_representable [of 1 "- 3"]
      round_f64_representable [of 1 "- 2"]
    by (simp_all add: min_exp_def max_exp_def)
  obtain l where l: "round_f64 (3 / 10) = Finite l" "0 < l" by (rule literals) blast
  have "1 / 4 \<le> l" using round_f64_mono [of "1 / 4" "3 / 10"] by (simp add: l exact)
  moreover have "round_f64 l = Finite l" using round_f64_idem [OF _ l(1)] by simp
  ultimately have "should_merge_shards (adaptive_new 1) (loaded_manager 20) [0, 1, 2, 3, 4, 5, 6, 7, 8, 9, 10, 11, 12, 13, 14, 15]"
    by (simp add: should_merge_shards_def adaptive_new_def total_load_def List.map_filter_simps missing info estimated_tps_def
        f64_of_u64_def exact l)
  with loaded_splits show ?thesis by blast
qed

theorem should_split_mono_witness: "should_split_shard (adaptive_new 1) (loaded_manager 35) 0"
proof -
  obtain info info' where a: "get_shard_info (loaded_manager 20) 0 = Some info" "si_mempool_size info = 20"
    "get_shard_info (loaded_manager 35) 0 = Some info'" "si_mempool_size info' = 35"
    using loaded_info by blast
  show ?thesis using should_split_mono [OF a(1) a(3) _ _ _ loaded_splits, of 1] a(2,4) by simp
qed

theorem merge_idle_or_missing_witness:
  "should_merge_shards (adaptive_new 1000) (loaded_manager 0) [0, 7, 9] \<and>
   get_shard_info (loaded_manager 0) 7 = None \<and>
   \<not> should_merge_shards (adaptive_new 1000) (loaded_manager 0) []"
proof -
  have missing: "get_shard_info (loaded_manager 0) i = None" if "i \<noteq> 0" for i
    using that by (simp add: loaded_manager_def get_shard_info_def hm_get_def)
  have idle: "\<forall>i \<in> set is. \<forall>info. get_shard_info (loaded_manager 0) i = Some info \<longrightarrow> si_mempool_size info = 0" for "is"
    using loaded_info [of 0] missing by (metis option.inject option.simps(3))
  show ?thesis
    using merge_idle_or_missing [OF idle, of "[0, 7, 9]" 1000] merge_idle_or_missing [OF idle, of "[]" 1000] missing [of 7]
    by simp
qed

end
