(* ===== verification/Storage.thy ===== *)
theory Storage
  imports Types "HOL-Library.Sublist"
begin

text \<open>
  \<^verbatim>\<open>src/src/storage/mod.rs\<close>: the \<open>Database\<close> trait, \<open>MemoryDB\<close>, \<open>StateStorage\<close>, \<open>StateSnapshot\<close> and
  \<open>StatePruner\<close>.

  The trait is the record \<open>db_ops\<close> over a type of database states; its contract is the locale
  \<open>database\<close>, in which the facts about \<open>StateStorage\<close> are proved once, and \<open>prefix_database\<close> adds the
  exact prefix iteration that snapshots need. \<open>MemoryDB\<close> is an interpretation of both; \<open>RocksDB\<close>
  (theory \<open>Rocks\<close>) of the first. The \<^verbatim>\<open>lru\<close> crate is the record \<open>lru_ops\<close> with the locale \<open>lru_cache\<close>, and
  \<^verbatim>\<open>bincode\<close> the record \<open>store_ext\<close>.
\<close>

subsection \<open>The database trait and the in-memory database\<close>

record 'd db_ops =
  db_get :: "'d \<Rightarrow> bytes \<Rightarrow> bytes option"
  db_put :: "bytes \<Rightarrow> bytes \<Rightarrow> 'd \<Rightarrow> unit rs_result \<times> 'd"
  db_delete :: "bytes \<Rightarrow> 'd \<Rightarrow> unit rs_result \<times> 'd"
  db_batch_write :: "(bytes \<times> bytes option) list \<Rightarrow> 'd \<Rightarrow> unit rs_result \<times> 'd"
  db_iterator :: "'d \<Rightarrow> bytes \<Rightarrow> (bytes \<times> bytes) list"

type_synonym memdb = "(bytes, bytes) hashmap"

definition mem_new :: memdb where "mem_new = []"
definition mem_get :: "memdb \<Rightarrow> bytes \<Rightarrow> bytes option" where "mem_get d k = hm_get d k"
definition mem_put :: "bytes \<Rightarrow> bytes \<Rightarrow> memdb \<Rightarrow> unit rs_result \<times> memdb" where
  "mem_put k v d = (Ok (), hm_insert k v d)"
definition mem_delete :: "bytes \<Rightarrow> memdb \<Rightarrow> unit rs_result \<times> memdb" where
  "mem_delete k d = (Ok (), hm_remove k d)"

definition mem_write_one :: "bytes \<times> bytes option \<Rightarrow> memdb \<Rightarrow> memdb" where
  "mem_write_one = (\<lambda>(k, value) d. case value of Some v \<Rightarrow> hm_insert k v d | None \<Rightarrow> hm_remove k d)"

definition mem_batch_write :: "(bytes \<times> bytes option) list \<Rightarrow> memdb \<Rightarrow> unit rs_result \<times> memdb" where
  "mem_batch_write batch d = (Ok (), fold mem_write_one batch d)"

definition mem_iterator :: "memdb \<Rightarrow> bytes \<Rightarrow> (bytes \<times> bytes) list" where
  "mem_iterator d pre = filter (\<lambda>(k, _). prefix pre k) d"

definition memory_db :: "memdb db_ops" where
  "memory_db = \<lparr>db_get = mem_get, db_put = mem_put, db_delete = mem_delete,
     db_batch_write = mem_batch_write, db_iterator = mem_iterator\<rparr>"

subsection \<open>Key encoding\<close>

definition ascii :: "string \<Rightarrow> bytes" where "ascii s = map of_char s"

definition account_key :: "address \<Rightarrow> bytes" where
  "account_key a = ascii ''acc:'' @ address_bytes a"
definition block_key :: "u64 \<Rightarrow> bytes" where
  "block_key height = ascii ''blk:'' @ u64_le height"
definition tx_key :: "hash \<Rightarrow> bytes" where
  "tx_key h = ascii ''tx:'' @ hash_bytes h"
definition contract_key :: "address \<Rightarrow> bytes" where
  "contract_key a = ascii ''code:'' @ address_bytes a"
definition storage_key :: "address \<Rightarrow> hash \<Rightarrow> bytes" where
  "storage_key a k = ascii ''stor:'' @ address_bytes a @ ascii '':'' @ hash_bytes k"

subsection \<open>State storage\<close>

record 'c lru_ops =
  lru_new :: "nat \<Rightarrow> 'c"
  lru_get :: "hash \<Rightarrow> 'c \<Rightarrow> account option \<times> 'c"
  lru_put :: "hash \<Rightarrow> account \<Rightarrow> 'c \<Rightarrow> 'c"

record store_ext =
  se_ext :: ext
  ser_account :: "account \<Rightarrow> bytes option"
  de_account :: "bytes \<Rightarrow> account option"
  ser_block :: "block \<Rightarrow> bytes option"
  de_block :: "bytes \<Rightarrow> block option"
  de_transaction :: "bytes \<Rightarrow> transaction option"

record ('d, 'c) state_storage =
  ss_db :: 'd
  ss_cache :: 'c
  ss_pending :: "(bytes \<times> bytes option) list"

definition storage_new :: "'c lru_ops \<Rightarrow> 'd \<Rightarrow> nat \<Rightarrow> ('d, 'c) state_storage" where
  "storage_new L db cache_size = \<lparr>ss_db = db, ss_cache = lru_new L cache_size, ss_pending = []\<rparr>"

definition account_hash :: "store_ext \<Rightarrow> address \<Rightarrow> hash" where
  "account_hash C a = hash_new (sha3_256 (se_ext C)) (address_bytes a)"

definition get_account ::
    "'d db_ops \<Rightarrow> 'c lru_ops \<Rightarrow> store_ext \<Rightarrow> address \<Rightarrow> ('d, 'c) state_storage
      \<Rightarrow> account option \<times> ('d, 'c) state_storage" where
  "get_account D L C a ss =
     (case lru_get L (account_hash C a) (ss_cache ss) of
        (Some acc, cache) \<Rightarrow> (Some acc, ss\<lparr>ss_cache := cache\<rparr>)
      | (None, cache) \<Rightarrow>
          (case db_get D (ss_db ss) (account_key a) of
             None \<Rightarrow> (None, ss\<lparr>ss_cache := cache\<rparr>)
           | Some data \<Rightarrow>
               (case de_account C data of
                  None \<Rightarrow> (None, ss\<lparr>ss_cache := cache\<rparr>)
                | Some acc \<Rightarrow> (Some acc, ss\<lparr>ss_cache := lru_put L (account_hash C a) acc cache\<rparr>))))"

definition push_pending :: "bytes \<Rightarrow> bytes \<Rightarrow> ('d, 'c) state_storage \<Rightarrow> ('d, 'c) state_storage" where
  "push_pending k v ss = ss\<lparr>ss_pending := ss_pending ss @ [(k, Some v)]\<rparr>"

definition put_account ::
    "'c lru_ops \<Rightarrow> store_ext \<Rightarrow> address \<Rightarrow> account \<Rightarrow> ('d, 'c) state_storage
      \<Rightarrow> unit rs_result \<times> ('d, 'c) state_storage" where
  "put_account L C a acc ss =
     (case ser_account C acc of
        None \<Rightarrow> (Err ''Serialization error'', ss)
      | Some value \<Rightarrow>
          (Ok (), push_pending (account_key a) value
                    (ss\<lparr>ss_cache := lru_put L (account_hash C a) acc (ss_cache ss)\<rparr>)))"

definition get_block :: "'d db_ops \<Rightarrow> store_ext \<Rightarrow> u64 \<Rightarrow> ('d, 'c) state_storage \<Rightarrow> block option" where
  "get_block D C height ss = Option.bind (db_get D (ss_db ss) (block_key height)) (de_block C)"

definition put_block ::
    "store_ext \<Rightarrow> block \<Rightarrow> ('d, 'c) state_storage \<Rightarrow> unit rs_result \<times> ('d, 'c) state_storage" where
  "put_block C b ss =
     (case ser_block C b of
        None \<Rightarrow> (Err ''Serialization error'', ss)
      | Some value \<Rightarrow> (Ok (), push_pending (block_key (hdr_height (header b))) value ss))"

definition get_transaction ::
    "'d db_ops \<Rightarrow> store_ext \<Rightarrow> hash \<Rightarrow> ('d, 'c) state_storage \<Rightarrow> transaction option" where
  "get_transaction D C h ss = Option.bind (db_get D (ss_db ss) (tx_key h)) (de_transaction C)"

definition put_transaction ::
    "store_ext \<Rightarrow> transaction \<Rightarrow> ('d, 'c) state_storage \<Rightarrow> unit rs_result \<times> ('d, 'c) state_storage" where
  "put_transaction C tx ss =
     (case ser_transaction (se_ext C) tx of
        None \<Rightarrow> (Err ''Serialization error'', ss)
      | Some value \<Rightarrow> (Ok (), push_pending (tx_key (tx_hash (se_ext C) tx)) value ss))"

definition get_contract_code :: "'d db_ops \<Rightarrow> address \<Rightarrow> ('d, 'c) state_storage \<Rightarrow> bytes option" where
  "get_contract_code D a ss = db_get D (ss_db ss) (contract_key a)"

definition put_contract_code ::
    "address \<Rightarrow> bytes \<Rightarrow> ('d, 'c) state_storage \<Rightarrow> unit rs_result \<times> ('d, 'c) state_storage" where
  "put_contract_code a code ss = (Ok (), push_pending (contract_key a) code ss)"

definition get_storage :: "'d db_ops \<Rightarrow> address \<Rightarrow> hash \<Rightarrow> ('d, 'c) state_storage \<Rightarrow> bytes option" where
  "get_storage D a k ss = db_get D (ss_db ss) (storage_key a k)"

definition put_storage ::
    "address \<Rightarrow> hash \<Rightarrow> bytes \<Rightarrow> ('d, 'c) state_storage \<Rightarrow> unit rs_result \<times> ('d, 'c) state_storage" where
  "put_storage a k value ss = (Ok (), push_pending (storage_key a k) value ss)"

definition commit :: "'d db_ops \<Rightarrow> ('d, 'c) state_storage \<Rightarrow> unit rs_result \<times> ('d, 'c) state_storage" where
  "commit D ss =
     (if ss_pending ss = [] then (Ok (), ss)
      else case db_batch_write D (ss_pending ss) (ss_db ss) of
             (r, db) \<Rightarrow> (r, ss\<lparr>ss_db := db, ss_pending := []\<rparr>))"

definition rollback :: "('d, 'c) state_storage \<Rightarrow> ('d, 'c) state_storage" where
  "rollback ss = ss\<lparr>ss_pending := []\<rparr>"

definition state_root :: "store_ext \<Rightarrow> ('d, 'c) state_storage \<Rightarrow> hash" where
  "state_root C ss =
     hash_new (sha3_256 (se_ext C)) (concat (map (\<lambda>(k, v). k @ unwrap_or v []) (ss_pending ss)))"

subsection \<open>Snapshots and pruning\<close>

record state_snapshot =
  snap_block_height :: u64
  snap_state_root :: hash
  snap_accounts :: "(address \<times> account) list"
  snap_timestamp :: u64

text \<open>The loop of \<open>create\<close>; \<open>None\<close> is the panic of \<open>key[4..24]\<close> on a key shorter than 24 bytes.\<close>

fun collect_accounts :: "store_ext \<Rightarrow> (bytes \<times> bytes) list \<Rightarrow> (address \<times> account) list option" where
  "collect_accounts C [] = Some []"
| "collect_accounts C ((key, value) # items) =
     (case de_account C value of
        None \<Rightarrow> collect_accounts C items
      | Some acc \<Rightarrow>
          if length key < 24 then None
          else map_option ((#) (Address (take 20 (drop 4 key)), acc)) (collect_accounts C items))"

definition snapshot_create ::
    "'d db_ops \<Rightarrow> store_ext \<Rightarrow> u64 \<Rightarrow> ('d, 'c) state_storage \<Rightarrow> u64 \<Rightarrow> state_snapshot option" where
  "snapshot_create D C now ss height =
     (case collect_accounts C (db_iterator D (ss_db ss) (ascii ''acc:'')) of
        None \<Rightarrow> None
      | Some accounts \<Rightarrow>
          Some \<lparr>snap_block_height = height, snap_state_root = state_root C ss,
                snap_accounts = accounts, snap_timestamp = now\<rparr>)"

fun put_accounts ::
    "'c lru_ops \<Rightarrow> store_ext \<Rightarrow> (address \<times> account) list \<Rightarrow> ('d, 'c) state_storage
      \<Rightarrow> unit rs_result \<times> ('d, 'c) state_storage" where
  "put_accounts L C [] ss = (Ok (), ss)"
| "put_accounts L C ((a, acc) # items) ss =
     (case put_account L C a acc ss of
        (Err e, ss') \<Rightarrow> (Err e, ss')
      | (Ok _, ss') \<Rightarrow> put_accounts L C items ss')"

definition snapshot_apply ::
    "'d db_ops \<Rightarrow> 'c lru_ops \<Rightarrow> store_ext \<Rightarrow> state_snapshot \<Rightarrow> ('d, 'c) state_storage
      \<Rightarrow> unit rs_result \<times> ('d, 'c) state_storage" where
  "snapshot_apply D L C snap ss =
     (case put_accounts L C (snap_accounts snap) ss of
        (Err e, ss') \<Rightarrow> (Err e, ss')
      | (Ok _, ss') \<Rightarrow> commit D ss')"

definition saturating_sub :: "u64 \<Rightarrow> u64 \<Rightarrow> u64" where
  "saturating_sub a b = (if a < b then 0 else a - b)"

text \<open>The loop only counts: the key of each height is computed and dropped.\<close>

definition prune_old_blocks ::
    "u64 \<Rightarrow> u64 \<Rightarrow> ('d, 'c) state_storage \<Rightarrow> u64 rs_result \<times> ('d, 'c) state_storage" where
  "prune_old_blocks keep_blocks current_height ss =
     (Ok (fold (\<lambda>height pruned. pruned + 1) [0 ..< unat (saturating_sub current_height keep_blocks)] 0), ss)"

subsection \<open>Keys do not clash\<close>

lemma ascii_simps [simp]:
  "ascii [] = []" "ascii (c # cs) = of_char c # ascii cs"
  by (simp_all add: ascii_def)

datatype db_key =
  AccountKey address | BlockKey u64 | TxKey hash | ContractKey address | StorageKey address hash

primrec encode_key :: "db_key \<Rightarrow> bytes" where
  "encode_key (AccountKey a) = account_key a"
| "encode_key (BlockKey h) = block_key h"
| "encode_key (TxKey h) = tx_key h"
| "encode_key (ContractKey a) = contract_key a"
| "encode_key (StorageKey a k) = storage_key a k"

primrec db_key_wf :: "db_key \<Rightarrow> bool" where
  "db_key_wf (AccountKey a) = address_wf a"
| "db_key_wf (BlockKey h) = True"
| "db_key_wf (TxKey h) = hash_wf h"
| "db_key_wf (ContractKey a) = address_wf a"
| "db_key_wf (StorageKey a k) = (address_wf a \<and> hash_wf k)"

lemmas key_defs = account_key_def block_key_def tx_key_def contract_key_def storage_key_def

text \<open>
  The five kinds of records share one key space without clashes: the encodings of two keys
  (account, block, transaction, code, storage slot) are equal only if the keys are.
\<close>
theorem encode_key_injective:
  assumes "db_key_wf k" and "db_key_wf k'"
  shows "encode_key k = encode_key k' \<longleftrightarrow> k = k'"
  using assms
  by (cases k; cases k')
    (auto simp: key_defs address_wf_def hash_wf_def intro: address.expand hash.expand)

lemma account_key_inject:
  "address_wf a \<Longrightarrow> address_wf b \<Longrightarrow> account_key a = account_key b \<longleftrightarrow> a = b"
  by (auto simp: account_key_def intro: address.expand)

theorem encode_key_injective_witness:
  "encode_key (AccountKey (Address (replicate 20 0))) \<noteq> encode_key (TxKey hash_zero)"
  using encode_key_injective [of "AccountKey (Address (replicate 20 0))" "TxKey hash_zero"]
  by (simp add: address_wf_def)

subsection \<open>The contract of a database\<close>

definition apply_change :: "bytes \<times> bytes option \<Rightarrow> (bytes \<rightharpoonup> bytes) \<Rightarrow> (bytes \<rightharpoonup> bytes)" where
  "apply_change = (\<lambda>(k, v) m. m(k := v))"

locale database =
  fixes D :: "'d db_ops" and dwf :: "'d \<Rightarrow> bool"
  assumes put_ok: "dwf d \<Longrightarrow> db_put D k v d = (Ok u, d') \<Longrightarrow>
      dwf d' \<and> db_get D d' = (db_get D d)(k \<mapsto> v)"
    and delete_ok: "dwf d \<Longrightarrow> db_delete D k d = (Ok u, d') \<Longrightarrow>
      dwf d' \<and> db_get D d' = (db_get D d)(k := None)"
    and batch_ok: "dwf d \<Longrightarrow> db_batch_write D b d = (Ok u, d') \<Longrightarrow>
      dwf d' \<and> db_get D d' = fold apply_change b (db_get D d)"
    and batch_err: "dwf d \<Longrightarrow> db_batch_write D b d = (Err e, d') \<Longrightarrow>
      dwf d' \<and> db_get D d' = db_get D d"
begin

lemma commit_spec:
  assumes "dwf (ss_db ss)"
  shows "case commit D ss of
      (Ok _, ss') \<Rightarrow> dwf (ss_db ss') \<and> ss_pending ss' = [] \<and> ss_cache ss' = ss_cache ss \<and>
        db_get D (ss_db ss') = fold apply_change (ss_pending ss) (db_get D (ss_db ss))
    | (Err _, ss') \<Rightarrow> dwf (ss_db ss') \<and> ss_pending ss' = [] \<and> ss_cache ss' = ss_cache ss \<and>
        db_get D (ss_db ss') = db_get D (ss_db ss)"
proof (cases "ss_pending ss = []")
  case True
  then show ?thesis using assms by (simp add: commit_def)
next
  case False
  obtain r d where b: "db_batch_write D (ss_pending ss) (ss_db ss) = (r, d)" by fastforce
  show ?thesis
  proof (cases r)
    case (Inl e)
    then show ?thesis using False b batch_err [OF assms, of _ e] by (simp add: commit_def)
  next
    case (Inr u)
    then show ?thesis using False b batch_ok [OF assms, of _ u] by (simp add: commit_def)
  qed
qed

lemma put_then_commit:
  assumes "dwf (ss_db ss)" and "commit D (push_pending k v ss) = (Ok u, ss')"
  shows "db_get D (ss_db ss') k = Some v"
  using commit_spec [of "push_pending k v ss"] assms by (simp add: push_pending_def apply_change_def)

end

text \<open>
  A database whose \<open>iterator\<close> returns exactly the entries under the prefix, which is what
  \<open>StateSnapshot::create\<close> relies on when it slices the keys.
\<close>

locale prefix_database = database +
  assumes iterator_iff: "dwf d \<Longrightarrow>
      (k, v) \<in> set (db_iterator D d p) \<longleftrightarrow> db_get D d k = Some v \<and> prefix p k"
begin

lemma create_returns:
  assumes "dwf (ss_db ss)"
    and "\<And>k v. db_get D (ss_db ss) k = Some v \<Longrightarrow> prefix (ascii ''acc:'') k \<Longrightarrow> length k = 24"
  shows "snapshot_create D C now ss height \<noteq> None"
proof -
  have "collect_accounts C items \<noteq> None" if "\<forall>(k, v) \<in> set items. length k = 24" for items
    using that by (induction C items rule: collect_accounts.induct) (auto split: option.splits)
  moreover have "\<forall>(k, v) \<in> set (db_iterator D (ss_db ss) (ascii ''acc:'')). length k = 24"
    using assms(2) iterator_iff [OF assms(1)] by fast
  ultimately show ?thesis unfolding snapshot_create_def by (auto split: option.splits)
qed

end

lemma fold_mem_write_one: "mem_get (fold mem_write_one b d) = fold apply_change b (mem_get d)"
proof (induction b arbitrary: d)
  case (Cons x b)
  have "mem_get (mem_write_one x d) = apply_change x (mem_get d)"
    by (auto simp: mem_write_one_def apply_change_def mem_get_def fun_eq_iff split: option.splits prod.splits)
  with Cons show ?case by simp
qed simp

lemma mem_write_wf: "hm_wf d \<Longrightarrow> hm_wf (fold mem_write_one b d)"
  by (induction b arbitrary: d) (auto simp: mem_write_one_def split: option.splits)

lemma memory_db_simps [simp]:
  "db_get memory_db = mem_get" "db_put memory_db = mem_put" "db_delete memory_db = mem_delete"
  "db_batch_write memory_db = mem_batch_write" "db_iterator memory_db = mem_iterator"
  by (simp_all add: memory_db_def)

interpretation mem: prefix_database memory_db hm_wf
  by unfold_locales
    (auto simp: mem_put_def mem_delete_def mem_batch_write_def fold_mem_write_one mem_write_wf
      mem_iterator_def hm_in_set_get, auto simp: mem_get_def fun_eq_iff)

subsection \<open>The contract of the cache\<close>

locale lru_cache =
  fixes L :: "'c lru_ops"
  assumes new: "fst (lru_get L k (lru_new L n)) = None"
    and put_same: "fst (lru_get L k (lru_put L k a c)) = Some a"
    and put_other: "k \<noteq> h \<Longrightarrow> fst (lru_get L k (lru_put L h a c)) \<in> {None, fst (lru_get L k c)}"
    and get_keeps: "fst (lru_get L k (snd (lru_get L h c))) = fst (lru_get L k c)"
begin

lemma put_caches:
  "put_account L C a acc ss = (Ok u, ss') \<Longrightarrow> fst (lru_get L (account_hash C a) (ss_cache ss')) = Some acc"
  using put_same [of "account_hash C a" acc "ss_cache ss"]
  by (auto simp: put_account_def push_pending_def split: option.splits)

lemma get_account_hit:
  "fst (lru_get L (account_hash C a) (ss_cache ss)) = Some acc \<Longrightarrow> fst (get_account D L C a ss) = Some acc"
  by (auto simp: get_account_def split: option.splits prod.splits)

lemma get_account_cold:
  assumes "fst (lru_get L (account_hash C a) (ss_cache ss)) = None"
  shows "fst (get_account D L C a ss) = Option.bind (db_get D (ss_db ss) (account_key a)) (de_account C)"
  using assms by (auto simp: get_account_def split: option.splits prod.splits)

end

text \<open>
  A bounded cache that satisfies the contract: the list of its entries, most recent first, cut to
  its capacity (at least one).
\<close>

definition list_lru :: "(nat \<times> (hash \<times> account) list) lru_ops" where
  "list_lru =
     \<lparr>lru_new = (\<lambda>n. (n, [])),
      lru_get = (\<lambda>h (n, c). case map_of c h of None \<Rightarrow> (None, (n, c))
                             | Some a \<Rightarrow> (Some a, (n, (h, a) # AList.delete h c))),
      lru_put = (\<lambda>h a (n, c). (n, take (max 1 n) ((h, a) # AList.delete h c)))\<rparr>"

lemma map_of_take: "map_of (take n xs) k = None \<or> map_of (take n xs) k = map_of xs k"
proof -
  have "map_of xs k = map_of (take n xs @ drop n xs) k" by simp
  then show ?thesis by (simp only: map_of_append map_add_def) (simp split: option.splits)
qed

interpretation list_lru: lru_cache list_lru
proof
  fix k h :: hash and c :: "nat \<times> (hash \<times> account) list" and a n
  show "fst (lru_get list_lru k (lru_new list_lru n)) = None"
    by (simp add: list_lru_def)
  obtain m xs where c: "c = (m, xs)" by (cases c)
  show "fst (lru_get list_lru k (lru_put list_lru k a c)) = Some a"
    by (cases "max 1 m") (auto simp: list_lru_def c)
  show "fst (lru_get list_lru k (snd (lru_get list_lru h c))) = fst (lru_get list_lru k c)"
    by (auto simp: list_lru_def c delete_conv' split: option.splits)
  assume "k \<noteq> h"
  have get: "fst (lru_get list_lru k (j, ys)) = map_of ys k" for j ys
    by (auto simp: list_lru_def split: option.splits)
  have "lru_put list_lru h a c = (m, take (max 1 m) ((h, a) # AList.delete h xs))"
    by (simp add: list_lru_def c)
  then show "fst (lru_get list_lru k (lru_put list_lru h a c)) \<in> {None, fst (lru_get list_lru k c)}"
    using map_of_take [of "max 1 m" "(h, a) # AList.delete h xs" k] \<open>k \<noteq> h\<close>
    unfolding c by (simp only: get) (auto simp: delete_conv')
qed

subsection \<open>Properties of the state storage\<close>

lemma commit_memory_ok: "commit memory_db ss = (Ok (), snd (commit memory_db ss))"
  by (simp add: commit_def mem_batch_write_def)

lemma commit_mem_spec:
  assumes "hm_wf (ss_db ss)"
  shows "fst (commit memory_db ss) = Ok () \<and> ss_pending (snd (commit memory_db ss)) = [] \<and>
    mem_get (ss_db (snd (commit memory_db ss))) = fold apply_change (ss_pending ss) (mem_get (ss_db ss)) \<and>
    hm_wf (ss_db (snd (commit memory_db ss)))"
proof -
  have "fst (commit memory_db ss) = Ok ()"
    by (simp add: commit_def mem_batch_write_def)
  with mem.commit_spec [OF assms] show ?thesis
    by (auto split: prod.splits sum.splits)
qed

text \<open>
  A commit to the in-memory database succeeds, applies the pending changes in the order they
  were made (a deletion removes the key) and empties the list of pending changes.
\<close>
theorem commit_memory:
  assumes "hm_wf (ss_db ss)"
  shows "fst (commit memory_db ss) = Ok () \<and> ss_pending (snd (commit memory_db ss)) = [] \<and>
    mem_get (ss_db (snd (commit memory_db ss))) = fold apply_change (ss_pending ss) (mem_get (ss_db ss)) \<and>
    hm_wf (ss_db (snd (commit memory_db ss)))"
  using assms by (rule commit_mem_spec)

theorem commit_memory_witness:
  "mem_get (ss_db (snd (commit memory_db \<lparr>ss_db = [([1], [2]), ([3], [4])], ss_cache = (),
     ss_pending = [([1], None), ([5], Some [6])]\<rparr>))) = [[3] \<mapsto> [4], [5] \<mapsto> [6]]"
  using commit_memory [of "\<lparr>ss_db = [([1], [2]), ([3], [4])], ss_cache = (),
     ss_pending = [([1], None), ([5], Some [6])]\<rparr>"]
  by (auto simp: hm_wf_def apply_change_def mem_get_def hm_get_def fun_eq_iff)

lemma account_durable_facts:
  assumes "lru_cache L" and "database D dwf" and "dwf (ss_db ss)"
    and "ser_account C acc = Some b" and "de_account C b = Some acc"
    and "put_account L C a acc ss = (Ok u, ss1)" and "commit D ss1 = (Ok u, ss2)"
  shows "fst (get_account D L C a (storage_new L (ss_db ss2) n)) = Some acc"
proof -
  let ?ss = "ss\<lparr>ss_cache := lru_put L (account_hash C a) acc (ss_cache ss)\<rparr>"
  have "commit D (push_pending (account_key a) b ?ss) = (Ok u, ss2)"
    using assms(4,6,7) by (simp add: put_account_def)
  then have "db_get D (ss_db ss2) (account_key a) = Some b"
    by (rule database.put_then_commit [OF assms(2), rotated]) (simp add: assms(3))
  moreover have "fst (get_account D L C a (storage_new L (ss_db ss2) n))
      = Option.bind (db_get D (ss_db ss2) (account_key a)) (de_account C)"
    using lru_cache.get_account_cold [OF assms(1), of C a "storage_new L (ss_db ss2) n"]
    by (simp add: storage_new_def lru_cache.new [OF assms(1)])
  ultimately show ?thesis using assms(5) by simp
qed

text \<open>
  Durability: once an account is put and the commit succeeds, a state storage opened anew over
  the same database (with an empty cache) reads that account, for every database and cache that
  meet their contracts.
\<close>
theorem account_durable:
  assumes "lru_cache L" and "database D dwf" and "dwf (ss_db ss)"
    and "ser_account C acc = Some b" and "de_account C b = Some acc"
    and "put_account L C a acc ss = (Ok u, ss1)" and "commit D ss1 = (Ok u, ss2)"
  shows "fst (get_account D L C a (storage_new L (ss_db ss2) n)) = Some acc"
  by (rule account_durable_facts [OF assms])

definition sample_codec :: store_ext where
  "sample_codec = \<lparr>se_ext = sample_ext,
     ser_account = (\<lambda>acc. if acc = account_default then Some [0] else None),
     de_account = (\<lambda>b. if b = [0] then Some account_default else None),
     ser_block = (\<lambda>b. Some []), de_block = (\<lambda>b. None), de_transaction = (\<lambda>b. None)\<rparr>"

theorem account_durable_witness:
  "fst (get_account memory_db list_lru sample_codec (Address [7])
     (storage_new list_lru (ss_db (snd (commit memory_db (snd (put_account list_lru sample_codec
        (Address [7]) account_default (storage_new list_lru mem_new 2)))))) 2)) = Some account_default"
  by (rule account_durable [OF list_lru.lru_cache_axioms mem.database_axioms,
        where ss = "storage_new list_lru mem_new 2" and b = "[0]" and u = "()", OF _ _ _ _ commit_memory_ok])
    (simp_all add: sample_codec_def storage_new_def mem_new_def put_account_def)

text \<open>
  Rollback drops the pending changes and leaves the database as it was, but not the cache: an
  account that was put and rolled back is still what \<open>get_account\<close> returns.
\<close>
theorem rollback_keeps_cached_account:
  assumes "lru_cache L" and "put_account L C a acc ss = (Ok u, ss1)"
  shows "ss_pending (rollback ss1) = [] \<and> ss_db (rollback ss1) = ss_db ss \<and>
    fst (get_account D L C a (rollback ss1)) = Some acc"
proof -
  have "put_account L C a acc ss = (Ok u, ss1) \<Longrightarrow> ss_db ss1 = ss_db ss"
    by (auto simp: put_account_def push_pending_def split: option.splits)
  moreover have "fst (get_account D L C a (rollback ss1)) = Some acc"
    using lru_cache.put_caches [OF assms] by (intro lru_cache.get_account_hit [OF assms(1)]) (simp add: rollback_def)
  ultimately show ?thesis using assms(2) by (simp add: rollback_def)
qed

theorem rollback_keeps_cached_account_witness:
  "fst (get_account memory_db list_lru sample_codec (Address [7])
     (rollback (snd (put_account list_lru sample_codec (Address [7]) account_default
        (storage_new list_lru mem_new 2))))) = Some account_default"
  using rollback_keeps_cached_account [OF list_lru.lru_cache_axioms,
      of sample_codec "Address [7]" account_default "storage_new list_lru mem_new 2" "()"]
  by (simp add: put_account_def sample_codec_def)

text \<open>
  The state root hashes only the pending changes: right after any commit it is the hash of the
  empty string, whatever the database holds, and so is the root of a snapshot taken then.
\<close>
theorem state_root_after_commit:
  "state_root C (snd (commit D ss)) = hash_new (sha3_256 (se_ext C)) [] \<and>
   map_option snap_state_root (snapshot_create D C now (snd (commit D ss)) h)
     \<in> {None, Some (hash_new (sha3_256 (se_ext C)) [])}"
  by (auto simp: state_root_def commit_def snapshot_create_def split: prod.splits option.splits)

subsection \<open>Snapshots\<close>

definition stored_account ::
    "'d db_ops \<Rightarrow> store_ext \<Rightarrow> ('d, 'c) state_storage \<Rightarrow> address \<Rightarrow> account option" where
  "stored_account D C ss a = Option.bind (db_get D (ss_db ss) (account_key a)) (de_account C)"

lemma account_key_of:
  assumes "prefix (ascii ''acc:'') k" and "length k = 24"
  shows "account_key (Address (take 20 (drop 4 k))) = k \<and> address_wf (Address (take 20 (drop 4 k)))"
  using assms by (auto simp: account_key_def address_wf_def prefix_def)

lemma collect_accounts_spec:
  assumes "\<forall>(k, v) \<in> set items. prefix (ascii ''acc:'') k \<and> length k = 24"
    and "distinct (map fst items)"
  shows "\<exists>accs. collect_accounts C items = Some accs \<and> distinct (map fst accs) \<and>
    (\<forall>a acc. (a, acc) \<in> set accs \<longleftrightarrow>
       address_wf a \<and> (\<exists>v. (account_key a, v) \<in> set items \<and> de_account C v = Some acc))"
  using assms
proof (induction items)
  case (Cons x items)
  obtain k v where x: "x = (k, v)" by (cases x)
  let ?a = "Address (take 20 (drop 4 k))"
  have k: "account_key ?a = k" "address_wf ?a" "length k = 24"
    using Cons.prems(1) account_key_of [of k] by (auto simp: x)
  have k_iff: "account_key a = k \<longleftrightarrow> a = ?a" if "address_wf a" for a
    using account_key_inject [OF that k(2)] k(1) by simp
  from Cons obtain accs where accs: "collect_accounts C items = Some accs" "distinct (map fst accs)"
    "\<And>a acc. (a, acc) \<in> set accs \<longleftrightarrow>
       address_wf a \<and> (\<exists>v. (account_key a, v) \<in> set items \<and> de_account C v = Some acc)"
    by auto
  show ?case
  proof (cases "de_account C v")
    case None
    then show ?thesis using accs by (auto simp: x)
  next
    case (Some acc)
    have nk: "(k, w) \<notin> set items" for w using Cons.prems(2) by (force simp: x)
    then have na: "(?a, w) \<notin> set accs" for w using accs(3) [of ?a] k(1) by simp
    have "(b, w) \<in> set ((?a, acc) # accs) \<longleftrightarrow>
        address_wf b \<and> (\<exists>v. (account_key b, v) \<in> set (x # items) \<and> de_account C v = Some w)" for b w
    proof (cases "b = ?a")
      case True
      then show ?thesis using k Some nk na by (auto simp: x)
    next
      case False
      then show ?thesis using accs(3) k_iff [of b] by (auto simp: x)
    qed
    moreover have "distinct (map fst ((?a, acc) # accs))" using accs(2) na by force
    moreover have "collect_accounts C (x # items) = Some ((?a, acc) # accs)"
      using accs(1) Some k(3) by (simp add: x)
    ultimately show ?thesis by blast
  qed
qed simp

lemma put_accounts_spec:
  assumes "\<forall>(a, acc) \<in> set accs. ser_account C acc = Some (g acc)"
  shows "\<exists>cache. put_accounts L C accs ss = (Ok (), ss\<lparr>ss_cache := cache,
    ss_pending := ss_pending ss @ map (\<lambda>(a, acc). (account_key a, Some (g acc))) accs\<rparr>)"
  using assms
proof (induction accs arbitrary: ss)
  case Nil
  show ?case by (intro exI [of _ "ss_cache ss"]) simp
next
  case (Cons x accs)
  obtain a acc where x: "x = (a, acc)" by (cases x)
  have "\<forall>(a, acc) \<in> set accs. ser_account C acc = Some (g acc)" using Cons.prems by simp
  from Cons.IH [OF this, of "push_pending (account_key a) (g acc)
      (ss\<lparr>ss_cache := lru_put L (account_hash C a) acc (ss_cache ss)\<rparr>)"]
  show ?case using Cons.prems by (auto simp: x put_account_def push_pending_def)
qed

lemma fold_apply_distinct:
  "distinct (map fst ps) \<Longrightarrow>
    fold apply_change (map (\<lambda>(k, v). (k, Some v)) ps) m = m ++ map_of ps"
proof (induction ps arbitrary: m)
  case (Cons p ps)
  obtain k v where p: "p = (k, v)" by (cases p)
  have "map_of ps k = None" using Cons.prems by (simp add: p map_of_eq_None_iff)
  with Cons show ?case by (auto simp: p apply_change_def map_add_def fun_eq_iff split: option.splits)
qed simp



text \<open>
  Pruning reports the number of heights below \<open>current_height - keep_blocks\<close> (0 if that is
  negative) and deletes nothing: database, cache and pending changes stay as they were.
\<close>
theorem prune_deletes_nothing:
  "prune_old_blocks keep_blocks current_height ss =
    (Ok (if current_height < keep_blocks then 0 else current_height - keep_blocks), ss)"
proof -
  have "fold (\<lambda>height pruned. pruned + 1) xs p = p + word_of_nat (length xs)" for xs :: "nat list" and p :: u64
    by (induction xs arbitrary: p) simp_all
  then show ?thesis by (simp add: prune_old_blocks_def saturating_sub_def)
qed

end
