(* ===== verification/Privacy.thy ===== *)
theory Privacy
  imports Complex_Main Vm
begin

unbundle bit_operations_syntax

text \<open>
  \<^verbatim>\<open>src/src/privacy/mod.rs\<close>: the constraint system of a private transfer, the proof manager, stealth
  addresses, the encrypted mempool and the builder of private transactions.

  The circuit is generic in the field \<open>'f\<close>; \<open>generate_constraints\<close> returns the equations that the
  source enforces, evaluated at the assignment, so that an assignment satisfies the circuit when
  both sides of each agree. Groth16 with its keys and proofs (record \<open>groth\<close>), ChaCha20-Poly1305
  and \<^verbatim>\<open>bincode\<close> (record \<open>mempool_ext\<close>) are parameters. \<open>verify_proof\<close> reads \<open>public_inputs\<close> from a
  variable that shadows its argument and has no such field; the model reads the argument's, in code
  that is never reached because \<open>deserialize_proof\<close> always fails.
\<close>

subsection \<open>The circuit\<close>

definition rs_bind :: "'a rs_result \<Rightarrow> ('a \<Rightarrow> 'b rs_result) \<Rightarrow> 'b rs_result" where
  "rs_bind r f = (case r of Err e \<Rightarrow> Err e | Ok x \<Rightarrow> f x)"

lemma rs_bind_simps [simp]: "rs_bind (Err e) f = Err e" "rs_bind (Ok x) f = f x"
  by (simp_all add: rs_bind_def)

record 'f circuit =
  sender_balance :: "'f option"
  transfer_amount :: "'f option"
  receiver_secret :: "'f option"
  sender_secret :: "'f option"
  sender_commitment :: "'f option"
  receiver_commitment :: "'f option"
  circuit_nullifier :: "'f option"
  circuit_merkle_root :: "'f option"

definition assigned :: "'f option \<Rightarrow> 'f rs_result" where
  "assigned x = (case x of None \<Rightarrow> Err ''AssignmentMissing'' | Some v \<Rightarrow> Ok v)"

definition generate_constraints :: "'f :: field circuit \<Rightarrow> ('f \<times> 'f) list rs_result" where
  "generate_constraints c =
     rs_bind (assigned (sender_balance c)) (\<lambda>balance.
     rs_bind (assigned (transfer_amount c)) (\<lambda>amount.
     rs_bind (assigned (sender_secret c)) (\<lambda>s_secret.
     rs_bind (assigned (receiver_secret c)) (\<lambda>r_secret.
     rs_bind (assigned (sender_commitment c)) (\<lambda>s_commitment.
     rs_bind (assigned (receiver_commitment c)) (\<lambda>r_commitment.
     rs_bind (assigned (circuit_nullifier c)) (\<lambda>nullifier.
     rs_bind (assigned (circuit_merkle_root c)) (\<lambda>root.
       Ok [(s_secret * balance, s_commitment), (r_secret * amount, r_commitment),
           (s_secret * 1, nullifier), (root, root)]))))))))"

definition satisfied :: "'f :: field circuit \<Rightarrow> bool" where
  "satisfied c = (case generate_constraints c of Err _ \<Rightarrow> False | Ok eqs \<Rightarrow> list_all (\<lambda>(l, r). l = r) eqs)"

subsection \<open>The proof manager\<close>

record ('f, 'pk, 'vk, 'pf) groth =
  groth_setup :: "'f circuit \<Rightarrow> ('pk \<times> 'vk) rs_result"
  groth_prove :: "'pk \<Rightarrow> 'f circuit \<Rightarrow> bytes \<Rightarrow> 'pf rs_result"
  groth_verify :: "'vk \<Rightarrow> 'f list \<Rightarrow> 'pf \<Rightarrow> bool rs_result"

record ('pk, 'vk) zk_system =
  proving_key :: "'pk option"
  verifying_key :: "'vk option"
  proof_count :: u64
  verification_count :: u64

record zk_proof =
  proof_data :: bytes
  public_inputs :: "u128 list"

definition zk_system_new :: "('pk, 'vk) zk_system" where
  "zk_system_new = \<lparr>proving_key = None, verifying_key = None, proof_count = 0, verification_count = 0\<rparr>"

definition dummy_circuit :: "'f :: field circuit" where
  "dummy_circuit =
     \<lparr>sender_balance = Some 1000, transfer_amount = Some 100, receiver_secret = Some 42,
      sender_secret = Some 123, sender_commitment = Some 123000, receiver_commitment = Some 4200,
      circuit_nullifier = Some 123, circuit_merkle_root = Some 0\<rparr>"

definition zk_setup ::
    "('f :: field, 'pk, 'vk, 'pf) groth \<Rightarrow> ('pk, 'vk) zk_system \<Rightarrow> unit rs_result \<times> ('pk, 'vk) zk_system" where
  "zk_setup G z =
     (case groth_setup G dummy_circuit of
        Err e \<Rightarrow> (Err (''Setup failed: '' @ e), z)
      | Ok (pk, vk) \<Rightarrow> (Ok (), z\<lparr>proving_key := Some pk, verifying_key := Some vk\<rparr>))"

definition transfer_circuit :: "u128 \<Rightarrow> u128 \<Rightarrow> u64 \<Rightarrow> u64 \<Rightarrow> 'f :: field circuit" where
  "transfer_circuit balance amount s_secret r_secret =
     \<lparr>sender_balance = Some (of_nat (unat balance)), transfer_amount = Some (of_nat (unat amount)),
      receiver_secret = Some (of_nat (unat r_secret)), sender_secret = Some (of_nat (unat s_secret)),
      sender_commitment = Some (of_nat (unat (ucast s_secret * balance))),
      receiver_commitment = Some (of_nat (unat (ucast r_secret * amount))),
      circuit_nullifier = Some (of_nat (unat s_secret)), circuit_merkle_root = Some 0\<rparr>"

definition serialize_proof :: "'pf \<Rightarrow> bytes" where
  "serialize_proof p = replicate 192 1"

definition deserialize_proof :: "bytes \<Rightarrow> 'pf rs_result" where
  "deserialize_proof data = Err ''Deserialization not fully implemented''"

definition prove_private_transfer ::
    "('f :: field, 'pk, 'vk, 'pf) groth \<Rightarrow> bytes \<Rightarrow> u128 \<Rightarrow> u128 \<Rightarrow> u64 \<Rightarrow> u64 \<Rightarrow> bytes \<Rightarrow> ('pk, 'vk) zk_system
      \<Rightarrow> zk_proof rs_result \<times> ('pk, 'vk) zk_system" where
  "prove_private_transfer G seed balance amount s_secret r_secret merkle z =
     (case proving_key z of
        None \<Rightarrow> (Err ''Proving key not initialized'', z)
      | Some pk \<Rightarrow>
          (case groth_prove G pk (transfer_circuit balance amount s_secret r_secret) seed of
             Err e \<Rightarrow> (Err (''Proof generation failed: '' @ e), z)
           | Ok p \<Rightarrow>
               (Ok \<lparr>proof_data = serialize_proof p,
                    public_inputs = [ucast s_secret * balance, ucast r_secret * amount, ucast s_secret, 0]\<rparr>,
                z\<lparr>proof_count := proof_count z + 1\<rparr>)))"

definition verify_proof ::
    "('f :: field, 'pk, 'vk, 'pf) groth \<Rightarrow> zk_proof \<Rightarrow> ('pk, 'vk) zk_system \<Rightarrow> bool rs_result \<times> ('pk, 'vk) zk_system" where
  "verify_proof G proof z =
     (case verifying_key z of
        None \<Rightarrow> (Err ''Verifying key not initialized'', z)
      | Some vk \<Rightarrow>
          (case deserialize_proof (proof_data proof) of
             Err e \<Rightarrow> (Err (''Failed to deserialize proof: '' @ [CHR 0x22] @ e @ [CHR 0x22]), z)
           | Ok p \<Rightarrow>
               (case groth_verify G vk (map (\<lambda>x. of_nat (unat x)) (public_inputs proof)) p of
                  Err e \<Rightarrow> (Err (''Verification failed: '' @ e), z)
                | Ok result \<Rightarrow> (Ok result, z\<lparr>verification_count := verification_count z + 1\<rparr>))))"

record zk_stats =
  proofs_generated :: u64
  proofs_verified :: u64

definition get_zk_stats :: "('pk, 'vk) zk_system \<Rightarrow> zk_stats" where
  "get_zk_stats z = \<lparr>proofs_generated = proof_count z, proofs_verified = verification_count z\<rparr>"

subsection \<open>Stealth addresses\<close>

record stealth_generator =
  view_key_base :: bytes
  spend_key_base :: bytes
  nonce_counter :: u64

definition stealth_generator_new :: "bytes \<Rightarrow> bytes \<Rightarrow> stealth_generator" where
  "stealth_generator_new vk sk = \<lparr>view_key_base = vk, spend_key_base = sk, nonce_counter = 0\<rparr>"

definition ephemeral_key :: "(bytes \<Rightarrow> bytes) \<Rightarrow> stealth_generator \<Rightarrow> u64 \<Rightarrow> bytes" where
  "ephemeral_key sha g nonce = sha (spend_key_base g @ u64_le nonce)"

definition generate :: "(bytes \<Rightarrow> bytes) \<Rightarrow> stealth_generator \<Rightarrow> (stealth_address \<times> bytes) \<times> stealth_generator" where
  "generate sha g =
     (let nonce = nonce_counter g + 1
      in ((stealth_derive sha (view_key_base g) (spend_key_base g) nonce, ephemeral_key sha g nonce),
          g\<lparr>nonce_counter := nonce\<rparr>))"

definition tag_at :: "(bytes \<Rightarrow> bytes) \<Rightarrow> stealth_generator \<Rightarrow> u64 \<Rightarrow> bytes" where
  "tag_at sha g nonce = encrypted_view_tag (stealth_derive sha (view_key_base g) (spend_key_base g) nonce)"

definition check_ownership :: "(bytes \<Rightarrow> bytes) \<Rightarrow> stealth_generator \<Rightarrow> stealth_address \<Rightarrow> bytes option" where
  "check_ownership sha g stealth =
     (case List.find (\<lambda>n. tag_at sha g (word_of_nat n) = encrypted_view_tag stealth) [0 ..< 10000] of
        None \<Rightarrow> None
      | Some n \<Rightarrow> Some (ephemeral_key sha g (word_of_nat n)))"

subsection \<open>The encrypted mempool\<close>

record encrypted_tx =
  et_ciphertext :: bytes
  et_nonce :: bytes
  et_sender_pubkey :: bytes
  et_gas_price_commitment :: bytes
  et_timestamp :: u64

record mempool_ext =
  chacha_decrypt :: "bytes \<Rightarrow> bytes \<Rightarrow> bytes \<Rightarrow> bytes option"
  de_transaction :: "bytes \<Rightarrow> transaction option"

record encrypted_mempool =
  encrypted_txs :: "encrypted_tx list"
  decryption_threshold :: nat

definition encrypted_mempool_new :: "nat \<Rightarrow> encrypted_mempool" where
  "encrypted_mempool_new threshold = \<lparr>encrypted_txs = [], decryption_threshold = threshold\<rparr>"

definition add_encrypted_tx :: "encrypted_tx \<Rightarrow> encrypted_mempool \<Rightarrow> encrypted_mempool" where
  "add_encrypted_tx tx mp = mp\<lparr>encrypted_txs := encrypted_txs mp @ [tx]\<rparr>"

text \<open>\<open>key[i] ^= byte\<close> for the positions that the key and the share have in common.\<close>

fun xor_into :: "bytes \<Rightarrow> bytes \<Rightarrow> bytes" where
  "xor_into (k # ks) (b # bs) = (k XOR b) # xor_into ks bs"
| "xor_into ks bs = ks"

definition combine_shares :: "bytes list \<Rightarrow> bytes" where
  "combine_shares shares = fold (\<lambda>share key. xor_into key share) shares (replicate 32 0)"

definition decrypt_tx :: "mempool_ext \<Rightarrow> bytes \<Rightarrow> encrypted_tx \<Rightarrow> transaction option" where
  "decrypt_tx M key t =
     (case chacha_decrypt M key (et_nonce t) (et_ciphertext t) of
        None \<Rightarrow> None
      | Some plaintext \<Rightarrow> de_transaction M plaintext)"

definition decrypt_batch ::
    "mempool_ext \<Rightarrow> bytes list \<Rightarrow> encrypted_mempool \<Rightarrow> transaction list rs_result" where
  "decrypt_batch M shares mp =
     (if length shares < decryption_threshold mp then Err ''Insufficient validator shares''
      else Ok (List.map_filter (decrypt_tx M (combine_shares shares)) (encrypted_txs mp)))"

definition encrypted_size :: "encrypted_mempool \<Rightarrow> nat" where
  "encrypted_size mp = length (encrypted_txs mp)"

subsection \<open>The transaction builder\<close>

text \<open>\<open>zip\<close> of the 16 bytes of the amount with the 8 bytes of the secret, repeated.\<close>

definition encrypt_amount :: "u128 \<Rightarrow> u64 \<Rightarrow> bytes" where
  "encrypt_amount amount secret =
     map (\<lambda>(i, a). a XOR u64_le secret ! (i mod 8)) (zip [0 ..< 16] (u128_le amount))"

definition build_private_transfer ::
    "('f :: field, 'pk, 'vk, 'pf) groth \<Rightarrow> bytes \<Rightarrow> u64 \<Rightarrow> address \<Rightarrow> stealth_address \<Rightarrow> u128 \<Rightarrow> u128 \<Rightarrow> u64 \<Rightarrow> u64
      \<Rightarrow> u128 \<Rightarrow> u64 \<Rightarrow> u16 \<Rightarrow> ('pk, 'vk) zk_system \<Rightarrow> transaction rs_result \<times> ('pk, 'vk) zk_system" where
  "build_private_transfer G seed now from to_stealth amount balance s_secret r_secret gas_price gas_limit shard_id z =
     (case prove_private_transfer G seed balance amount s_secret r_secret (replicate 32 0) z of
        (Err e, z') \<Rightarrow> (Err e, z')
      | (Ok p, z') \<Rightarrow>
          (Ok \<lparr>tx_type = PrivateTransfer, tx_nonce = 0, tx_from = from, tx_to = None, tx_value = 0,
               tx_gas_price = gas_price, tx_gas_limit = gas_limit, tx_data = [], tx_shard_id = shard_id,
               tx_timestamp = now, tx_signature = [], tx_stealth_address = Some to_stealth,
               tx_zk_proof = Some (proof_data p), tx_encrypted_amount = Some (encrypt_amount amount s_secret)\<rparr>,
           z'))"

subsection \<open>What a proof establishes\<close>

lemma satisfied_iff:
  "satisfied c \<longleftrightarrow> (\<exists>b a rs ss sc rc n m. c = \<lparr>sender_balance = Some b, transfer_amount = Some a,
     receiver_secret = Some rs, sender_secret = Some ss, sender_commitment = Some sc,
     receiver_commitment = Some rc, circuit_nullifier = Some n, circuit_merkle_root = Some m\<rparr> \<and>
     ss * b = sc \<and> rs * a = rc \<and> ss = n)"
  by (cases c) (auto simp: satisfied_def generate_constraints_def assigned_def split: option.splits)

lemma of_nat_word_product:
  fixes s :: u64 and b :: u128
  assumes "inj_on (of_nat :: nat \<Rightarrow> 'f :: field) {..< 2 ^ 192}"
  shows "(of_nat (unat s) * of_nat (unat b) = (of_nat (unat (ucast s * b)) :: 'f)) \<longleftrightarrow> unat s * unat b < 2 ^ 128"
proof -
  have s: "unat s < 2 ^ LENGTH(64)" and b: "unat b < 2 ^ LENGTH(128)" by (rule unsigned_less)+
  then have "unat s * unat b < 2 ^ 64 * 2 ^ 128" by (intro mult_strict_mono) simp_all
  then have 1: "unat s * unat b < 2 ^ 192" by simp
  have "unat (ucast s * b) = unat s * unat b mod 2 ^ 128" by (simp add: unat_word_ariths)
  moreover have "unat s * unat b mod 2 ^ 128 < (2 :: nat) ^ 192"
    by (rule less_trans [OF mod_less_divisor]) simp_all
  ultimately have "unat (ucast s * b :: u128) < 2 ^ 192"
    and eq: "unat (ucast s * b :: u128) = unat s * unat b mod 2 ^ 128" by simp_all
  then have "(of_nat (unat s * unat b) = (of_nat (unat (ucast s * b :: u128)) :: 'f)) \<longleftrightarrow>
      unat s * unat b = unat (ucast s * b :: u128)"
    using 1 by (intro inj_on_eq_iff [OF assms]) (simp_all only: lessThan_iff)
  then have "(of_nat (unat s) * of_nat (unat b) = (of_nat (unat (ucast s * b)) :: 'f)) \<longleftrightarrow>
      unat s * unat b = unat s * unat b mod 2 ^ 128"
    unfolding of_nat_mult eq .
  then show ?thesis using mod_less_divisor [of "2 ^ 128" "unat s * unat b"] by auto
qed

text \<open>
  C39. The circuit that is proved for a transfer is satisfied exactly when the two products of
  secret and amount fit in 128 bits (in a field with at least \<open>2^192\<close> elements). Whether the
  balance covers the amount plays no role: an overdraft has a valid proof, and an honest transfer
  with large secrets has none.
\<close>
theorem transfer_circuit_satisfied:
  assumes "inj_on (of_nat :: nat \<Rightarrow> 'f :: field) {..< 2 ^ 192}"
  shows "satisfied (transfer_circuit balance amount s_secret r_secret :: 'f circuit) \<longleftrightarrow>
    unat s_secret * unat balance < 2 ^ 128 \<and> unat r_secret * unat amount < 2 ^ 128"
  using of_nat_word_product [OF assms, of s_secret balance] of_nat_word_product [OF assms, of r_secret amount]
  by (simp add: satisfied_iff transfer_circuit_def)

lemma inj_of_nat_rat: "inj_on (of_nat :: nat \<Rightarrow> rat) A"
  by (simp add: inj_on_def)

theorem transfer_circuit_satisfied_witness:
  "satisfied (transfer_circuit 10 1000 3 4 :: rat circuit)"
  using transfer_circuit_satisfied [OF inj_of_nat_rat, of 10 1000 3 4] by simp

text \<open>
  The public inputs of a proof give away what it hides: the third is the sender's secret, and
  the first divided by it is the sender's balance, unless the secret is 0 or their product wraps.
\<close>
theorem public_inputs_reveal:
  assumes "prove_private_transfer G seed balance amount s_secret r_secret mr z = (Ok p, z')"
    and "s_secret \<noteq> 0" and "unat s_secret * unat balance < 2 ^ 128"
  shows "unat (public_inputs p ! 2) = unat s_secret \<and>
    unat (public_inputs p ! 0) div unat (public_inputs p ! 2) = unat balance"
  using assms
  by (auto simp: prove_private_transfer_def unat_word_ariths unat_eq_0 split: option.splits sum.splits)

text \<open>
  No proof is ever accepted: \<open>verify_proof\<close> returns an error for every proof and every key,
  whatever the proof system, and its counter stays.
\<close>
theorem verify_proof_never_accepts:
  "\<exists>e. verify_proof G proof z = (Err e, z)"
  by (auto simp: verify_proof_def deserialize_proof_def split: option.splits)

subsection \<open>Stealth addresses\<close>

lemma find_unique:
  assumes "\<And>n. n < k \<Longrightarrow> P n \<longleftrightarrow> n = m"
  shows "List.find P [0 ..< k] = (if m < k then Some m else None)"
proof (cases "m < k")
  case True
  then have "List.find P [0 ..< k] = Some m"
    using assms by (auto simp: find_Some_iff intro!: exI [of _ m])
  with True show ?thesis by simp
next
  case False
  with assms show ?thesis by (auto simp: find_None_iff)
qed

text \<open>
  A generator recognises the addresses it made, with the key it gave out for them, as long as
  fewer than 10000 were made: the address number \<open>c + 1\<close> is found exactly when \<open>c + 1 < 10000\<close>
  (if the hash function does not collide on the view tags involved). Later ones are lost to the
  owner.
\<close>
theorem check_ownership_generate:
  assumes "inj_on (tag_at sha g) (word_of_nat ` {..< 10000} \<union> {nonce_counter g + 1})"
    and "nonce_counter g \<noteq> - 1"
  shows "check_ownership sha (snd (generate sha g)) (fst (fst (generate sha g))) =
    (if unat (nonce_counter g) + 1 < 10000 then Some (snd (fst (generate sha g))) else None)"
proof -
  let ?m = "nonce_counter g + 1"
  have "1 + nonce_counter g \<noteq> 0" using assms(2) by (simp add: add_eq_0_iff)
  then have m: "unat ?m = unat (nonce_counter g) + 1" by (simp add: unatSuc add.commute)
  have "tag_at sha g (word_of_nat n) = tag_at sha g ?m \<longleftrightarrow> n = unat ?m" if "n < 10000" for n
  proof -
    have "tag_at sha g (word_of_nat n) = tag_at sha g ?m \<longleftrightarrow> word_of_nat n = ?m"
      using that by (intro inj_on_eq_iff [OF assms(1)]) auto
    also have "\<dots> \<longleftrightarrow> n = unat ?m" using that by (auto simp: word_unat_eq_iff unat_of_nat)
    finally show ?thesis .
  qed
  then have "List.find (\<lambda>n. tag_at sha g (word_of_nat n) = tag_at sha g ?m) [0 ..< 10000] =
      (if unat ?m < 10000 then Some (unat ?m) else None)"
    by (intro find_unique) auto
  then have "check_ownership sha (snd (generate sha g)) (fst (fst (generate sha g))) =
      (if unat ?m < 10000 then Some (snd (fst (generate sha g))) else None)"
    by (simp add: check_ownership_def generate_def Let_def tag_at_def ephemeral_key_def)
  then show ?thesis unfolding m .
qed

theorem check_ownership_generate_witness:
  "check_ownership (\<lambda>b. b) (snd (generate (\<lambda>b. b) (stealth_generator_new [1] [2])))
     (fst (fst (generate (\<lambda>b. b) (stealth_generator_new [1] [2])))) = Some (2 # u64_le 1)"
proof -
  let ?g = "stealth_generator_new [1] [2]"
  have "tag_at (\<lambda>b. b) ?g n = tag_at (\<lambda>b. b) ?g m \<longleftrightarrow> n = m" for n m
    by (simp only: tag_at_def stealth_derive_def Let_def stealth_generator_new_def
        stealth_generator.simps stealth_address.simps append_Cons append_Nil list.inject u64_le_inject simp_thms)
  then have "inj (tag_at (\<lambda>b. b) ?g)" by (auto intro: injI)
  then have "inj_on (tag_at (\<lambda>b. b) ?g) (word_of_nat ` {..< 10000} \<union> {nonce_counter ?g + 1})"
    by (rule inj_on_subset) simp
  from check_ownership_generate [OF this] show ?thesis
    by (simp add: generate_def ephemeral_key_def stealth_generator_new_def)
qed

subsection \<open>Threshold decryption\<close>

lemma xor_into_commute: "xor_into (xor_into k a) b = xor_into (xor_into k b) a"
proof (induction k a arbitrary: b rule: xor_into.induct)
  case (1 k ks c cs)
  then show ?case by (cases b) (simp_all add: ac_simps)
qed (auto elim: xor_into.elims)

lemma xor_into_twice [simp]: "xor_into (xor_into k a) a = k"
  by (induction k a rule: xor_into.induct) (simp_all add: xor.assoc)

lemma fold_xor_append:
  "fold (\<lambda>share key. xor_into key share) shares (xor_into key s) =
    xor_into (fold (\<lambda>share key. xor_into key share) shares key) s"
  by (induction shares arbitrary: key) (simp_all add: xor_into_commute)

lemma combine_perm:
  "mset shares = mset shares' \<Longrightarrow> combine_shares shares = combine_shares shares'"
  unfolding combine_shares_def
  by (rule fold_permuted_eq [where P = "\<lambda>_. True"]) (simp_all add: xor_into_commute)

lemma combine_pair [simp]: "combine_shares (shares @ [s, s]) = combine_shares shares"
  by (simp add: combine_shares_def)

lemma combine_pairs: "combine_shares (shares @ replicate (2 * n) s) = combine_shares shares"
proof (induction n)
  case (Suc n)
  have "replicate (2 * Suc n) s = replicate (2 * n + 2) s" by simp
  then have "shares @ replicate (2 * Suc n) s = (shares @ replicate (2 * n) s) @ [s, s]"
    unfolding replicate_add by (simp add: numeral_2_eq_2)
  then show ?case using Suc by (simp only: combine_pair)
qed simp

text \<open>
  The threshold does not protect the key: whoever holds some shares, even none, reaches any
  threshold by adding the same share an even number of times, and gets the transactions that the
  XOR of the held shares decrypts. The order in which shares arrive does not matter.
\<close>
theorem threshold_padding:
  "(mset shares = mset shares' \<longrightarrow> decrypt_batch M shares mp = decrypt_batch M shares' mp) \<and>
   decrypt_batch M (shares @ replicate (2 * decryption_threshold mp) s) mp =
     Ok (List.map_filter (decrypt_tx M (combine_shares shares)) (encrypted_txs mp))"
  using combine_perm [of shares shares'] mset_eq_length [of shares shares']
  by (auto simp: decrypt_batch_def combine_pairs)

definition sample_decrypt :: mempool_ext where
  "sample_decrypt =
     \<lparr>chacha_decrypt = (\<lambda>key nonce text. if take 1 key = nonce then Some text else None),
      de_transaction = (\<lambda>b. if b = [7] then Some (sample_tx 1 0 None 5 1) else None)\<rparr>"

definition sample_encrypted :: encrypted_mempool where
  "sample_encrypted = add_encrypted_tx
     \<lparr>et_ciphertext = [7], et_nonce = [3], et_sender_pubkey = [], et_gas_price_commitment = [], et_timestamp = 0\<rparr>
     (encrypted_mempool_new 5)"

theorem threshold_padding_witness:
  "decrypt_batch sample_decrypt [[1], [2]] sample_encrypted = decrypt_batch sample_decrypt [[2], [1]] sample_encrypted \<and>
   decrypt_batch sample_decrypt ([[1], [2]] @ replicate 10 [9]) sample_encrypted = Ok [sample_tx 1 0 None 5 1]"
  using threshold_padding [of "[[1], [2]]" "[[2], [1]]" sample_decrypt sample_encrypted "[9]"]
  by (simp add: sample_decrypt_def sample_encrypted_def add_encrypted_tx_def encrypted_mempool_new_def
      combine_shares_def decrypt_tx_def map_filter_simps numeral_eq_Suc)

subsection \<open>Amounts\<close>

lemma length_encrypt [simp]: "length (encrypt_amount a s) = 16"
  by (simp add: encrypt_amount_def)

lemma encrypt_nth: "i < 16 \<Longrightarrow> encrypt_amount a s ! i = u128_le a ! i XOR u64_le s ! (i mod 8)"
  by (simp add: encrypt_amount_def del: upt_conv_Cons_Cons)

lemma le_bytes_nth: "i < k \<Longrightarrow> le_bytes k n ! i = word_of_nat (n div 256 ^ i mod 256)"
proof (induction k arbitrary: n i)
  case (Suc k)
  then show ?case by (cases i) (simp_all add: div_mult2_eq)
qed simp

lemma encrypt_amount_xor:
  "map (\<lambda>(i, c). c XOR u64_le secret ! (i mod 8)) (zip [0 ..< 16] (encrypt_amount amount secret)) = u128_le amount"
  by (intro nth_equalityI) (simp_all add: encrypt_nth xor.assoc del: upt_conv_Cons_Cons)

lemma encrypt_amount_drop:
  assumes "unat amount < 2 ^ 64"
  shows "drop 8 (encrypt_amount amount secret) = u64_le secret"
proof (intro nth_equalityI)
  fix i assume "i < length (drop 8 (encrypt_amount amount secret))"
  then have i: "i < 8" by simp
  have "unat amount div 256 ^ (8 + i) = 0"
  proof -
    have "(2 :: nat) ^ 64 \<le> 256 ^ (8 + i)" by (simp add: power_add)
    then show ?thesis using assms by simp
  qed
  then have "u128_le amount ! (8 + i) = 0" using i by (simp add: le_bytes_nth)
  then show "drop 8 (encrypt_amount amount secret) ! i = u64_le secret ! i"
    using i by (simp add: encrypt_nth)
qed simp

text \<open>
  The encryption of an amount can be undone with the secret: XOR with the repeated secret gives
  the little-endian bytes of the amount back. But the upper half of the amount's bytes is zero for
  every amount below \<open>2^64\<close>, and then the last eight bytes of the ciphertext are the secret itself.
\<close>
theorem encrypt_amount_roundtrip:
  "from_le (map (\<lambda>(i, c). c XOR u64_le secret ! (i mod 8)) (zip [0 ..< 16] (encrypt_amount amount secret))) = unat amount \<and>
   (unat amount < 2 ^ 64 \<longrightarrow> from_le (drop 8 (encrypt_amount amount secret)) = unat secret)"
  unfolding encrypt_amount_xor by (simp add: encrypt_amount_drop del: le_bytes.simps)

theorem encrypt_amount_roundtrip_witness:
  "from_le (drop 8 (encrypt_amount 1000 77)) = 77"
  using encrypt_amount_roundtrip [of 77 1000] by simp

subsection \<open>Private transactions\<close>

text \<open>
  A private transfer moves nothing: whatever the builder builds, for any amount, executing it
  leaves every balance as it was (and charges no gas), because its value is 0 and it names no
  receiver. The stealth address and the encrypted amount are not read.
\<close>
theorem private_transfer_moves_nothing:
  assumes "build_private_transfer G seed now from stealth amount balance s_secret r_secret gas_price gas_limit shard z = (Ok tx, z')"
  shows "balance_of (snd (execute_transaction E S tx st)) a = balance_of st a"
proof -
  have tx: "tx_type tx = PrivateTransfer" "tx_to tx = None" "tx_value tx = 0"
    using assms by (auto simp: build_private_transfer_def split: prod.splits sum.splits)
  show ?thesis
  proof (cases "balance_of st (tx_from tx) < tx_value tx + gas_cost tx")
    case True
    then show ?thesis using tx
      by (simp add: execute_transaction_def execute_private_transfer_def Let_def transfer_failure)
  next
    case False
    then have "tx_value tx + gas_cost tx \<le> balance_of st (tx_from tx)" by simp
    from transfer_self [OF this] tx show ?thesis
      by (simp add: execute_transaction_def execute_private_transfer_def Let_def account_at_apply balance_of_def)
  qed
qed

text \<open>
  C37. A private transfer of less than \<open>2^64\<close> hides neither the sender's secret nor the amount. Whatever
  transaction the builder makes, its last eight encrypted bytes are the secret, with which the amount
  decrypts. The first public input of the proof is the product of secret and balance modulo \<open>2^128\<close>:
  if the secret is not 0 and the product does not wrap (which every balance below \<open>2^64\<close> ensures), dividing
  by the secret gives the balance, so that everybody who sees the transaction and the inputs can
  compute all three. For a secret of 0 the input is 0, and for a product that wraps only the residue
  is revealed.
\<close>
theorem private_transfer_readable:
  assumes "build_private_transfer G seed now from stealth amount balance s_secret r_secret gas_price gas_limit shard z = (Ok tx, z')"
    and "unat amount < 2 ^ 64"
  shows "\<exists>c. tx_encrypted_amount tx = Some c \<and> from_le (drop 8 c) = unat s_secret \<and>
    from_le (map (\<lambda>(i, b). b XOR drop 8 c ! (i mod 8)) (zip [0 ..< 16] c)) = unat amount \<and>
    (\<exists>p. prove_private_transfer G seed balance amount s_secret r_secret (replicate 32 0) z = (Ok p, z') \<and>
       tx_zk_proof tx = Some (proof_data p) \<and>
       unat (public_inputs p ! 0) = from_le (drop 8 c) * unat balance mod 2 ^ 128 \<and>
       (s_secret \<noteq> 0 \<longrightarrow> unat s_secret * unat balance < 2 ^ 128 \<longrightarrow>
          unat (public_inputs p ! 0) div from_le (drop 8 c) = unat balance) \<and>
       (unat balance < 2 ^ 64 \<longrightarrow> unat s_secret * unat balance < 2 ^ 128))"
proof -
  let ?c = "encrypt_amount amount s_secret"
  obtain p where p: "prove_private_transfer G seed balance amount s_secret r_secret (replicate 32 0) z = (Ok p, z')"
    and tx: "tx_encrypted_amount tx = Some ?c" "tx_zk_proof tx = Some (proof_data p)"
    using assms(1) by (auto simp: build_private_transfer_def split: prod.splits sum.splits)
  have d: "drop 8 ?c = u64_le s_secret" by (rule encrypt_amount_drop [OF assms(2)])
  have "from_le (map (\<lambda>(i, b). b XOR drop 8 ?c ! (i mod 8)) (zip [0 ..< 16] ?c)) = unat amount"
    unfolding d encrypt_amount_xor by (rule from_le_u128)
  moreover have "from_le (drop 8 ?c) = unat s_secret" unfolding d by (rule from_le_u64)
  moreover have "unat (public_inputs p ! 0) div unat s_secret = unat balance"
    if "s_secret \<noteq> 0" "unat s_secret * unat balance < 2 ^ 128"
    using public_inputs_reveal [OF p that] by (elim conjE) (simp only:)
  moreover have "unat (public_inputs p ! 0) = unat s_secret * unat balance mod 2 ^ 128"
    using p by (auto simp: prove_private_transfer_def unat_word_ariths split: option.splits sum.splits)
  moreover have "unat s_secret * unat balance < 2 ^ 128" if "unat balance < 2 ^ 64"
  proof -
    have "unat s_secret < 2 ^ LENGTH(64)" by (rule unsigned_less)
    then have "unat s_secret * unat balance < 2 ^ 64 * 2 ^ 64" using that by (intro mult_strict_mono) simp_all
    then show ?thesis by simp
  qed
  ultimately show ?thesis using p tx by auto
qed

text \<open>A proof system that always succeeds, over the rationals.\<close>

definition sample_groth :: "(rat, unit, unit, unit) groth" where
  "sample_groth = \<lparr>groth_setup = (\<lambda>c. Ok ((), ())), groth_prove = (\<lambda>pk c seed. Ok ()),
     groth_verify = (\<lambda>vk inputs p. Ok True)\<rparr>"

definition sample_zk :: "(unit, unit) zk_system" where
  "sample_zk = zk_system_new\<lparr>proving_key := Some ()\<rparr>"

theorem private_transfer_readable_witness:
  "\<exists>tx z' c. build_private_transfer sample_groth [] 0 (Address [1]) (stealth_derive id [] [] 0) 60 100 3 4 1 1 0 sample_zk
       = (Ok tx, z') \<and> tx_encrypted_amount tx = Some c \<and> from_le (drop 8 c) = 3 \<and>
    (\<exists>p :: zk_proof. tx_zk_proof tx = Some (proof_data p) \<and> unat (public_inputs p ! 0) div from_le (drop 8 c) = 100)"
proof -
  obtain tx z' where b: "build_private_transfer sample_groth [] 0 (Address [1]) (stealth_derive id [] [] 0) 60 100 3 4 1 1 0
      sample_zk = (Ok tx, z')"
    by (simp add: build_private_transfer_def prove_private_transfer_def sample_groth_def sample_zk_def)
  from private_transfer_readable [OF b] obtain c and p :: zk_proof where "tx_encrypted_amount tx = Some c"
    "from_le (drop 8 c) = 3" "tx_zk_proof tx = Some (proof_data p)" "unat (public_inputs p ! 0) = 300" by auto
  with b show ?thesis by (auto intro!: exI [of _ p])
qed

theorem public_inputs_reveal_witness:
  "\<exists>p z'. prove_private_transfer sample_groth [] 500 20 3 4 [] sample_zk = (Ok p, z') \<and>
    unat (public_inputs p ! 0) div unat (public_inputs p ! 2) = 500"
proof -
  obtain p z' where p: "prove_private_transfer sample_groth [] 500 20 3 4 [] sample_zk = (Ok p, z')"
    by (simp add: prove_private_transfer_def sample_groth_def sample_zk_def)
  from public_inputs_reveal [OF p] p show ?thesis by auto
qed

theorem private_transfer_moves_nothing_witness:
  "\<exists>tx z'. build_private_transfer sample_groth [] 0 (Address [1]) (stealth_derive id [] [] 0) 60 100 3 4 1 1 0 sample_zk
       = (Ok tx, z') \<and>
     balance_of (snd (execute_transaction sample_ext gas_schedule_default tx sample_vm)) (Address [1]) =
       balance_of sample_vm (Address [1])"
proof -
  obtain tx z' where b: "build_private_transfer sample_groth [] 0 (Address [1]) (stealth_derive id [] [] 0) 60 100 3 4 1 1 0
      sample_zk = (Ok tx, z')"
    by (simp add: build_private_transfer_def prove_private_transfer_def sample_groth_def sample_zk_def)
  from private_transfer_moves_nothing [OF b] b show ?thesis by blast
qed

end
