(* ===== verification/Network.thy ===== *)
theory Network
  imports Multichain
begin

text \<open>
  \<^verbatim>\<open>src/src/network/mod.rs\<close>: the messages and their topics, the peer tables of \<open>NetworkNode\<close>, the
  transaction batches of \<open>TxBroadcaster\<close> and the requests of \<open>BlockSync\<close>.

  \<^verbatim>\<open>libp2p\<close>'s swarm is a value of a type \<open>'s\<close> on which \<open>publish\<close> and \<open>subscribe\<close>, parameters in
  the record \<open>net_ext\<close>, act; \<^verbatim>\<open>bincode\<close> is the parameter \<open>ser_msg\<close>. What a node does with its
  write locks decides whether a call returns, so they are part of the model: \<open>nn_swarm_locked\<close> says
  that the event loop holds the lock of the swarm, which it takes before its loop and never
  releases, and \<open>tb_pending_locked\<close> that a call holds the lock of the pending transactions. The locks of
  \<^verbatim>\<open>parking_lot\<close> are not re-entrant: taking a held lock never returns. That is the value \<open>None\<close> of an
  operation on the node alone, which has changed nothing before it waits. The operations of
  \<open>TxBroadcaster\<close> and \<open>BlockSync\<close> change their tables first, and other callers see these changes: their
  calls yield \<open>Waits\<close> with the state in which they wait, or \<open>Returns\<close>.
\<close>

subsection \<open>Messages and topics\<close>

datatype network_message =
    MsgNewView u64 u64 address
  | MsgPrepare hash u64 u64 address bytes
  | MsgPreCommit hash u64 u64 address bytes
  | MsgCommit hash u64 u64 address bytes
  | MsgBlockProposal block "quorum_certificate option"
  | MsgBlockRequest u64 u16
  | MsgBlockResponse block
  | MsgTransaction transaction
  | MsgTransactionBatch "transaction list" u16
  | MsgCrossChainTx cross_tx
  | MsgCrossChainProof hash bytes
  | MsgStateRequest u16 u64
  | MsgStateResponse hash "(address \<times> account) list"
  | MsgPeerInfo string string u16 "address option"
  | MsgPing u64
  | MsgPong u64

fun topic_of :: "network_message \<Rightarrow> string" where
  "topic_of (MsgBlockProposal _ _) = ''proton-blocks''"
| "topic_of (MsgTransaction _) = ''proton-transactions''"
| "topic_of (MsgTransactionBatch _ _) = ''proton-transactions''"
| "topic_of (MsgPrepare _ _ _ _ _) = ''proton-consensus''"
| "topic_of (MsgPreCommit _ _ _ _ _) = ''proton-consensus''"
| "topic_of (MsgCommit _ _ _ _ _) = ''proton-consensus''"
| "topic_of (MsgNewView _ _ _) = ''proton-consensus''"
| "topic_of (MsgCrossChainTx _) = ''proton-crosschain''"
| "topic_of (MsgCrossChainProof _ _) = ''proton-crosschain''"
| "topic_of _ = ''proton-general''"

subsection \<open>The node\<close>

record 's net_ext =
  ser_msg :: "network_message \<Rightarrow> bytes rs_result"
  publish :: "string \<Rightarrow> bytes \<Rightarrow> 's \<Rightarrow> unit rs_result \<times> 's"
  subscribe :: "string \<Rightarrow> 's \<Rightarrow> unit rs_result \<times> 's"
  listen_on :: "string \<Rightarrow> 's \<Rightarrow> unit rs_result \<times> 's"

record ('s, 'p) network_node =
  nn_local_peer_id :: 'p
  nn_swarm :: 's
  nn_swarm_locked :: bool
  nn_connected_peers :: "'p list"
  nn_validator_peers :: "(address, 'p) hashmap"
  nn_my_address :: address
  nn_shard_id :: u16

text \<open>
  What \<^verbatim>\<open>libp2p\<close> builds for a new key pair: the peer id, the configuration of gossipsub for a message-id
  function, its behaviour for a configuration, the multicast discovery, and the swarm of both (with a
  Kademlia store and a QUIC transport).
\<close>

record ('g, 'b, 'm, 's, 'p) swarm_parts =
  sw_peer_id :: 'p
  sw_config :: "(bytes \<Rightarrow> string) \<Rightarrow> 'g rs_result"
  sw_gossipsub :: "'g \<Rightarrow> 'b rs_result"
  sw_mdns :: "'m rs_result"
  sw_build :: "'b \<Rightarrow> 'm \<Rightarrow> 's"

definition network_new ::
    "(bytes \<Rightarrow> bytes) \<Rightarrow> (bytes \<Rightarrow> string) \<Rightarrow> ('g, 'b, 'm, 's, 'p) swarm_parts \<Rightarrow> address \<Rightarrow> u16 \<Rightarrow> string \<Rightarrow>
      ('s, 'p) network_node rs_result" where
  "network_new sha hex P my_address shard_id listen_addr =
     (case sw_config P (\<lambda>data. to_hex hex (hash_new sha data)) of
        Err e \<Rightarrow> Err (''Gossipsub config error: '' @ e)
      | Ok config \<Rightarrow>
          (case sw_gossipsub P config of
             Err e \<Rightarrow> Err (''Gossipsub error: '' @ e)
           | Ok gossipsub \<Rightarrow>
               (case sw_mdns P of
                  Err e \<Rightarrow> Err (''mDNS error: '' @ e)
                | Ok mdns \<Rightarrow>
                    Ok \<lparr>nn_local_peer_id = sw_peer_id P, nn_swarm = sw_build P gossipsub mdns,
                        nn_swarm_locked = False, nn_connected_peers = [], nn_validator_peers = [],
                        nn_my_address = my_address, nn_shard_id = shard_id\<rparr>)))"

definition start_topics :: "string list" where
  "start_topics = [''proton-blocks'', ''proton-transactions'', ''proton-consensus'', ''proton-crosschain'']"

fun subscribe_all :: "'s net_ext \<Rightarrow> string list \<Rightarrow> 's \<Rightarrow> unit rs_result \<times> 's" where
  "subscribe_all N [] s = (Ok (), s)"
| "subscribe_all N (t # ts) s =
     (case subscribe N t s of
        (Err e, s') \<Rightarrow> (Err (''Subscribe error: '' @ e), s')
      | (Ok _, s') \<Rightarrow> subscribe_all N ts s')"

definition start_node :: "'s net_ext \<Rightarrow> ('s, 'p) network_node \<Rightarrow> (unit rs_result \<times> ('s, 'p) network_node) option" where
  "start_node N n =
     (if nn_swarm_locked n then None
      else
        Some (case listen_on N ''/ip4/0.0.0.0/udp/0/quic-v1'' (nn_swarm n) of
                (Err e, s) \<Rightarrow> (Err (''Listen error: '' @ e), n\<lparr>nn_swarm := s\<rparr>)
              | (Ok _, s) \<Rightarrow>
                  (case subscribe_all N start_topics s of (res, s') \<Rightarrow> (res, n\<lparr>nn_swarm := s'\<rparr>))))"

datatype 'p swarm_event =
    GossipMessage bytes
  | MdnsDiscovered "'p list"
  | ConnectionEstablished 'p
  | ConnectionClosed 'p
  | OtherEvent

text \<open>The handler of a decoded message only logs, for every kind of message.\<close>

definition handle_message :: "network_message \<Rightarrow> ('s, 'p) network_node \<Rightarrow> ('s, 'p) network_node" where
  "handle_message msg n = n"

fun handle_event ::
    "(bytes \<Rightarrow> network_message option) \<Rightarrow> 'p swarm_event \<Rightarrow> ('s, 'p) network_node \<Rightarrow> ('s, 'p) network_node" where
  "handle_event de (GossipMessage data) n =
     (case de data of None \<Rightarrow> n | Some msg \<Rightarrow> handle_message msg n)"
| "handle_event de (MdnsDiscovered ps) n = n\<lparr>nn_connected_peers := fold List.insert ps (nn_connected_peers n)\<rparr>"
| "handle_event de (ConnectionEstablished p) n = n\<lparr>nn_connected_peers := List.insert p (nn_connected_peers n)\<rparr>"
| "handle_event de (ConnectionClosed p) n = n\<lparr>nn_connected_peers := removeAll p (nn_connected_peers n)\<rparr>"
| "handle_event de OtherEvent n = n"

text \<open>The loop takes the lock, then handles the events as they come; it never ends.\<close>

definition run_event_loop ::
    "(bytes \<Rightarrow> network_message option) \<Rightarrow> 'p swarm_event list \<Rightarrow> ('s, 'p) network_node \<Rightarrow> ('s, 'p) network_node" where
  "run_event_loop de events n = fold (handle_event de) events (n\<lparr>nn_swarm_locked := True\<rparr>)"

definition broadcast ::
    "'s net_ext \<Rightarrow> network_message \<Rightarrow> ('s, 'p) network_node \<Rightarrow> (unit rs_result \<times> ('s, 'p) network_node) option" where
  "broadcast N msg n =
     (case ser_msg N msg of
        Err e \<Rightarrow> Some (Err (''Serialization error: '' @ e), n)
      | Ok data \<Rightarrow>
          if nn_swarm_locked n then None
          else Some (case publish N (topic_of msg) data (nn_swarm n) of
                 (Err e, s) \<Rightarrow> (Err (''Publish error: '' @ e), n\<lparr>nn_swarm := s\<rparr>)
               | (Ok _, s) \<Rightarrow> (Ok (), n\<lparr>nn_swarm := s\<rparr>)))"

definition send_to_peer ::
    "'s net_ext \<Rightarrow> 'p \<Rightarrow> network_message \<Rightarrow> ('s, 'p) network_node \<Rightarrow> (unit rs_result \<times> ('s, 'p) network_node) option" where
  "send_to_peer N peer msg n = broadcast N msg n"

definition peer_count :: "('s, 'p) network_node \<Rightarrow> nat" where
  "peer_count n = length (nn_connected_peers n)"

definition register_validator :: "address \<Rightarrow> 'p \<Rightarrow> ('s, 'p) network_node \<Rightarrow> ('s, 'p) network_node" where
  "register_validator a p n = n\<lparr>nn_validator_peers := hm_insert a p (nn_validator_peers n)\<rparr>"

record network_stats =
  ns_peer_count :: nat
  ns_validator_count :: nat
  ns_is_connected :: bool

definition get_network_stats :: "('s, 'p) network_node \<Rightarrow> network_stats" where
  "get_network_stats n =
     \<lparr>ns_peer_count = peer_count n, ns_validator_count = length (nn_validator_peers n),
      ns_is_connected = (peer_count n > 0)\<rparr>"

subsection \<open>Calls that may wait for ever\<close>

datatype ('a, 's) rs_call = Returns 'a 's | Waits 's

fun call_state :: "('a, 's) rs_call \<Rightarrow> 's" where
  "call_state (Returns a s) = s"
| "call_state (Waits s) = s"

subsection \<open>Transaction batches\<close>

record tx_broadcaster =
  tb_batch_size :: nat
  tb_batch_timeout_ms :: u64
  tb_pending_txs :: "transaction list"
  tb_pending_locked :: bool

definition broadcaster_new :: "nat \<Rightarrow> u64 \<Rightarrow> tx_broadcaster" where
  "broadcaster_new n ms = \<lparr>tb_batch_size = n, tb_batch_timeout_ms = ms, tb_pending_txs = [],
     tb_pending_locked = False\<rparr>"

definition broadcaster_clone :: "tx_broadcaster \<Rightarrow> tx_broadcaster" where
  "broadcaster_clone b = b\<lparr>tb_pending_txs := [], tb_pending_locked := False\<rparr>"

definition flush ::
    "'s net_ext \<Rightarrow> tx_broadcaster \<times> ('s, 'p) network_node \<Rightarrow> (unit, tx_broadcaster \<times> ('s, 'p) network_node) rs_call" where
  "flush N = (\<lambda>(b, n).
     if tb_pending_locked b then Waits (b, n)
     else if tb_pending_txs b = [] then Returns () (b, n)
     else
       let batch = tb_pending_txs b;
           b' = b\<lparr>tb_pending_txs := [], tb_pending_locked := True\<rparr>;
           shard_id = (case batch of [] \<Rightarrow> 0 | tx # _ \<Rightarrow> tx_shard_id tx)
       in (case broadcast N (MsgTransactionBatch batch shard_id) n of
             None \<Rightarrow> Waits (b', n)
           | Some (_, n') \<Rightarrow> Returns () (b'\<lparr>tb_pending_locked := False\<rparr>, n')))"

text \<open>The guard of the first lock lives until the end of the function, over the call of \<open>flush\<close>.\<close>

definition queue_transaction ::
    "'s net_ext \<Rightarrow> transaction \<Rightarrow> tx_broadcaster \<times> ('s, 'p) network_node \<Rightarrow>
      (unit, tx_broadcaster \<times> ('s, 'p) network_node) rs_call" where
  "queue_transaction N tx = (\<lambda>(b, n).
     if tb_pending_locked b then Waits (b, n)
     else
       let b' = b\<lparr>tb_pending_txs := tb_pending_txs b @ [tx], tb_pending_locked := True\<rparr>
       in if length (tb_pending_txs b') \<ge> tb_batch_size b'
          then (case flush N (b', n) of
                  Waits bn \<Rightarrow> Waits bn
                | Returns _ (b'', n') \<Rightarrow> Returns () (b''\<lparr>tb_pending_locked := False\<rparr>, n'))
          else Returns () (b'\<lparr>tb_pending_locked := False\<rparr>, n))"

fun queue_all ::
    "'s net_ext \<Rightarrow> transaction list \<Rightarrow> tx_broadcaster \<times> ('s, 'p) network_node \<Rightarrow>
      (unit, tx_broadcaster \<times> ('s, 'p) network_node) rs_call" where
  "queue_all N [] bn = Returns () bn"
| "queue_all N (tx # txs) bn =
     (case queue_transaction N tx bn of Waits bn' \<Rightarrow> Waits bn' | Returns _ bn' \<Rightarrow> queue_all N txs bn')"

text \<open>The timer task owns a clone of the broadcaster and flushes it at every tick.\<close>

fun batch_timer ::
    "'s net_ext \<Rightarrow> nat \<Rightarrow> tx_broadcaster \<times> ('s, 'p) network_node \<Rightarrow>
      (unit, tx_broadcaster \<times> ('s, 'p) network_node) rs_call" where
  "batch_timer N 0 cn = Returns () cn"
| "batch_timer N (Suc ticks) cn =
     (case flush N cn of Waits cn' \<Rightarrow> Waits cn' | Returns _ cn' \<Rightarrow> batch_timer N ticks cn')"

definition start_batch_timer ::
    "'s net_ext \<Rightarrow> nat \<Rightarrow> tx_broadcaster \<times> ('s, 'p) network_node \<Rightarrow>
      (unit, tx_broadcaster \<times> ('s, 'p) network_node) rs_call" where
  "start_batch_timer N ticks = (\<lambda>(b, n).
     (case batch_timer N ticks (broadcaster_clone b, n) of
        Waits (c, n') \<Rightarrow> Waits (b, n')
      | Returns _ (c, n') \<Rightarrow> Returns () (b, n')))"

subsection \<open>Block requests\<close>

record block_sync =
  known_blocks :: "(u64, hash) hashmap"
  pending_requests :: "u64 list"

definition block_sync_new :: block_sync where
  "block_sync_new = \<lparr>known_blocks = [], pending_requests = []\<rparr>"

text \<open>
  The height is recorded, and the lock of the table released, before the request goes out: when the
  broadcast waits, the record is already there for the next caller.
\<close>

definition request_block ::
    "'s net_ext \<Rightarrow> u64 \<Rightarrow> u16 \<Rightarrow> block_sync \<times> ('s, 'p) network_node \<Rightarrow>
      (unit rs_result, block_sync \<times> ('s, 'p) network_node) rs_call" where
  "request_block N height shard_id = (\<lambda>(bs, n).
     if hm_get (known_blocks bs) height \<noteq> None then Returns (Ok ()) (bs, n)
     else if height \<in> set (pending_requests bs) then Returns (Ok ()) (bs, n)
     else
       let bs' = bs\<lparr>pending_requests := List.insert height (pending_requests bs)\<rparr>
       in (case broadcast N (MsgBlockRequest height shard_id) n of
             None \<Rightarrow> Waits (bs', n)
           | Some (res, n') \<Rightarrow> Returns res (bs', n')))"

definition receive_block :: "ext \<Rightarrow> block \<Rightarrow> block_sync \<Rightarrow> block_sync" where
  "receive_block E b bs =
     (let height = hdr_height (header b)
      in bs\<lparr>known_blocks := hm_insert height (header_hash E (header b)) (known_blocks bs),
            pending_requests := removeAll height (pending_requests bs)\<rparr>)"

record sync_status =
  st_known_blocks :: nat
  st_pending_requests :: nat

definition get_sync_status :: "block_sync \<Rightarrow> sync_status" where
  "get_sync_status bs =
     \<lparr>st_known_blocks = length (known_blocks bs), st_pending_requests = length (pending_requests bs)\<rparr>"

subsection \<open>Properties\<close>

text \<open>
  Exactly the block proposals, transactions, consensus votes and cross-chain messages are
  published on a topic that \<open>start\<close> subscribes to; requests and responses for blocks and state,
  peer information and pings go to a topic that no node listens to.
\<close>
theorem subscribed_messages:
  "topic_of msg \<in> set start_topics \<longleftrightarrow>
    (case msg of MsgBlockRequest _ _ \<Rightarrow> False | MsgBlockResponse _ \<Rightarrow> False | MsgStateRequest _ _ \<Rightarrow> False
     | MsgStateResponse _ _ \<Rightarrow> False | MsgPeerInfo _ _ _ _ \<Rightarrow> False | MsgPing _ \<Rightarrow> False | MsgPong _ \<Rightarrow> False
     | _ \<Rightarrow> True)"
  by (cases msg) (simp_all add: start_topics_def)

lemma handle_event_locked [simp]:
  "nn_swarm_locked (handle_event de ev n) = nn_swarm_locked n" "nn_swarm (handle_event de ev n) = nn_swarm n"
  by (cases ev; auto simp: handle_message_def split: option.splits)+

lemma events_locked:
  "nn_swarm_locked (fold (handle_event de) evs n) = nn_swarm_locked n"
  by (induction evs arbitrary: n) simp_all

lemma broadcast_locked: "ser_msg N msg = Ok data \<Longrightarrow> nn_swarm_locked n \<Longrightarrow> broadcast N msg n = None"
  by (simp add: broadcast_def)

lemma run_event_loop_locked: "nn_swarm_locked (run_event_loop de events n)"
  by (simp add: run_event_loop_def events_locked)

text \<open>
  Once the event loop runs, whatever events it has handled, no message that serialises can be
  broadcast any more: the loop keeps the write lock of the swarm that \<open>broadcast\<close> waits for.
\<close>
theorem event_loop_blocks_broadcast:
  assumes "ser_msg N msg = Ok data"
  shows "broadcast N msg (run_event_loop de events n) = None"
  using assms by (simp add: broadcast_def run_event_loop_def events_locked)

definition peer_connected :: "'p swarm_event list \<Rightarrow> 'p \<Rightarrow> bool" where
  "peer_connected evs p = fold (\<lambda>ev c. case ev of MdnsDiscovered ps \<Rightarrow> c \<or> p \<in> set ps
     | ConnectionEstablished q \<Rightarrow> c \<or> p = q | ConnectionClosed q \<Rightarrow> c \<and> p \<noteq> q | _ \<Rightarrow> c) evs False"

lemma fold_insert_set [simp]:
  "set (fold List.insert ps xs) = set ps \<union> set xs"
  "distinct xs \<Longrightarrow> distinct (fold List.insert ps xs)"
  by (induction ps arbitrary: xs) auto

lemma handle_event_peers:
  "set (nn_connected_peers (handle_event de ev n)) = (case ev of MdnsDiscovered ps \<Rightarrow> set ps \<union> set (nn_connected_peers n)
     | ConnectionEstablished q \<Rightarrow> insert q (set (nn_connected_peers n))
     | ConnectionClosed q \<Rightarrow> set (nn_connected_peers n) - {q} | _ \<Rightarrow> set (nn_connected_peers n))"
  "distinct (nn_connected_peers n) \<Longrightarrow> distinct (nn_connected_peers (handle_event de ev n))"
  by (cases ev; auto simp: handle_message_def distinct_removeAll split: option.splits)+

text \<open>
  The peer table holds exactly the peers whose last discovery or connection is later than their
  last disconnection, each once, so \<open>peer_count\<close> counts them.
\<close>
theorem connected_peers_spec:
  fixes n :: "('s, 'p) network_node"
  assumes "nn_connected_peers n = []"
  shows "set (nn_connected_peers (run_event_loop de events n)) = {p. peer_connected events p} \<and>
    peer_count (run_event_loop de events n) = card {p. peer_connected events p}"
proof -
  have "set (nn_connected_peers (fold (handle_event de) evs m)) = {p. fold (\<lambda>ev c. case ev of
      MdnsDiscovered ps \<Rightarrow> c \<or> p \<in> set ps | ConnectionEstablished q \<Rightarrow> c \<or> p = q
      | ConnectionClosed q \<Rightarrow> c \<and> p \<noteq> q | _ \<Rightarrow> c) evs (p \<in> set (nn_connected_peers m))} \<and>
    (distinct (nn_connected_peers m) \<longrightarrow> distinct (nn_connected_peers (fold (handle_event de) evs m)))"
    for evs and m :: "('s, 'p) network_node"
  proof (induction evs arbitrary: m)
    case (Cons ev evs)
    have "p \<in> set (nn_connected_peers (handle_event de ev m)) \<longleftrightarrow> (case ev of
        MdnsDiscovered ps \<Rightarrow> p \<in> set (nn_connected_peers m) \<or> p \<in> set ps
      | ConnectionEstablished q \<Rightarrow> p \<in> set (nn_connected_peers m) \<or> p = q
      | ConnectionClosed q \<Rightarrow> p \<in> set (nn_connected_peers m) \<and> p \<noteq> q
      | _ \<Rightarrow> p \<in> set (nn_connected_peers m))" for p
      by (auto simp: handle_event_peers split: swarm_event.splits)
    then show ?case using Cons [of "handle_event de ev m"] handle_event_peers(2) [of m de ev] by simp
  qed simp
  from this [of events "n\<lparr>nn_swarm_locked := True\<rparr>"]
  have s: "set (nn_connected_peers (run_event_loop de events n)) = {p. peer_connected events p}"
    and d: "distinct (nn_connected_peers (run_event_loop de events n))"
    using assms by (simp_all add: run_event_loop_def peer_connected_def)
  show ?thesis using s distinct_card [OF d] by (simp add: peer_count_def)
qed

text \<open>
  Queueing \<open>n\<close> transactions on a new broadcaster returns exactly when \<open>n\<close> is below the batch
  size (or zero); then all of them are pending, in order, and nothing was sent. The call that
  completes a batch waits for a lock that it holds itself: the batch is never sent, the transactions
  after it are not even queued, and every later call waits as well.
\<close>
theorem queue_all_spec:
  "queue_all N txs (broadcaster_new batch ms, node) =
    (if txs = [] \<or> length txs < batch then Returns () ((broadcaster_new batch ms)\<lparr>tb_pending_txs := txs\<rparr>, node)
     else Waits ((broadcaster_new batch ms)\<lparr>tb_pending_txs := take (max 1 batch) txs, tb_pending_locked := True\<rparr>, node))"
proof -
  have "queue_all N txs (b, node) =
      (if txs = [] \<or> length (tb_pending_txs b) + length txs < tb_batch_size b
       then Returns () (b\<lparr>tb_pending_txs := tb_pending_txs b @ txs\<rparr>, node)
       else Waits (b\<lparr>tb_pending_txs := tb_pending_txs b @ take (max 1 (tb_batch_size b - length (tb_pending_txs b))) txs,
         tb_pending_locked := True\<rparr>, node))" if "\<not> tb_pending_locked b" for b
    using that
  proof (induction txs arbitrary: b)
    case (Cons tx txs)
    let ?b = "b\<lparr>tb_pending_txs := tb_pending_txs b @ [tx]\<rparr>"
    show ?case
    proof (cases "tb_batch_size b \<le> Suc (length (tb_pending_txs b))")
      case True
      then have "tb_batch_size b - length (tb_pending_txs b) \<le> 1" by simp
      then have "max 1 (tb_batch_size b - length (tb_pending_txs b)) = 1" by simp
      with True Cons.prems show ?thesis by (simp add: queue_transaction_def flush_def Let_def)
    next
      case False
      then have "queue_transaction N tx (b, node) = Returns () (?b, node)"
        using Cons.prems by (simp add: queue_transaction_def Let_def)
      moreover have "max 1 (tb_batch_size b - length (tb_pending_txs b)) =
          Suc (max 1 (tb_batch_size b - Suc (length (tb_pending_txs b))))" using False by simp
      ultimately show ?thesis using Cons.IH [of ?b] Cons.prems False by auto
    qed
  qed simp
  then show ?thesis by (simp add: broadcaster_new_def)
qed

text \<open>
  A flush from outside sends one message with all pending transactions in order, labelled with
  the shard of the first whatever the shards of the others, and forgets them even when publishing
  fails.
\<close>
theorem flush_spec:
  assumes "tb_pending_txs b = tx # txs" and "ser_msg N (MsgTransactionBatch (tx # txs) (tx_shard_id tx)) = Ok data"
    and "\<not> nn_swarm_locked n" and "\<not> tb_pending_locked b"
  shows "flush N (b, n) = Returns () (b\<lparr>tb_pending_txs := []\<rparr>,
    n\<lparr>nn_swarm := snd (publish N ''proton-transactions'' data (nn_swarm n))\<rparr>)"
  using assms by (simp add: flush_def broadcast_def Let_def split: prod.split sum.split)

text \<open>
  The batch timer sends nothing: it works on a clone whose list of pending transactions is
  empty, so after any number of ticks the pending transactions and the network are as before.
\<close>
theorem batch_timer_idle: "start_batch_timer N ticks (b, n) = Returns () (b, n)"
proof -
  have "batch_timer N ticks (broadcaster_clone b, n) = Returns () (broadcaster_clone b, n)"
    by (induction ticks) (simp_all add: flush_def broadcaster_clone_def)
  then show ?thesis by (simp add: start_batch_timer_def)
qed

definition sync_inv :: "block_sync \<Rightarrow> bool" where
  "sync_inv bs \<longleftrightarrow> hm_wf (known_blocks bs) \<and> distinct (pending_requests bs) \<and>
     (\<forall>h \<in> set (pending_requests bs). hm_get (known_blocks bs) h = None)"

lemma sync_inv_new: "sync_inv block_sync_new"
  by (simp add: sync_inv_def block_sync_new_def)

text \<open>
  The synchroniser never asks for a block that it knows, and its two tables stay disjoint and
  without duplicates: the invariant holds initially and is kept by a request, also by one that never
  returns, and by a received block, after which the block's height is known and no longer requested.
\<close>
theorem block_sync_invariant:
  assumes "sync_inv bs"
  shows "sync_inv block_sync_new \<and>
    sync_inv (fst (call_state (request_block N h i (bs, n)))) \<and>
    sync_inv (receive_block E b bs) \<and>
    hm_get (known_blocks (receive_block E b bs)) (hdr_height (header b)) = Some (header_hash E (header b)) \<and>
    hdr_height (header b) \<notin> set (pending_requests (receive_block E b bs))"
  using assms
  by (auto simp: sync_inv_def block_sync_new_def request_block_def receive_block_def Let_def distinct_removeAll
      split: if_splits option.splits)

text \<open>
  A height is asked for once: after a request, whether it was published, failed to be published or
  still waits for the swarm, asking for the same height again answers \<open>Ok\<close> and sends nothing. A
  request that failed is never repeated.
\<close>
theorem failed_request_not_retried:
  "request_block N h j (call_state (request_block N h i (bs, n))) =
    Returns (Ok ()) (call_state (request_block N h i (bs, n)))"
  by (auto simp: request_block_def Let_def split: option.split)

subsection \<open>Instances\<close>

definition sample_net :: "(string \<times> bytes) list net_ext" where
  "sample_net = \<lparr>ser_msg = (\<lambda>m. Ok [1]), publish = (\<lambda>t d s. (Err ''InsufficientPeers'', s @ [(t, d)])),
     subscribe = (\<lambda>t s. (Ok (), s)), listen_on = (\<lambda>t s. (Ok (), s))\<rparr>"

text \<open>
  A new node has no peers and its lock is free; the listen address given to the constructor has no
  effect (\<open>start\<close> listens on a fixed one).
\<close>

theorem network_new_fresh:
  assumes "network_new sha hex P a i listen = Ok n"
  shows "peer_count n = 0 \<and> nn_validator_peers n = [] \<and> \<not> nn_swarm_locked n \<and>
    network_new sha hex P a i listen' = Ok n"
  using assms by (auto simp: network_new_def peer_count_def split: sum.splits)

definition sample_node :: "((string \<times> bytes) list, nat) network_node" where
  "sample_node = \<lparr>nn_local_peer_id = 0, nn_swarm = [], nn_swarm_locked = False, nn_connected_peers = [],
     nn_validator_peers = [], nn_my_address = Address [1], nn_shard_id = 0\<rparr>"

text \<open>
  C40. A running node is cut off. Whatever gossip it receives, the event loop leaves it in the state that
  the peer events alone lead to: the messages that it decodes, blocks, transactions and votes among them,
  change nothing. And while the loop runs nothing goes out, because every broadcast of a message that
  serialises waits for a lock that the loop never releases: broadcasting and sending to a peer wait;
  requesting a block that is neither known nor requested waits after the request has been recorded, so
  that the same request answers \<open>Ok\<close> from then on, as it does for known and requested blocks, without
  anything being sent; and flushing a batch waits after the batch has been taken, holding the lock of
  the pending transactions, so that every later call of the broadcaster waits too. Only flushing
  nothing, and queueing below the batch size, return.
\<close>
theorem running_node_cut_off:
  assumes "\<And>m. \<exists>d. ser_msg N m = Ok d" and "n' = run_event_loop de events n"
  shows "n' = run_event_loop de (filter (\<lambda>ev. \<forall>d. ev \<noteq> GossipMessage d) events) n \<and>
    broadcast N msg n' = None \<and> send_to_peer N p msg n' = None \<and>
    request_block N h i (bs, n') =
      (if hm_get (known_blocks bs) h \<noteq> None \<or> h \<in> set (pending_requests bs) then Returns (Ok ()) (bs, n')
       else Waits (bs\<lparr>pending_requests := h # pending_requests bs\<rparr>, n')) \<and>
    request_block N h j (bs\<lparr>pending_requests := h # pending_requests bs\<rparr>, n') =
      Returns (Ok ()) (bs\<lparr>pending_requests := h # pending_requests bs\<rparr>, n') \<and>
    (\<not> tb_pending_locked b \<longrightarrow>
       flush N (b, n') = (if tb_pending_txs b = [] then Returns () (b, n')
         else Waits (b\<lparr>tb_pending_txs := [], tb_pending_locked := True\<rparr>, n')) \<and>
       queue_transaction N tx (b, n') = (if Suc (length (tb_pending_txs b)) < tb_batch_size b
         then Returns () (b\<lparr>tb_pending_txs := tb_pending_txs b @ [tx]\<rparr>, n')
         else Waits (b\<lparr>tb_pending_txs := tb_pending_txs b @ [tx], tb_pending_locked := True\<rparr>, n'))) \<and>
    (tb_pending_locked b \<longrightarrow> flush N (b, n') = Waits (b, n') \<and> queue_transaction N tx (b, n') = Waits (b, n'))"
proof -
  have "fold (handle_event de) events m = fold (handle_event de) (filter (\<lambda>ev. \<forall>d. ev \<noteq> GossipMessage d) events) m" for m :: "('a, 'b) network_node"
  proof (induction events arbitrary: m)
    case (Cons ev events)
    then show ?case by (cases ev) (simp_all add: handle_message_def split: option.split)
  qed simp
  then have "n' = run_event_loop de (filter (\<lambda>ev. \<forall>d. ev \<noteq> GossipMessage d) events) n"
    using assms(2) by (simp add: run_event_loop_def)
  moreover have w: "broadcast N m n' = None" for m
    using assms by (metis broadcast_locked run_event_loop_locked)
  moreover have "request_block N h i (bs, n') =
      (if hm_get (known_blocks bs) h \<noteq> None \<or> h \<in> set (pending_requests bs) then Returns (Ok ()) (bs, n')
       else Waits (bs\<lparr>pending_requests := h # pending_requests bs\<rparr>, n'))"
    and "request_block N h j (bs\<lparr>pending_requests := h # pending_requests bs\<rparr>, n') =
      Returns (Ok ()) (bs\<lparr>pending_requests := h # pending_requests bs\<rparr>, n')"
    by (auto simp: request_block_def w Let_def)
  moreover have "flush N (b, n') = (if tb_pending_locked b then Waits (b, n')
      else if tb_pending_txs b = [] then Returns () (b, n')
      else Waits (b\<lparr>tb_pending_txs := [], tb_pending_locked := True\<rparr>, n'))"
    by (simp add: flush_def w Let_def)
  moreover have "queue_transaction N tx (b, n') = (if tb_pending_locked b then Waits (b, n')
      else if Suc (length (tb_pending_txs b)) < tb_batch_size b
      then Returns () (b\<lparr>tb_pending_txs := tb_pending_txs b @ [tx]\<rparr>, n')
      else Waits (b\<lparr>tb_pending_txs := tb_pending_txs b @ [tx], tb_pending_locked := True\<rparr>, n'))"
    by (simp add: queue_transaction_def flush_def w Let_def)
  ultimately show ?thesis by (simp add: send_to_peer_def)
qed

theorem running_node_cut_off_witness:
  "\<exists>n'. n' = run_event_loop (\<lambda>d. Some (MsgPing 1)) [GossipMessage [1], ConnectionEstablished 4] sample_node \<and>
    n' = run_event_loop (\<lambda>d. Some (MsgPing 1)) [ConnectionEstablished 4] sample_node \<and> broadcast sample_net (MsgPing 1) n' = None \<and>
    request_block sample_net 7 0 (block_sync_new, n') = Waits (block_sync_new\<lparr>pending_requests := [7]\<rparr>, n')"
proof -
  let ?de = "\<lambda>d. Some (MsgPing 1)" and ?evs = "[GossipMessage [1], ConnectionEstablished 4]"
  have ser: "\<exists>d. ser_msg sample_net m = Ok d" for m by (simp add: sample_net_def)
  define n' where n': "n' = run_event_loop ?de ?evs sample_node"
  note cut = running_node_cut_off [OF ser n', where msg = "MsgPing 1" and h = 7 and i = 0 and bs = block_sync_new
      and p = 0 and j = 0 and b = "broadcaster_new 3 10" and tx = "sample_tx 1 0 None 5 1"]
  have "broadcast sample_net (MsgPing 1) n' = None \<and>
      request_block sample_net 7 0 (block_sync_new, n') = Waits (block_sync_new\<lparr>pending_requests := [7]\<rparr>, n')"
    using cut [THEN conjunct2] by (simp add: block_sync_new_def)
  moreover have "n' = run_event_loop ?de [ConnectionEstablished 4] sample_node"
    using cut [THEN conjunct1] by simp
  ultimately show ?thesis using n' by blast
qed

theorem event_loop_blocks_broadcast_witness:
  "broadcast sample_net (MsgPing 1) (run_event_loop (\<lambda>d. None) [ConnectionEstablished 4] sample_node) = None"
  by (rule event_loop_blocks_broadcast [where data = "[1]"]) (simp add: sample_net_def)

theorem connected_peers_spec_witness:
  "set (nn_connected_peers (run_event_loop (\<lambda>d. None)
     [ConnectionEstablished 4, MdnsDiscovered [5, 6], ConnectionClosed 4] sample_node)) = {5, 6}"
proof -
  have "nn_connected_peers sample_node = []" by (simp add: sample_node_def)
  note f = connected_peers_spec [OF this, of "\<lambda>d. None" "[ConnectionEstablished 4, MdnsDiscovered [5, 6], ConnectionClosed 4]"]
  have "{p :: nat. peer_connected [ConnectionEstablished 4, MdnsDiscovered [5, 6], ConnectionClosed 4] p} = {5, 6}"
    by (auto simp: peer_connected_def)
  then show ?thesis using f by simp
qed

theorem flush_spec_witness:
  "flush sample_net ((broadcaster_new 3 10)\<lparr>tb_pending_txs := [sample_tx 1 0 None 5 1]\<rparr>, sample_node)
    = Returns () (broadcaster_new 3 10, sample_node\<lparr>nn_swarm := [(''proton-transactions'', [1])]\<rparr>)"
  using flush_spec [of "(broadcaster_new 3 10)\<lparr>tb_pending_txs := [sample_tx 1 0 None 5 1]\<rparr>" "sample_tx 1 0 None 5 1" "[]"
      sample_net "[1]" sample_node]
  by (simp add: sample_net_def sample_node_def broadcaster_new_def)

theorem block_sync_invariant_witness:
  "sync_inv (receive_block sample_ext sample_block block_sync_new)"
  using block_sync_invariant [OF sync_inv_new, where b = sample_block and E = sample_ext] by blast

end
