(* ===== verification/Node.thy ===== *)
theory Node
  imports Adaptive Storage Privacy Network
begin

text \<open>
  \<^verbatim>\<open>src/src/lib.rs\<close>: \<open>ProtonNode\<close>, which builds the components and answers the outside. What is made
  outside the repository is an argument of \<open>node_new\<close>: the runtime, the opened database, the network node
  (its construction is \<^verbatim>\<open>libp2p\<close>'s) and the check of the secret key. The consensus engine of the node and
  those of the shards are different values.
\<close>

subsection \<open>Definitions\<close>

record ('ch, 's, 'p, 'd, 'c, 'pk, 'vk) proton_node =
  pn_config :: chain_config
  pn_consensus :: hotstuff
  pn_vm :: vm_state
  pn_shard_manager :: "'ch shard_manager"
  pn_network :: "('s, 'p) network_node"
  pn_storage :: "('d, 'c) state_storage"
  pn_zk_system :: "('pk, 'vk) zk_system"

definition node_new ::
    "ext \<Rightarrow> (bytes \<Rightarrow> address list \<Rightarrow> address list) \<Rightarrow> 'c lru_ops \<Rightarrow> ('f :: field, 'pk, 'vk, 'pf) groth \<Rightarrow>
      chain_config \<Rightarrow> unit rs_result \<Rightarrow> 'd rs_result \<Rightarrow> bool \<Rightarrow> ('s, 'p) network_node rs_result \<Rightarrow>
      ('ch, 's, 'p, 'd, 'c, 'pk, 'vk) proton_node rs_result" where
  "node_new E shuffle L G config runtime opened_db key_ok net =
     (case runtime of Err e \<Rightarrow> Err (''Failed to create runtime: '' @ e) | Ok _ \<Rightarrow>
     rs_bind opened_db (\<lambda>db.
       let storage = storage_new L db 100000;
           validator_set = validator_set_new;
           vm = \<lparr>vm_accounts = [], vm_contracts = [], vm_storage = [], vm_block_context =
             \<lparr>ctx_height = 0, ctx_timestamp = 0, ctx_coinbase = address_new (sha3_256 E) (replicate 32 0),
              ctx_difficulty = 1, ctx_gas_limit = cfg_max_block_gas config\<rparr>\<rparr>
       in case zk_setup G zk_system_new of
            (Err e, _) \<Rightarrow> Err e
          | (Ok _, zk) \<Rightarrow>
              if \<not> key_ok then Err ''Invalid key''
              else
                let consensus = hotstuff_new config validator_set (address_new (sha3_256 E) (replicate 32 1));
                    shard_manager = initialize_shards E shuffle validator_set (shard_manager_new config router_new)
                in case net of
                     Err e \<Rightarrow> Err (''Network init failed: '' @ e)
                   | Ok network \<Rightarrow>
                       Ok \<lparr>pn_config = config, pn_consensus = consensus, pn_vm = vm,
                           pn_shard_manager = shard_manager, pn_network = network, pn_storage = storage,
                           pn_zk_system = zk\<rparr>))"

definition submit_transaction ::
    "ext \<Rightarrow> (address \<Rightarrow> hash) \<Rightarrow> transaction \<Rightarrow> ('ch, 's, 'p, 'd, 'c, 'pk, 'vk) proton_node \<Rightarrow>
      (hash rs_result \<times> ('ch, 's, 'p, 'd, 'c, 'pk, 'vk) proton_node) option" where
  "submit_transaction E addr_hash tx n =
     (case route_transaction E addr_hash tx (pn_shard_manager n) of
        None \<Rightarrow> None
      | Some (Err e, sm) \<Rightarrow> Some (Err e, n\<lparr>pn_shard_manager := sm\<rparr>)
      | Some (Ok shard_id, sm) \<Rightarrow> Some (Ok (tx_hash E tx), n\<lparr>pn_shard_manager := sm\<rparr>))"

definition get_balance :: "address \<Rightarrow> ('ch, 's, 'p, 'd, 'c, 'pk, 'vk) proton_node \<Rightarrow> u128" where
  "get_balance a n = unwrap_or (map_option acc_balance (vm_get_account (pn_vm n) a)) 0"

definition node_get_block :: "u64 \<Rightarrow> ('ch, 's, 'p, 'd, 'c, 'pk, 'vk) proton_node \<Rightarrow> block option" where
  "node_get_block height n = HotStuff.get_block (pn_consensus n) height"

record node_stats =
  no_height :: u64
  no_mempool_size :: nat
  no_shard_count :: nat
  no_total_tps :: f64
  no_peer_count :: nat

definition get_node_stats :: "('ch, 's, 'p, 'd, 'c, 'pk, 'vk) proton_node \<Rightarrow> node_stats" where
  "get_node_stats n =
     (let consensus_stats = get_consensus_stats (pn_consensus n);
          shard_stats = get_all_shard_stats (pn_shard_manager n)
      in \<lparr>no_height = cs_height consensus_stats, no_mempool_size = cs_mempool_size consensus_stats,
          no_shard_count = length shard_stats, no_total_tps = get_total_tps (pn_shard_manager n),
          no_peer_count = peer_count (pn_network n)\<rparr>)"

fun submit_all ::
    "ext \<Rightarrow> (address \<Rightarrow> hash) \<Rightarrow> transaction list \<Rightarrow> ('ch, 's, 'p, 'd, 'c, 'pk, 'vk) proton_node \<Rightarrow>
      ('ch, 's, 'p, 'd, 'c, 'pk, 'vk) proton_node option" where
  "submit_all E addr_hash [] n = Some n"
| "submit_all E addr_hash (tx # txs) n =
     (case submit_transaction E addr_hash tx n of
        None \<Rightarrow> None | Some (res, n') \<Rightarrow> submit_all E addr_hash txs n')"

subsection \<open>Properties\<close>

lemma submit_frame:
  "submit_transaction E addr_hash tx n = Some (res, n') \<Longrightarrow>
    pn_consensus n' = pn_consensus n \<and> pn_vm n' = pn_vm n"
  by (auto simp: submit_transaction_def split: option.splits sum.splits)

lemma submit_all_frame:
  "submit_all E addr_hash txs n = Some n' \<Longrightarrow> pn_consensus n' = pn_consensus n \<and> pn_vm n' = pn_vm n"
  by (induction txs arbitrary: n) (auto dest: submit_frame split: option.splits)

lemma node_new_facts:
  assumes "node_new E shuffle L G config rt db key_ok net = Ok n"
  shows "pn_consensus n = hotstuff_new config validator_set_new (address_new (sha3_256 E) (replicate 32 1))"
    and "pn_shard_manager n = initialize_shards E shuffle validator_set_new (shard_manager_new config router_new)"
    and "vm_accounts (pn_vm n) = []"
  using assms
  by (auto simp: node_new_def rs_bind_def Let_def split: sum.splits prod.splits if_splits)

text \<open>An engine without validators whose mempool is empty, as \<open>node_new\<close> leaves it.\<close>

lemma new_engine_idle:
  assumes "pn_consensus n = hotstuff_new config vs me"
  shows "propose_block E now (pn_consensus n) prev = None" "no_mempool_size (get_node_stats n) = 0"
    "no_height (get_node_stats n) = 0" "node_get_block height n = None"
proof -
  have "get_transactions (mempool_new k) l m = []" for k l m
    by (simp add: get_transactions_def mempool_new_def)
  then show "propose_block E now (pn_consensus n) prev = None" "no_mempool_size (get_node_stats n) = 0"
    "no_height (get_node_stats n) = 0" "node_get_block height n = None"
    by (simp_all add: assms propose_block_def hotstuff_new_def Let_def get_node_stats_def get_consensus_stats_def
        mempool_size_def mempool_new_def node_get_block_def HotStuff.get_block_def)
qed

lemma new_vm_empty: "vm_accounts (pn_vm n) = [] \<Longrightarrow> get_balance a n = 0"
  by (simp add: get_balance_def vm_get_account_def)

text \<open>
  Submitted transactions are not executed and not proposed: on a new node, after any
  submissions, the node's own consensus engine still proposes no block and reports an empty
  mempool, and every balance is 0. The transactions wait in the mempools of shards whose committees
  are empty, because the validator set is.
\<close>
theorem submissions_go_nowhere:
  assumes "node_new E shuffle L G config rt db key_ok net = Ok n0"
    and "submit_all E addr_hash txs n0 = Some n"
    and "\<And>seed. shuffle seed [] = []"
  shows "propose_block E now (pn_consensus n) prev = None \<and> no_mempool_size (get_node_stats n) = 0 \<and>
    get_balance a n = 0 \<and> node_get_block height n = None \<and>
    (\<forall>i sh. hm_get (sm_shards (pn_shard_manager n0)) i = Some sh \<longrightarrow> sh_validators sh = [])"
proof -
  note f = node_new_facts [OF assms(1)] and g = submit_all_frame [OF assms(2)]
  have "sh_validators sh = []"
    if "hm_get (sm_shards (pn_shard_manager n0)) i = Some sh" for i sh
    using that assms(3)
    by (auto simp: f(2) init_get shard_manager_new_def init_shard_def get_random_committee_def validator_set_new_def
        split: if_splits)
  then show ?thesis using new_engine_idle [of n] new_vm_empty [of n a] f(1,3) g by auto
qed

text \<open>
  A new node is made exactly when the runtime starts, the database opens, the proving system sets up, the key is
  valid and the network starts.
\<close>
theorem node_new_starts:
  "(\<exists>n. node_new E shuffle L G config rt db key_ok net = Ok n) \<longleftrightarrow>
    (\<exists>r. rt = Ok r) \<and> (\<exists>d. db = Ok d) \<and> (\<exists>k. groth_setup G dummy_circuit = Ok k) \<and> key_ok \<and> (\<exists>w. net = Ok w)"
  by (cases rt; cases db; cases "groth_setup G dummy_circuit"; cases net; cases key_ok)
    (auto simp: node_new_def rs_bind_def zk_setup_def Let_def)

definition sample_lru :: "unit lru_ops" where
  "sample_lru = \<lparr>lru_new = (\<lambda>k. ()), lru_get = (\<lambda>h c. (None, c)), lru_put = (\<lambda>h a c. c)\<rparr>"

definition routed_tx :: transaction where
  "routed_tx = (sample_tx 1 0 None 5 1)\<lparr>tx_shard_id := 1\<rparr>"

lemma sample_submission:
  obtains n0 n where
    "node_new sample_ext (\<lambda>seed xs. xs) sample_lru sample_groth sample_config (Ok ()) (Ok mem_new) True (Ok sample_node) =
       Ok (n0 :: (unit, _, _, _, _, _, _) proton_node)"
    "submit_transaction sample_ext (\<lambda>a. Hash [0, 0]) routed_tx n0 = Some (Ok (tx_hash sample_ext routed_tx), n)"
proof -
  obtain n0 :: "(unit, _, _, _, _, _, _) proton_node" where
    n0: "node_new sample_ext (\<lambda>seed xs. xs) sample_lru sample_groth sample_config (Ok ()) (Ok mem_new) True (Ok sample_node) = Ok n0"
    by (simp add: node_new_def zk_setup_def sample_groth_def)
  have sh: "hm_get (sm_shards (pn_shard_manager n0)) 1 = Some (init_shard sample_ext (\<lambda>seed xs. xs) sample_config validator_set_new 1)"
    by (simp add: node_new_facts(2) [OF n0] init_new(1)) (simp add: sample_config_def)
  have "cfg_shard_count (sm_config (pn_shard_manager n0)) = 2"
    by (simp add: node_new_facts(2) [OF n0] init_new(3)) (simp add: sample_config_def)
  then have "pick_shard (\<lambda>a. Hash [0, 0]) (sm_config (pn_shard_manager n0)) routed_tx = Some 1"
    by (simp add: pick_shard_def routed_tx_def)
  moreover have "\<exists>mp. add_transaction sample_ext routed_tx
      (hs_mempool (sh_consensus (init_shard sample_ext (\<lambda>seed xs. xs) sample_config validator_set_new 1))) = Ok mp"
    by (simp add: add_transaction_def init_shard_def hotstuff_new_def mempool_new_def Let_def)
  ultimately obtain n where
    "submit_transaction sample_ext (\<lambda>a. Hash [0, 0]) routed_tx n0 = Some (Ok (tx_hash sample_ext routed_tx), n)"
    using sh by (auto simp: submit_transaction_def route_transaction_def)
  with n0 show thesis by (rule that)
qed

theorem submissions_go_nowhere_witness:
  "\<exists>n0 n. node_new sample_ext (\<lambda>seed xs. xs) sample_lru sample_groth sample_config (Ok ()) (Ok mem_new) True (Ok sample_node) = Ok n0 \<and>
    submit_all sample_ext (\<lambda>a. Hash [0, 0]) [routed_tx] (n0 :: (unit, _, _, _, _, _, _) proton_node) = Some n \<and>
    propose_block sample_ext 0 (pn_consensus n) hash_zero = None"
proof -
  obtain n0 n where n0: "node_new sample_ext (\<lambda>seed xs. xs) sample_lru sample_groth sample_config (Ok ()) (Ok mem_new) True (Ok sample_node) =
       Ok (n0 :: (unit, _, _, _, _, _, _) proton_node)"
    and "submit_transaction sample_ext (\<lambda>a. Hash [0, 0]) routed_tx n0 = Some (Ok (tx_hash sample_ext routed_tx), n)"
    by (rule sample_submission)
  then have n: "submit_all sample_ext (\<lambda>a. Hash [0, 0]) [routed_tx] n0 = Some n" by simp
  from submissions_go_nowhere [OF n0 n] n0 n show ?thesis by blast
qed

end
