(* ===== verification/NodePools.thy ===== *)
theory NodePools
  imports Node
begin

text \<open>
  The composition of \<open>ProtonNode\<close> (\<^verbatim>\<open>src/src/lib.rs\<close>) with the shard manager and the mempools of its shards:
  what is true of every shard after a node has started and accepted any submissions. The mempool's
  invariant needs that no two different transactions collide; it is enough to ask that of the
  submitted ones.
\<close>

abbreviation shard_pool :: "shard \<Rightarrow> mempool" where
  "shard_pool sh \<equiv> hs_mempool (sh_consensus sh)"

text \<open>Every shard's mempool is consistent and holds transactions of \<open>T\<close> only.\<close>

definition pools_inv :: "ext \<Rightarrow> transaction set \<Rightarrow> 'ch shard_manager \<Rightarrow> bool" where
  "pools_inv E T sm \<longleftrightarrow> sm_wf sm \<and>
     (\<forall>i sh. hm_get (sm_shards sm) i = Some sh \<longrightarrow>
        mempool_inv E (shard_pool sh) \<and> ran (hm_get (mp_transactions (shard_pool sh))) \<subseteq> T)"

lemma pools_invD:
  assumes "pools_inv E T sm" and "hm_get (sm_shards sm) i = Some sh"
  shows "mempool_inv E (shard_pool sh)" "hm_get (mp_transactions (shard_pool sh)) h = Some tx \<Longrightarrow> tx \<in> T"
  using assms by (auto simp: pools_inv_def ran_def)

lemma add_get:
  "add_transaction E tx mp = Ok mp' \<Longrightarrow>
    hm_get (mp_transactions mp') = (hm_get (mp_transactions mp))(tx_hash E tx \<mapsto> tx)"
  by (auto simp: add_transaction_def Let_def split: if_splits)

lemma pools_no_collision:
  assumes "pools_inv E T sm" and "inj_on (tx_hash E) T" and "tx \<in> T" and "hm_get (sm_shards sm) i = Some sh"
  shows "no_collision E tx (shard_pool sh)"
proof -
  note inv = pools_invD [OF assms(1,4)]
  have "tx' = tx" if "hm_get (mp_transactions (shard_pool sh)) (tx_hash E tx) = Some tx'" for tx'
    using mempool_invD(5) [OF inv(1) that] inv(2) [OF that] assms(2,3) by (auto dest: inj_onD)
  then show ?thesis by (auto simp: no_collision_def split: option.splits)
qed

lemma route_pools:
  assumes "pools_inv E T sm" and "inj_on (tx_hash E) T" and "tx \<in> T"
    and "route_transaction E addr_hash tx sm = Some (res, sm')"
  shows "pools_inv E T sm'"
  using assms(4)
proof (cases rule: route_cases)
  case (added i sh mp)
  note inv = pools_invD [OF assms(1) added(2)]
  have "mempool_inv E mp" by (rule add_inv [OF inv(1) pools_no_collision [OF assms(1-3) added(2)] added(3)])
  moreover have "ran (hm_get (mp_transactions mp)) \<subseteq> T"
    using inv(2) assms(3) by (auto simp: add_get [OF added(3)] ran_def)
  moreover have "sm_wf sm'" using assms(1) added(2) by (auto simp: pools_inv_def sm_wf_def added(5) update_shard_def)
  ultimately show ?thesis using assms(1) by (auto simp: pools_inv_def added(5) update_shard_def)
qed (use assms(1) in simp)

lemma init_pools:
  "pools_inv E T (initialize_shards E shuffle vs (shard_manager_new config router_new))"
  using mempool_inv_new [of E 100000]
  by (auto simp: pools_inv_def init_new init_shard_def hotstuff_new_def mempool_new_def split: if_splits)

lemma submit_pools:
  assumes "pools_inv E T (pn_shard_manager n)" and "inj_on (tx_hash E) T" and "tx \<in> T"
    and "submit_transaction E addr_hash tx n = Some (res, n')"
  shows "pools_inv E T (pn_shard_manager n')"
  using assms(4) route_pools [OF assms(1-3)]
  by (auto simp: submit_transaction_def split: option.splits sum.splits prod.splits)

lemma submit_all_pools:
  assumes "pools_inv E T (pn_shard_manager n)" and "inj_on (tx_hash E) T" and "set txs \<subseteq> T"
    and "submit_all E addr_hash txs n = Some n'"
  shows "pools_inv E T (pn_shard_manager n')"
  using assms(1,3,4)
  by (induction txs arbitrary: n) (auto split: option.splits dest: submit_pools [OF _ assms(2)])

text \<open>
  C27. A running node stays well formed: from its start on, whatever is submitted (and as long as no
  two of the submitted transactions collide), the shards and the router keep their invariant, the
  indexes of every shard's mempool agree with its transactions, which are all submitted ones, and
  everything that a shard's engine proposes was submitted.
\<close>
theorem node_stays_well_formed:
  assumes "node_new E shuffle L G config rt db key_ok net = Ok n0"
    and "submit_all E addr_hash txs n0 = Some n" and "inj_on (tx_hash E) (set txs)"
  shows "sm_wf (pn_shard_manager n) \<and>
    (\<forall>i sh. hm_get (sm_shards (pn_shard_manager n)) i = Some sh \<longrightarrow>
       mempool_inv E (shard_pool sh) \<and>
       (\<forall>now prev b. propose_block E now (sh_consensus sh) prev = Some b \<longrightarrow> set (transactions b) \<subseteq> set txs))"
proof -
  have inv: "pools_inv E (set txs) (pn_shard_manager n)"
    using submit_all_pools [OF _ assms(3) order_refl assms(2)] by (simp add: node_new_facts(2) [OF assms(1)] init_pools)
  have "set (transactions b) \<subseteq> set txs"
    if sh: "hm_get (sm_shards (pn_shard_manager n)) i = Some sh" and b: "propose_block E now (sh_consensus sh) prev = Some b"
    for i sh now prev b
  proof -
    have "transactions b = get_transactions (shard_pool sh) 1000 (cfg_min_gas_price (hs_config (sh_consensus sh)))"
      using b by (auto simp: propose_block_def Let_def split: if_splits)
    then show ?thesis
      using get_transactions_facts [OF pools_invD(1) [OF inv sh]] pools_invD(2) [OF inv sh]
      by (fastforce dest: in_set_takeD)
  qed
  then show ?thesis using inv by (auto simp: pools_inv_def)
qed

text \<open>
  C28. What a successful submission achieves: it returns the hash of the transaction, and some
  shard's mempool then holds the transaction; if its gas price reaches that shard's minimum, the
  shard's engine proposes a block when asked to.
\<close>
theorem submission_reaches_a_shard:
  assumes "node_new E shuffle L G config rt db key_ok net = Ok n0"
    and "submit_all E addr_hash txs n0 = Some n" and "inj_on (tx_hash E) (insert tx (set txs))"
    and "submit_transaction E addr_hash tx n = Some (Ok h, n')"
  shows "h = tx_hash E tx \<and> (\<exists>i sh. hm_get (sm_shards (pn_shard_manager n')) i = Some sh \<and>
    hm_get (mp_transactions (shard_pool sh)) h = Some tx \<and>
    (cfg_min_gas_price (hs_config (sh_consensus sh)) \<le> tx_gas_price tx \<longrightarrow>
       propose_block E now (sh_consensus sh) prev \<noteq> None))"
proof -
  let ?T = "insert tx (set txs)"
  have inv: "pools_inv E ?T (pn_shard_manager n)"
    using submit_all_pools [OF _ assms(3) _ assms(2)] by (auto simp: node_new_facts(2) [OF assms(1)] init_pools)
  obtain i sm where r: "route_transaction E addr_hash tx (pn_shard_manager n) = Some (Ok i, sm)"
    and n': "pn_shard_manager n' = sm" "h = tx_hash E tx"
    using assms(4) by (auto simp: submit_transaction_def split: option.splits sum.splits prod.splits)
  have inv': "pools_inv E ?T sm" by (rule route_pools [OF inv assms(3) _ r]) simp
  obtain sh where sh: "hm_get (sm_shards sm) i = Some sh" "hm_get (mp_transactions (shard_pool sh)) h = Some tx"
    using r by (auto simp: route_transaction_def update_shard_def n'(2) add_get split: option.splits sum.splits)
  have "propose_block E now (sh_consensus sh) prev \<noteq> None"
    if "cfg_min_gas_price (hs_config (sh_consensus sh)) \<le> tx_gas_price tx"
  proof -
    let ?m = "cfg_min_gas_price (hs_config (sh_consensus sh))"
    note g = get_transactions_facts [OF pools_invD(1) [OF inv' sh(1)], of 1000 ?m]
    have "tx \<in> set (eligible (shard_pool sh) ?m)" using g sh(2) that by blast
    then have "eligible (shard_pool sh) ?m \<noteq> []" by auto
    then show ?thesis using g by (simp add: propose_block_def Let_def)
  qed
  with sh n' show ?thesis by blast
qed

theorem node_stays_well_formed_witness:
  "\<exists>n0 n. node_new sample_ext (\<lambda>seed xs. xs) sample_lru sample_groth sample_config (Ok ()) (Ok mem_new) True (Ok sample_node) = Ok n0 \<and>
    submit_all sample_ext (\<lambda>a. Hash [0, 0]) [routed_tx] (n0 :: (unit, _, _, _, _, _, _) proton_node) = Some n \<and>
    sm_wf (pn_shard_manager n)"
proof -
  obtain n0 n where n0: "node_new sample_ext (\<lambda>seed xs. xs) sample_lru sample_groth sample_config (Ok ()) (Ok mem_new) True (Ok sample_node) =
       Ok (n0 :: (unit, _, _, _, _, _, _) proton_node)"
    and "submit_transaction sample_ext (\<lambda>a. Hash [0, 0]) routed_tx n0 = Some (Ok (tx_hash sample_ext routed_tx), n)"
    by (rule sample_submission)
  then have n: "submit_all sample_ext (\<lambda>a. Hash [0, 0]) [routed_tx] n0 = Some n" by simp
  from node_stays_well_formed [OF n0 n] n0 n show ?thesis by auto
qed

theorem submission_reaches_a_shard_witness:
  "\<exists>n0 n i sh. node_new sample_ext (\<lambda>seed xs. xs) sample_lru sample_groth sample_config (Ok ()) (Ok mem_new) True (Ok sample_node) = Ok n0 \<and>
    submit_transaction sample_ext (\<lambda>a. Hash [0, 0]) routed_tx (n0 :: (unit, _, _, _, _, _, _) proton_node) =
      Some (Ok (tx_hash sample_ext routed_tx), n) \<and>
    hm_get (sm_shards (pn_shard_manager n)) i = Some sh \<and>
    hm_get (mp_transactions (shard_pool sh)) (tx_hash sample_ext routed_tx) = Some routed_tx"
proof -
  obtain n0 n where n0: "node_new sample_ext (\<lambda>seed xs. xs) sample_lru sample_groth sample_config (Ok ()) (Ok mem_new) True (Ok sample_node) =
       Ok (n0 :: (unit, _, _, _, _, _, _) proton_node)"
    and s: "submit_transaction sample_ext (\<lambda>a. Hash [0, 0]) routed_tx n0 = Some (Ok (tx_hash sample_ext routed_tx), n)"
    by (rule sample_submission)
  have "submit_all sample_ext (\<lambda>a. Hash [0, 0]) [] n0 = Some n0" by simp
  from submission_reaches_a_shard [OF n0 this _ s, of 0 hash_zero] n0 s show ?thesis by auto
qed

end
