(* ===== verification/Running.thy ===== *)
theory Running
  imports Node
begin

text \<open>
  The node while it runs: \<open>ProtonNode::start\<close> (\<^verbatim>\<open>src/src/lib.rs\<close>) and the background tasks it spawns, the
  timer of the consensus engine (\<^verbatim>\<open>src/src/consensus/mod.rs\<close>, \<open>start\<close>) and \<open>ShardSync\<close>
  (\<^verbatim>\<open>src/src/multichain/mod.rs\<close>), with the pruning task of \<^verbatim>\<open>src/src/storage/mod.rs\<close>, which nothing starts.
  A tick of a timer is one step; ticks and submissions interleave in \<open>node_step\<close>. What the
  synchronisation task writes to the debug log is part of the state, as its only effect.
\<close>

subsection \<open>The tasks\<close>

datatype sync_message = SyncingPending nat | ShardHasPending u16 nat

definition sync_tick :: "'ch shard_manager \<Rightarrow> sync_message list" where
  "sync_tick sm =
     (let pending = pending_count (get_cross_chain_stats sm)
      in (if pending > 0 then [SyncingPending pending] else []) @
         map (\<lambda>stat. ShardHasPending (si_shard_id stat) (si_pending_cross_txs stat))
           (filter (\<lambda>stat. si_pending_cross_txs stat > 0) (get_all_shard_stats sm)))"

text \<open>The branch of a leader is empty.\<close>

definition consensus_tick :: "hotstuff \<Rightarrow> hotstuff" where
  "consensus_tick hs = (case get_leader (hs_validator_set hs) 0 of Some leader \<Rightarrow> hs | None \<Rightarrow> hs)"

record state_pruner =
  sp_keep_blocks :: u64
  sp_prune_interval :: u64

definition pruner_new :: "u64 \<Rightarrow> u64 \<Rightarrow> state_pruner" where
  "pruner_new keep interval = \<lparr>sp_keep_blocks = keep, sp_prune_interval = interval\<rparr>"

text \<open>The task does not call \<open>prune_old_blocks\<close>.\<close>

definition pruning_tick :: "state_pruner \<Rightarrow> ('d, 'c) state_storage \<Rightarrow> ('d, 'c) state_storage" where
  "pruning_tick pruner ss = ss"

record ('ch, 's, 'p, 'd, 'c, 'pk, 'vk) running_node =
  rn_node :: "('ch, 's, 'p, 'd, 'c, 'pk, 'vk) proton_node"
  rn_consensus_tasks :: nat
  rn_sync_tasks :: nat
  rn_log :: "sync_message list"

definition stopped :: "('ch, 's, 'p, 'd, 'c, 'pk, 'vk) proton_node \<Rightarrow> ('ch, 's, 'p, 'd, 'c, 'pk, 'vk) running_node" where
  "stopped n = \<lparr>rn_node = n, rn_consensus_tasks = 0, rn_sync_tasks = 0, rn_log = []\<rparr>"

text \<open>
  \<open>tokio::spawn\<close> panics outside of a runtime: \<open>None\<close>, for a caller with \<open>in_runtime\<close> false. The
  interval of the engine's task panics on a period of zero, which ends that task before its first tick.
\<close>

definition node_start ::
    "bool \<Rightarrow> ('ch, 's, 'p, 'd, 'c, 'pk, 'vk) running_node \<Rightarrow>
      (unit rs_result \<times> ('ch, 's, 'p, 'd, 'c, 'pk, 'vk) running_node) option" where
  "node_start in_runtime r =
     (if \<not> in_runtime then None
      else
        let ticking = (if cfg_block_time_ms (hs_config (pn_consensus (rn_node r))) = 0 then 0 else 1)
        in Some (Ok (), r\<lparr>rn_consensus_tasks := rn_consensus_tasks r + ticking, rn_sync_tasks := rn_sync_tasks r + 1\<rparr>))"

inductive node_step ::
    "ext \<Rightarrow> (address \<Rightarrow> hash) \<Rightarrow> ('ch, 's, 'p, 'd, 'c, 'pk, 'vk) running_node \<Rightarrow>
      ('ch, 's, 'p, 'd, 'c, 'pk, 'vk) running_node \<Rightarrow> bool"
  for E addr_hash where
  start: "node_start in_runtime r = Some (res, r') \<Longrightarrow> node_step E addr_hash r r'"
| consensus_timer: "0 < rn_consensus_tasks r \<Longrightarrow>
    node_step E addr_hash r (r\<lparr>rn_node := (rn_node r)\<lparr>pn_consensus := consensus_tick (pn_consensus (rn_node r))\<rparr>\<rparr>)"
| sync_timer: "0 < rn_sync_tasks r \<Longrightarrow>
    node_step E addr_hash r (r\<lparr>rn_log := rn_log r @ sync_tick (pn_shard_manager (rn_node r))\<rparr>)"
| submit: "submit_transaction E addr_hash tx (rn_node r) = Some (res, n) \<Longrightarrow>
    node_step E addr_hash r (r\<lparr>rn_node := n\<rparr>)"

subsection \<open>The queues of the shards\<close>

text \<open>No shard has a pending cross-shard transaction of its own.\<close>

definition queues_empty :: "'ch shard_manager \<Rightarrow> bool" where
  "queues_empty sm \<longleftrightarrow> (\<forall>i sh. (i, sh) \<in> set (sm_shards sm) \<longrightarrow> sh_pending_cross_txs sh = [])"

lemma set_hm_insert: "set (hm_insert k v m) \<subseteq> insert (k, v) (set m)"
  by (induction m) (auto simp: hm_insert_def)

lemma queues_empty_get: "queues_empty sm \<Longrightarrow> hm_get (sm_shards sm) i = Some sh \<Longrightarrow> sh_pending_cross_txs sh = []"
  by (auto simp: queues_empty_def dest: hm_get_in_set)

lemma queues_empty_update:
  "queues_empty sm \<Longrightarrow> sh_pending_cross_txs sh = [] \<Longrightarrow> queues_empty (update_shard i sh sm)"
  using set_hm_insert [of i sh "sm_shards sm"] by (auto simp: queues_empty_def update_shard_def)

lemma queues_empty_router [simp]: "queues_empty (sm\<lparr>sm_router := r\<rparr>) = queues_empty sm"
  by (simp add: queues_empty_def)

lemma queues_empty_sync: "queues_empty sm \<Longrightarrow> filter (\<lambda>stat. si_pending_cross_txs stat > 0) (get_all_shard_stats sm) = []"
  by (auto simp: filter_empty_conv get_all_shard_stats_def info_of_def queues_empty_def)

lemma queues_empty_fold:
  assumes "queues_empty sm" and "\<And>n. sh_pending_cross_txs (g n) = []"
  shows "queues_empty (sm\<lparr>sm_shards := fold (\<lambda>n. hm_insert (word_of_nat n) (g n)) ns (sm_shards sm)\<rparr>)"
  using assms(1)
proof (induction ns arbitrary: sm)
  case (Cons n ns)
  from Cons.IH [OF queues_empty_update [where i = "word_of_nat n", OF Cons.prems assms(2) [of n]]]
  show ?case by (simp add: update_shard_def)
qed simp

lemma queues_empty_init: "queues_empty (initialize_shards E shuffle vs (shard_manager_new config r))"
  unfolding initialize_shards_def Let_def
  by (rule queues_empty_fold) (simp_all add: queues_empty_def shard_manager_new_def init_shard_def)

lemma queues_empty_route:
  assumes "queues_empty sm" and "route_transaction E addr_hash tx sm = Some (res, sm')"
  shows "queues_empty sm' \<and> sm_router sm' = sm_router sm"
  using assms(2)
  by (cases rule: route_cases)
    (use assms(1) in \<open>auto intro!: queues_empty_update simp: queues_empty_get update_shard_def [THEN arg_cong [of _ _ sm_router]]\<close>)

lemma queues_empty_process:
  assumes "queues_empty sm" and "process_cross_chain_tx try_send tx sm = (res, sm')"
  shows "queues_empty sm'"
  using assms
  by (auto simp: process_cross_chain_tx_def Let_def set_shard_account_def queues_empty_get
      intro!: queues_empty_update split: option.splits if_splits prod.splits)

lemma queues_empty_receive:
  assumes "queues_empty sm" and "receive_cross_chain_tx tx sm = (res, sm')"
  shows "queues_empty sm'"
  using assms
  by (auto simp: receive_cross_chain_tx_def Let_def set_shard_account_def queues_empty_get
      intro!: queues_empty_update split: option.splits prod.splits)

text \<open>
  The synchronisation task can only ever report the router: under any interleaving of cross-shard
  sends, deliveries and routing from the initial shards, a tick reports the number of transactions
  pending at the router, if there are any, and never a shard, because nothing fills the queue that
  the shards' statistics count.
\<close>
theorem sync_reports_router_only:
  assumes "cross_reach E addr_hash try_send (initialize_shards E shuffle vs (shard_manager_new config r)) sm"
  shows "sync_tick sm =
    (if pending_txs (sm_router sm) = [] then [] else [SyncingPending (length (pending_txs (sm_router sm)))])"
proof -
  have "queues_empty sm"
    using assms
  proof induction
    case (more sm sm')
    show ?case
      by (rule cross_step.cases [OF more.hyps(2)])
        (auto dest: queues_empty_process [OF more.IH] queues_empty_receive [OF more.IH] queues_empty_route [OF more.IH])
  qed (rule queues_empty_init)
  from queues_empty_sync [OF this] show ?thesis
    by (simp add: sync_tick_def Let_def get_cross_chain_stats_def router_stats_def)
qed

subsection \<open>The running node\<close>

definition idle :: "hotstuff \<Rightarrow> ('ch, 's, 'p, 'd, 'c, 'pk, 'vk) running_node \<Rightarrow> bool" where
  "idle hs r \<longleftrightarrow> pn_consensus (rn_node r) = hs \<and> vm_accounts (pn_vm (rn_node r)) = [] \<and>
     queues_empty (pn_shard_manager (rn_node r)) \<and>
     pending_txs (sm_router (pn_shard_manager (rn_node r))) = [] \<and> rn_log r = []"

lemma idle_step:
  assumes "idle hs r" and "node_step E addr_hash r r'" shows "idle hs r'"
  using assms(2)
proof (cases rule: node_step.cases)
  case (start in_runtime res)
  then show ?thesis using assms(1) by (auto simp: idle_def node_start_def Let_def split: if_splits)
next
  case consensus_timer
  then show ?thesis using assms(1) by (simp add: idle_def consensus_tick_def split: option.split)
next
  case sync_timer
  then show ?thesis using assms(1)
    by (simp add: idle_def sync_tick_def queues_empty_sync get_cross_chain_stats_def router_stats_def)
next
  case (submit tx res n)
  have "queues_empty (pn_shard_manager n) \<and> sm_router (pn_shard_manager n) = sm_router (pn_shard_manager (rn_node r))"
    using submit(2) assms(1) queues_empty_route
    by (fastforce simp: submit_transaction_def idle_def split: option.splits sum.splits)
  then show ?thesis using submit submit_frame [OF submit(2)] assms(1) by (simp add: idle_def)
qed


subsection \<open>Witnesses\<close>

theorem sync_reports_router_only_witness:
  "sync_tick (initialize_shards sample_ext (\<lambda>seed xs. xs) validator_set_new
     (shard_manager_new sample_config (router_new\<lparr>pending_txs := [(Hash [1], sample_cross 1)]\<rparr>)
        :: cross_tx list shard_manager)) = [SyncingPending 1]"
  using sync_reports_router_only [of sample_ext "\<lambda>a. Hash [0, 0]" "\<lambda>ch tx. ch @ [tx]" "\<lambda>seed xs. xs"
      validator_set_new sample_config "router_new\<lparr>pending_txs := [(Hash [1], sample_cross 1)]\<rparr>", OF cross_reach.start]
  by (simp add: initialize_shards_def shard_manager_new_def)


end
