(* ===== verification/Parallel.thy ===== *)
theory Parallel
  imports Vm
begin

text \<open>
  \<^verbatim>\<open>src/src/vm/mod.rs\<close>, \<open>ParallelExecutor\<close>: when running a block on the thread pool is equivalent to running
  it in order. The footprint of a transaction is the set of addresses whose account or contract its
  execution reads or writes; transactions with disjoint footprints do not see each other, so every
  schedule of them gives the results and the state of the sequential executor.
\<close>

subsection \<open>Footprints\<close>

definition footprint :: "ext \<Rightarrow> transaction \<Rightarrow> address set" where
  "footprint E tx =
     (case tx_type tx of
        Transfer \<Rightarrow> {tx_from tx, unwrap_or (tx_to tx) (tx_from tx)}
      | PrivateTransfer \<Rightarrow> {tx_from tx, unwrap_or (tx_to tx) (tx_from tx)}
      | ContractDeploy \<Rightarrow> {contract_address E tx}
      | ContractCall \<Rightarrow> {unwrap_or (tx_to tx) (tx_from tx)}
      | _ \<Rightarrow> {})"

definition conflict_free :: "ext \<Rightarrow> transaction list \<Rightarrow> bool" where
  "conflict_free E txs \<longleftrightarrow> sorted_wrt (\<lambda>t u. footprint E t \<inter> footprint E u = {}) txs"

text \<open>What a transaction can see of an address.\<close>

definition view_at :: "vm_state \<Rightarrow> address \<Rightarrow> account \<times> contract_code option" where
  "view_at st a = (account_at st a, vm_get_contract st a)"

lemma contract_apply [simp]: "vm_get_contract (apply_account_change c st) = vm_get_contract st"
  by (cases c) (simp add: vm_get_contract_def apply_account_change_def Let_def fun_eq_iff)

lemma view_apply [simp]:
  "view_at (apply_account_change (b, c) st) a =
     (if a = b then ((account_at st b)\<lparr>acc_balance := acc_balance (account_at st b) + balance_delta c,
        acc_nonce := acc_nonce (account_at st b) + nonce_delta c\<rparr>, vm_get_contract st b) else view_at st a)"
  by (simp add: view_at_def account_at_apply)

subsection \<open>Locality\<close>

text \<open>A transfer reads and writes the views of its footprint, and nothing else.\<close>

lemma transfer_local:
  assumes "\<forall>a \<in> {tx_from tx, unwrap_or (tx_to tx) (tx_from tx)}. view_at st a = view_at st2 a"
  shows "fst (execute_transfer G tx gas st) = fst (execute_transfer G tx gas st2) \<and>
    (\<forall>a \<in> {tx_from tx, unwrap_or (tx_to tx) (tx_from tx)}.
       view_at (snd (execute_transfer G tx gas st)) a = view_at (snd (execute_transfer G tx gas st2)) a)"
proof -
  let ?r = "unwrap_or (tx_to tx) (tx_from tx)"
  have "account_at st (tx_from tx) = account_at st2 (tx_from tx)" "account_at st ?r = account_at st2 ?r"
    "vm_get_contract st (tx_from tx) = vm_get_contract st2 (tx_from tx)"
    "vm_get_contract st ?r = vm_get_contract st2 ?r"
    using assms by (auto simp: view_at_def)
  then show ?thesis using assms
    by (simp add: execute_transfer_def Let_def hm_insert_def failed_def account_at_apply)
qed

lemma transfer_frame:
  assumes "a \<notin> {tx_from tx, unwrap_or (tx_to tx) (tx_from tx)}"
  shows "view_at (snd (execute_transfer G tx gas st)) a = view_at st a"
  using assms by (auto simp: execute_transfer_def Let_def hm_insert_def)

lemma execute_local:
  assumes "\<forall>a \<in> footprint E tx. view_at st a = view_at st2 a"
  shows "fst (execute_transaction E G tx st) = fst (execute_transaction E G tx st2) \<and>
    (\<forall>a \<in> footprint E tx. view_at (snd (execute_transaction E G tx st)) a =
       view_at (snd (execute_transaction E G tx st2)) a)"
proof (cases "tx_type tx")
  case Transfer
  then show ?thesis
    using assms transfer_local [of tx st st2] by (simp add: execute_transaction_def footprint_def)
next
  case PrivateTransfer
  then show ?thesis
    using assms transfer_local [of tx st st2]
    by (simp add: execute_transaction_def execute_private_transfer_def footprint_def Let_def)
qed (use assms in \<open>auto simp: execute_transaction_def execute_contract_deploy_def execute_contract_call_def
      footprint_def Let_def view_at_def account_at_def vm_get_contract_def split: option.splits\<close>)

lemma execute_frame:
  assumes "a \<notin> footprint E tx"
  shows "view_at (snd (execute_transaction E G tx st)) a = view_at st a"
proof (cases "tx_type tx")
  case Transfer
  then show ?thesis using assms transfer_frame [of a tx] by (simp add: execute_transaction_def footprint_def)
next
  case PrivateTransfer
  then show ?thesis using assms transfer_frame [of a tx]
    by (simp add: execute_transaction_def execute_private_transfer_def footprint_def Let_def)
qed (use assms in \<open>auto simp: execute_transaction_def execute_contract_deploy_def execute_contract_call_def
      footprint_def Let_def view_at_def account_at_def vm_get_contract_def split: option.splits\<close>)

lemma execute_storage: "vm_storage (snd (execute_transaction E G tx st)) = vm_storage st"
proof -
  have "vm_storage (fold apply_account_change cs st) = vm_storage st" for cs
    by (induction cs arbitrary: st) (auto simp: apply_account_change_def Let_def)
  then show ?thesis
    by (auto simp: execute_transaction_def execute_transfer_def execute_private_transfer_def
        execute_contract_deploy_def execute_contract_call_def Let_def split: transaction_type.splits option.splits)
qed

subsection \<open>Blocks\<close>

text \<open>Without conflicts, every transaction of a sequential run behaves as if it ran first.\<close>

lemma sequential_independent:
  assumes "conflict_free E txs" and "execute_block_sequential E G txs st = (rs, st')"
  shows "rs = map (\<lambda>tx. fst (execute_transaction E G tx st)) txs \<and> vm_storage st' = vm_storage st \<and>
    (\<forall>tx \<in> set txs. \<forall>a \<in> footprint E tx. view_at st' a = view_at (snd (execute_transaction E G tx st)) a) \<and>
    (\<forall>a. (\<forall>tx \<in> set txs. a \<notin> footprint E tx) \<longrightarrow> view_at st' a = view_at st a)"
  using assms
proof (induction txs arbitrary: st rs)
  case (Cons tx txs)
  obtain r st1 where 1: "execute_transaction E G tx st = (r, st1)" by fastforce
  obtain rs' where 2: "execute_block_sequential E G txs st1 = (rs', st')" "rs = r # rs'"
    using Cons.prems(2) 1 by (auto split: prod.splits)
  have cf: "conflict_free E txs" and dis: "\<And>t. t \<in> set txs \<Longrightarrow> footprint E tx \<inter> footprint E t = {}"
    using Cons.prems(1) by (auto simp: conflict_free_def)
  have same: "view_at st1 a = view_at st a" if "a \<notin> footprint E tx" for a
    using execute_frame [OF that, of G st] 1 by simp
  note IH = Cons.IH [OF cf 2(1)]
  have loc: "fst (execute_transaction E G t st1) = fst (execute_transaction E G t st) \<and>
      (\<forall>a \<in> footprint E t. view_at (snd (execute_transaction E G t st1)) a =
        view_at (snd (execute_transaction E G t st)) a)" if "t \<in> set txs" for t
    using dis [OF that] by (intro execute_local) (auto intro!: same)
  have "view_at st' a = view_at st1 a" if "a \<in> footprint E tx" for a
    using IH dis that by blast
  moreover have "vm_storage st1 = vm_storage st" using execute_storage [of E G tx st] 1 by simp
  ultimately show ?case using IH loc same 1 2(2) by auto
qed simp

lemma conflict_free_order:
  assumes "conflict_free E txs" and "distinct order" and "set order \<subseteq> {0 ..< length txs}"
  shows "conflict_free E (map ((!) txs) order)"
proof -
  have "footprint E (txs ! i) \<inter> footprint E (txs ! j) = {}"
    if "i \<noteq> j" "i < length txs" "j < length txs" for i j
    using assms(1) that
    by (auto simp: conflict_free_def sorted_wrt_iff_nth_less Int_commute linorder_neq_iff)
  moreover have "i < length txs" if "i \<in> set order" for i using assms(3) that by auto
  ultimately show ?thesis
    using assms(2) by (auto simp: conflict_free_def sorted_wrt_iff_nth_less nth_eq_iff_index_eq)
qed

text \<open>
  C23. Parallel execution is equivalent to sequential execution: if no two transactions of a block,
  of whatever types, touch a common address, then every schedule of the thread pool returns the
  list of results of the sequential executor and leaves the same accounts, contracts and contract
  storage.
\<close>
theorem parallel_equals_sequential:
  assumes "conflict_free E txs" and "execute_block_parallel E G txs st (results, st')"
    and "execute_block_sequential E G txs st = (rs, st'')"
  shows "results = rs \<and> account_at st' = account_at st'' \<and> vm_get_contract st' = vm_get_contract st'' \<and>
    vm_storage st' = vm_storage st''"
proof -
  let ?n = "length txs"
  obtain order rs0 where o: "mset order = mset [0 ..< ?n]"
    and run: "execute_block_sequential E G (map ((!) txs) order) st = (rs0, st')"
    and res: "results = map (\<lambda>i. the (map_of (zip order rs0) i)) [0 ..< ?n]"
    using assms(2) by (auto simp: execute_block_parallel_def)
  have d: "distinct order" and so: "set order = {0 ..< ?n}"
    using mset_eq_imp_distinct_iff [OF o] mset_eq_setD [OF o] by simp_all
  note par = sequential_independent [OF conflict_free_order [OF assms(1) d] run]
  note seq = sequential_independent [OF assms(1,3)]
  have "set (map ((!) txs) order) = (!) txs ` {0 ..< ?n}" by (simp add: so)
  also have "\<dots> = set txs" by (auto simp: set_conv_nth)
  finally have st: "set (map ((!) txs) order) = set txs" .
  have "results ! i = rs ! i" if "i < ?n" for i
  proof -
    from that so obtain j where j: "j < length order" "order ! j = i" by (metis atLeastLessThan_iff in_set_conv_nth zero_le)
    have "length rs0 = length order" using par so by simp
    with map_of_zip_nth [OF d this j(1)] j that seq par so show ?thesis by (simp add: res)
  qed
  then have "results = rs" using seq by (intro nth_equalityI) (simp_all add: res)
  moreover have "view_at st' a = view_at st'' a" for a
  proof (cases "\<exists>tx \<in> set txs. a \<in> footprint E tx")
    case True
    then show ?thesis using par seq st so by (metis order_refl)
  next
    case False
    then show ?thesis using par seq st so by auto
  qed
  ultimately show ?thesis using par seq so by (auto simp: view_at_def fun_eq_iff)
qed

theorem parallel_equals_sequential_witness:
  "\<exists>results st'. execute_block_parallel sample_ext gas_schedule_default
     [sample_tx 1 0 (Some (Address [2])) 30 5, sample_tx 3 0 (Some (Address [4])) 10 5] sample_vm (results, st') \<and>
     results = fst (execute_block_sequential sample_ext gas_schedule_default
       [sample_tx 1 0 (Some (Address [2])) 30 5, sample_tx 3 0 (Some (Address [4])) 10 5] sample_vm)"
proof -
  let ?txs = "[sample_tx 1 0 (Some (Address [2])) 30 5, sample_tx 3 0 (Some (Address [4])) 10 5]"
  let ?run = "execute_block_sequential sample_ext gas_schedule_default"
  obtain rs st' where run: "?run (map ((!) ?txs) [1, 0]) sample_vm = (rs, st')" by fastforce
  have par: "execute_block_parallel sample_ext gas_schedule_default ?txs sample_vm
      (map (\<lambda>i. the (map_of (zip [1, 0] rs) i)) [0 ..< length ?txs], st')"
    unfolding execute_block_parallel_def prod.case
    using run by (intro exI [of _ "[1, 0]"] exI [of _ rs]) simp
  obtain ss st'' where seq: "?run ?txs sample_vm = (ss, st'')" by fastforce
  have cf: "conflict_free sample_ext ?txs"
    by (simp add: conflict_free_def footprint_def sample_tx_def)
  from parallel_equals_sequential [OF cf par seq] par seq show ?thesis by (metis fst_conv)
qed

end
