(* ===== verification/Cli.thy ===== *)
theory Cli
  imports Privacy Storage
begin

text \<open>
  \<^verbatim>\<open>src/src/bin/cli.rs\<close>: the command line. \<open>cli_run\<close> maps the parsed command to what it does: the texts it
  prints, the files it writes and the nodes it starts, in order, and the message of a panic that
  ends it. The parser is \<^verbatim>\<open>clap\<close>'s; the datatypes are the source's. Log output (\<^verbatim>\<open>info!\<close>) is left out.

  Parameters (\<open>cli_ext\<close>) are the crates (\<^verbatim>\<open>sha3\<close>, \<^verbatim>\<open>hex\<close>, \<^verbatim>\<open>bs58\<close>, \<^verbatim>\<open>rand\<close>, \<^verbatim>\<open>secp256k1\<close>), the file system, the
  clock, the constructor of the node (theory \<open>Node\<close>) and \<^verbatim>\<open>tokio\<close>: whether a runtime can be created, and the
  message with which \<open>spawn\<close> panics for a caller inside or outside of a runtime (\<open>None\<close>: it does not). The message
  of a failed \<open>expect\<close> is the text it is given, without the error behind it. A text is its UTF-8 bytes. The source file
  ends in the middle of the first report of the benchmark: \<open>cli_benchmark\<close> models the statements before it.
\<close>

subsection \<open>Commands\<close>

datatype network_type = Mainnet | Testnet | Devnet
datatype contract_type = WasmContract | EvmContract
datatype key_type = Ed25519 | Secp256k1
datatype benchmark_type = Tps | Latency | ZkProof | Consensus

datatype cross_chain_command =
    CrossTransfer u64 string string u128 bool
  | CrossStatus string
  | CrossChains

datatype validator_command =
    ValidatorRegister u16 u128
  | ValidatorInfo string
  | ValidatorList
  | ValidatorRewards string

datatype command =
    CmdNode bool u16 string "string list"
  | CmdSend string u128 u128 bool u16
  | CmdDeploy string contract_type u128 u64
  | CmdCall string string string u128
  | CmdStake string u128 bool
  | CmdUnstake string u128
  | CmdBalance string bool
  | CmdInfo bool
  | CmdBlock "u64 option" "string option"
  | CmdTx string
  | CmdCrossChain cross_chain_command
  | CmdValidator validator_command
  | CmdKeygen string key_type
  | CmdStealth string string
  | CmdBenchmark benchmark_type u64 u64

record cli =
  cli_command :: command
  cli_data_dir :: string
  cli_log_level :: string
  cli_network :: network_type

datatype cli_effect = Print string | WriteFile string string | StartNode chain_config string | Sleep u64

datatype cli_outcome = Finished "cli_effect list" | Panicked "cli_effect list" string

record cli_ext =
  ce_sha :: "bytes \<Rightarrow> bytes"
  ce_hex :: "bytes \<Rightarrow> string"
  ce_unhex :: "string \<Rightarrow> bytes option"
  ce_bs58 :: "bytes \<Rightarrow> string"
  ce_random :: "nat \<Rightarrow> bytes"
  ce_secp_public :: "bytes \<Rightarrow> bytes option"
  ce_read_file :: "string \<Rightarrow> bytes option"
  ce_can_write :: "string \<Rightarrow> bool"
  ce_debug_path :: "string \<Rightarrow> string"
  ce_now :: u64
  ce_new_node :: "chain_config \<Rightarrow> string \<Rightarrow> unit rs_result"
  ce_runtime :: bool
  ce_spawn_panic :: "bool \<Rightarrow> string option"

subsection \<open>Text\<close>

definition utf8 :: "nat \<Rightarrow> string" where
  "utf8 c = map (\<lambda>n. char_of (n :: nat))
     (if c < 0x80 then [c]
      else if c < 0x800 then [0xC0 + c div 64, 0x80 + c mod 64]
      else if c < 0x10000 then [0xE0 + c div 4096, 0x80 + c div 64 mod 64, 0x80 + c mod 64]
      else [0xF0 + c div 262144, 0x80 + c div 4096 mod 64, 0x80 + c div 64 mod 64, 0x80 + c mod 64])"

definition newline :: string where "newline = utf8 0x0A"

definition digit :: "nat \<Rightarrow> char" where "digit n = char_of (48 + n mod 10)"

fun show_nat :: "nat \<Rightarrow> string" where
  "show_nat n = (if n < 10 then [digit n] else show_nat (n div 10) @ [digit n])"

declare show_nat.simps [simp del]

text \<open>\<^verbatim>\<open>{}\<close> of \<^verbatim>\<open>c as f64 / 100.0\<close>: the shortest decimal, at most two places for a 16-bit \<open>c\<close>.\<close>

definition show_hundredths :: "u16 \<Rightarrow> string" where
  "show_hundredths c =
     (let n = unat c; whole = show_nat (n div 100)
      in if n mod 100 = 0 then whole
         else if n mod 10 = 0 then whole @ ''.'' @ [digit (n div 10)]
         else whole @ ''.'' @ [digit (n div 10), digit n])"

definition show_bool :: "bool \<Rightarrow> string" where
  "show_bool b = (if b then ''true'' else ''false'')"

subsection \<open>The commands\<close>

definition network_config :: "network_type \<Rightarrow> chain_config" where
  "network_config n =
     (case n of
        Mainnet \<Rightarrow> chain_config_default
      | Testnet \<Rightarrow> chain_config_default\<lparr>cfg_chain_id := 1338\<rparr>
      | Devnet \<Rightarrow> chain_config_default\<lparr>cfg_chain_id := 1339, cfg_shard_count := 4, cfg_block_time_ms := 300\<rparr>)"

text \<open>
  \<open>main\<close> is not asynchronous and enters its runtime only to wait for the interrupt, so \<open>start\<close>, which
  begins with \<open>tokio::spawn\<close>, is called outside. If it returns, the process waits for an interrupt.
\<close>

definition cli_node :: "cli_ext \<Rightarrow> cli \<Rightarrow> cli_outcome" where
  "cli_node X args =
     (let config = network_config (cli_network args)
      in case ce_new_node X config (cli_data_dir args) of
           Err e \<Rightarrow> Panicked [] ''Failed to create node''
         | Ok _ \<Rightarrow>
             (case ce_spawn_panic X False of
                Some msg \<Rightarrow> Panicked [] msg
              | None \<Rightarrow> Finished [StartNode config (cli_data_dir args)]))"

definition cli_send :: "cli_ext \<Rightarrow> cli_outcome" where
  "cli_send X = Finished
     [Print (''Transaction submitted successfully!''),
      Print (''Hash: 0x'' @ ce_hex X (hash_bytes (hash_new (ce_sha X) (ascii ''tx''))))]"

definition cli_deploy :: "cli_ext \<Rightarrow> string \<Rightarrow> cli_outcome" where
  "cli_deploy X file =
     (case ce_read_file X file of
        None \<Rightarrow> Panicked [] ''Failed to read contract file''
      | Some code \<Rightarrow> Finished
     [Print (''Contract deployed successfully!''),
      Print (''Address: proton_'' @ ce_bs58 X (hash_bytes (hash_new (ce_sha X) code)))])"

definition cli_call :: cli_outcome where
  "cli_call = Finished
     [Print (''Contract call executed!''),
      Print (''Result: 0x01'')]"

definition cli_stake :: cli_outcome where
  "cli_stake = Finished [Print (''Stake transaction submitted!'')]"

definition cli_unstake :: cli_outcome where
  "cli_unstake = Finished [Print (''Unstake transaction submitted! Unbonding period: 7 days'')]"

definition cli_balance :: "string \<Rightarrow> bool \<Rightarrow> cli_outcome" where
  "cli_balance address priv =
     (let addr = (if prefix ''proton_'' address then address else ''proton_'' @ address)
      in if priv then Finished [Print (''Private balance: [Encrypted - requires view key to decrypt]'')]
         else Finished
     [Print (''Address: '' @ addr),
      Print (''Balance: 1000.000000 PROTON''),
      Print (''Staked: 500.000000 PROTON'')])"

definition cli_info :: "bool \<Rightarrow> cli_outcome" where
  "cli_info detailed = Finished (
     [Print (utf8 0x2554 @ concat (replicate 40 (utf8 0x2550)) @ utf8 0x2557),
      Print (utf8 0x2551 @ ''         PROTON CHAIN INFO              '' @ utf8 0x2551),
      Print (utf8 0x2560 @ concat (replicate 40 (utf8 0x2550)) @ utf8 0x2563),
      Print (utf8 0x2551 @ '' Chain ID:        1337                 '' @ utf8 0x2551),
      Print (utf8 0x2551 @ '' Version:         0.1.0                '' @ utf8 0x2551),
      Print (utf8 0x2551 @ '' Shard Count:     64                   '' @ utf8 0x2551),
      Print (utf8 0x2551 @ '' Block Time:      300ms                '' @ utf8 0x2551),
      Print (utf8 0x2551 @ '' Consensus:      HotStuff BFT + DAG   '' @ utf8 0x2551),
      Print (utf8 0x2551 @ '' Privacy:         zk-SNARKs + Stealth  '' @ utf8 0x2551),
      Print (utf8 0x2551 @ '' VM:             WASM + EVM            '' @ utf8 0x2551),
      Print (utf8 0x255A @ concat (replicate 40 (utf8 0x2550)) @ utf8 0x255D)] @
     (if detailed then
     [Print (newline @ utf8 0x1F4CA @ '' Network Statistics:''),
      Print (''   Height:        1,234,567''),
      Print (''   TPS:           45,231''),
      Print (''   Validators:    128''),
      Print (''   Peers:         256''),
      Print (''   Mempool:       1,234 txs''),
      Print (''   Avg Latency:   245ms''),
      Print (''   Finality:      300ms''),
      Print (newline @ utf8 0x1F512 @ '' Privacy Features:''),
      Print (''   ZK Proofs:     Enabled''),
      Print (''   Stealth:       Enabled''),
      Print (''   MEV Protection: Enabled''),
      Print (''   Encrypted Mempool: Enabled''),
      Print (newline @ utf8 0x1F517 @ '' Cross-Chain:''),
      Print (''   Supported Chains: 8''),
      Print (''   Pending Transfers: 42''),
      Print (''   Bridge TVL: $12.5M'')] else []))"

definition cli_block :: "cli_ext \<Rightarrow> u64 option \<Rightarrow> string option \<Rightarrow> cli_outcome" where
  "cli_block X height block_hash =
     (case height of
        Some h \<Rightarrow> Finished
     [Print (''Block #'' @ show_nat (unat h) @ '':''),
      Print (''  Hash:        0x'' @ ce_hex X (hash_bytes (hash_new (ce_sha X) (u64_le h)))),
      Print (''  Timestamp:   '' @ show_nat (unat (ce_now X))),
      Print (''  Transactions: 1,234''),
      Print (''  Validator:   proton_1A2B3C...''),
      Print (''  Gas Used:    15,234,567''),
      Print (''  Shard:       0'')]
      | None \<Rightarrow>
          (case block_hash of
             Some hs \<Rightarrow> Finished
     [Print (''Block hash: '' @ hs),
      Print (''  Height:      1,234,567''),
      Print (''  Status:      Finalized'')]
           | None \<Rightarrow> Finished [Print (''Latest block: #1,234,567'')]))"

definition cli_tx :: "string \<Rightarrow> cli_outcome" where
  "cli_tx tx = Finished
     [Print (''Transaction: '' @ tx),
      Print (''  Status:      Confirmed''),
      Print (''  Block:       #1,234,567''),
      Print (''  From:        proton_1A2B3C...''),
      Print (''  To:          proton_4D5E6F...''),
      Print (''  Amount:      1000 PROTON''),
      Print (''  Gas Used:    21,000''),
      Print (''  Type:        Transfer''),
      Print (''  Shard:       0'')]"

definition cli_cross_chain :: "cli_ext \<Rightarrow> cross_chain_command \<Rightarrow> cli_outcome" where
  "cli_cross_chain X cmd =
     (case cmd of
        CrossTransfer target_chain receiver asset amount priv \<Rightarrow> Finished
     [Print (''Initiating cross-chain transfer...''),
      Print (''  Target Chain: '' @ show_nat (unat target_chain)),
      Print (''  Receiver:   '' @ receiver),
      Print (''  Asset:      '' @ asset),
      Print (''  Amount:     '' @ show_nat (unat amount)),
      Print (''  Private:    '' @ show_bool priv),
      Print (newline @ ''Transfer ID: 0x'' @ ce_hex X (hash_bytes (hash_new (ce_sha X) (ascii ''cross''))))]
      | CrossStatus transfer_id \<Rightarrow> Finished
     [Print (''Transfer '' @ transfer_id @ '' status:''),
      Print (''  Status:    SourceConfirmed''),
      Print (''  Signatures: 5/7''),
      Print (''  ETA:       ~2 minutes'')]
      | CrossChains \<Rightarrow> Finished
     [Print (''Supported Chains:''),
      Print (''  1. Ethereum (Chain ID: 1)''),
      Print (''  2. BSC (Chain ID: 56)''),
      Print (''  3. Polygon (Chain ID: 137)''),
      Print (''  4. Arbitrum (Chain ID: 42161)''),
      Print (''  5. Optimism (Chain ID: 10)''),
      Print (''  6. Avalanche (Chain ID: 43114)''),
      Print (''  7. Solana (Chain ID: 1399811149)''),
      Print (''  8. Cosmos (Chain ID: 118)'')])"

definition validator_line :: "cli_ext \<Rightarrow> nat \<Rightarrow> cli_effect" where
  "validator_line X i = Print (''  '' @ show_nat i @ ''. proton_'' @ ce_hex X (replicate 4 (word_of_nat i)) @
     ''... - Stake: '' @ show_nat (100000 - i * 1000) @ '' PROTON - Commission: '' @ show_nat (5 + i) @ ''%'')"

definition cli_validator :: "cli_ext \<Rightarrow> validator_command \<Rightarrow> cli_outcome" where
  "cli_validator X cmd =
     (case cmd of
        ValidatorRegister commission amount \<Rightarrow> Finished
     [Print (''Registering validator...''),
      Print (''  Commission: '' @ show_hundredths commission @ ''%''),
      Print (''  Stake:      '' @ show_nat (unat amount) @ '' PROTON''),
      Print (newline @ ''Validator registered successfully!'')]
      | ValidatorInfo addr \<Rightarrow> Finished
     [Print (''Validator: '' @ addr),
      Print (''  Stake:      100,000 PROTON''),
      Print (''  Commission:  5%''),
      Print (''  Uptime:     99.97%''),
      Print (''  Blocks:     45,231''),
      Print (''  Status:     Active'')]
      | ValidatorList \<Rightarrow> Finished
     (Print ''Active Validators (top 10):'' # map (validator_line X) [1 ..< 11])
      | ValidatorRewards addr \<Rightarrow> Finished
     [Print (''Validator Rewards: '' @ addr),
      Print (''  Total Earned:  5,234 PROTON''),
      Print (''  Last Epoch:    523 PROTON''),
      Print (''  APR:           12.5%'')])"

definition key_pair :: "cli_ext \<Rightarrow> key_type \<Rightarrow> (string \<times> string) option" where
  "key_pair X kt =
     (case kt of
        Ed25519 \<Rightarrow> (let bytes = ce_random X 32 in Some (ce_hex X bytes, ce_hex X bytes))
      | Secp256k1 \<Rightarrow>
          (let secret = replicate 32 1
           in case ce_secp_public X secret of
                None \<Rightarrow> None
              | Some public \<Rightarrow> Some (ce_hex X public, ce_hex X secret)))"

definition key_data :: "cli_ext \<Rightarrow> string \<Rightarrow> string \<Rightarrow> bytes \<Rightarrow> string" where
  "key_data X public secret decoded =
     ''Public Key:  0x'' @ public @ newline @ ''Private Key: 0x'' @ secret @ newline @
     ''Address:     proton_'' @ ce_bs58 X (hash_bytes (hash_new (ce_sha X) decoded)) @ newline"

definition unwrap_panic :: string where
  "unwrap_panic = ''called `Result::unwrap()` on an `Err` value''"

definition cli_keygen :: "cli_ext \<Rightarrow> string \<Rightarrow> key_type \<Rightarrow> cli_outcome" where
  "cli_keygen X output kt =
     (let generating = Print (''Generating '' @ (case kt of Ed25519 \<Rightarrow> ''Ed25519'' | Secp256k1 \<Rightarrow> ''Secp256k1'') @ '' key pair...'')
      in case key_pair X kt of
           None \<Rightarrow> Panicked [generating] unwrap_panic
         | Some (public, secret) \<Rightarrow>
             (case ce_unhex X public of
                None \<Rightarrow> Panicked [generating] unwrap_panic
              | Some decoded \<Rightarrow>
                  if \<not> ce_can_write X output then Panicked [generating] ''Failed to write key file''
                  else Finished
                    [generating, WriteFile output (key_data X public secret decoded),
                     Print (''Key pair saved to '' @ ce_debug_path X output),
                     Print (utf8 0x26A0 @ utf8 0xFE0F @ ''  WARNING: Keep your private key secure!'')]))"

definition cli_stealth :: "cli_ext \<Rightarrow> string \<Rightarrow> string \<Rightarrow> cli_outcome" where
  "cli_stealth X view_key spend_key =
     (case ce_unhex X view_key of
        None \<Rightarrow> Panicked [] ''Invalid view key''
      | Some view_bytes \<Rightarrow>
          (case ce_unhex X spend_key of
             None \<Rightarrow> Panicked [] ''Invalid spend key''
           | Some spend_bytes \<Rightarrow>
               if length view_bytes \<noteq> 32 \<or> length spend_bytes \<noteq> 32
               then Panicked [] ''source slice length does not match destination slice length''
               else
                 (case generate (ce_sha X) (stealth_generator_new view_bytes spend_bytes) of
                    ((stealth, ephemeral), _) \<Rightarrow> Finished
     [Print (''Stealth Address Generated:''),
      Print (''  Ephemeral Pubkey: 0x'' @ ce_hex X (ephemeral_pubkey stealth)),
      Print (''  View Tag:         0x'' @ ce_hex X (encrypted_view_tag stealth)),
      Print (''  Ephemeral Key:    0x'' @ ce_hex X ephemeral),
      Print (newline @ ''Share Ephemeral Pubkey with sender''),
      Print (''Keep Ephemeral Key secret - it'' @ utf8 0x27 @ ''s needed to receive funds!'')])))"

definition show_benchmark :: "benchmark_type \<Rightarrow> string" where
  "show_benchmark b = (case b of Tps \<Rightarrow> ''Tps'' | Latency \<Rightarrow> ''Latency'' | ZkProof \<Rightarrow> ''ZkProof'' | Consensus \<Rightarrow> ''Consensus'')"

text \<open>The branch of \<open>Tps\<close> sleeps; the statement after that is where the source ends.\<close>

definition cli_benchmark :: "benchmark_type \<Rightarrow> u64 \<Rightarrow> u64 \<Rightarrow> cli_outcome" where
  "cli_benchmark b duration n_txs = Finished (
     [Print (utf8 0x1F3C3 @ '' Running Proton Chain Benchmark''), Print (''Type: '' @ show_benchmark b),
      Print (''Duration: '' @ show_nat (unat duration) @ '' seconds''),
      Print (''Transactions: '' @ show_nat (unat n_txs)), Print (newline @ ''Running...'')] @
     (case b of Tps \<Rightarrow> [Sleep duration] | _ \<Rightarrow> []))"

definition cli_run :: "cli_ext \<Rightarrow> cli \<Rightarrow> cli_outcome" where
  "cli_run X args =
     (case cli_command args of
        CmdNode validator shard_id listen bootstrap \<Rightarrow> cli_node X args
      | CmdSend to amount gas_price priv shard_id \<Rightarrow> cli_send X
      | CmdDeploy file contract_type amount gas_limit \<Rightarrow> cli_deploy X file
      | CmdCall contract_addr fn_name fn_args amount \<Rightarrow> cli_call
      | CmdStake validator amount priv \<Rightarrow> cli_stake
      | CmdUnstake validator amount \<Rightarrow> cli_unstake
      | CmdBalance address priv \<Rightarrow> cli_balance address priv
      | CmdInfo detailed \<Rightarrow> cli_info detailed
      | CmdBlock height hs \<Rightarrow> cli_block X height hs
      | CmdTx tx \<Rightarrow> cli_tx tx
      | CmdCrossChain cmd \<Rightarrow> cli_cross_chain X cmd
      | CmdValidator cmd \<Rightarrow> cli_validator X cmd
      | CmdKeygen output kt \<Rightarrow> cli_keygen X output kt
      | CmdStealth view_key spend_key \<Rightarrow> cli_stealth X view_key spend_key
      | CmdBenchmark b duration n_txs \<Rightarrow> cli_benchmark b duration n_txs)"

definition cli_main :: "cli_ext \<Rightarrow> cli \<Rightarrow> cli_outcome" where
  "cli_main X args = (if ce_runtime X then cli_run X args else Panicked [] ''Failed to create runtime'')"

subsection \<open>Properties\<close>

lemmas command_defs = cli_node_def cli_send_def cli_deploy_def cli_call_def cli_stake_def cli_unstake_def
  cli_balance_def cli_info_def cli_block_def cli_tx_def cli_cross_chain_def cli_validator_def
  validator_line_def cli_keygen_def cli_stealth_def cli_benchmark_def

text \<open>
  Decimal output can be read back: the digits of a number have its value.
\<close>

lemma show_nat_value: "foldl (\<lambda>v c. 10 * v + (of_char c - 48)) 0 (show_nat n) = n"
proof (induction n rule: show_nat.induct)
  case (1 n)
  have d: "of_char (digit k) - 48 = k mod 10" for k :: nat
  proof -
    have "48 + k mod 10 < 256" using mod_less_divisor [of 10 k] by linarith
    then show ?thesis by (simp add: digit_def)
  qed
  show ?case using 1 by (cases "n < 10") (simp_all add: show_nat.simps [of n] d)
qed

lemma key_data_random [simp]: "key_data (X\<lparr>ce_random := rng\<rparr>) public secret d = key_data X public secret d"
  by (simp add: key_data_def)

text \<open>
  The generated keys are not secret: an Ed25519 key file holds the same text as public and as
  private key, and every Secp256k1 key file is the same one, that of the secret key of 32 bytes 1,
  whoever runs the command and whatever the random generator returns.
\<close>
theorem keygen_keys_not_secret:
  assumes "\<And>b. ce_unhex X (ce_hex X b) = Some b" and "ce_can_write X output"
  shows "(\<exists>w1 w2. cli_keygen X output Ed25519 =
      Finished [Print ''Generating Ed25519 key pair...'',
        WriteFile output (key_data X (ce_hex X (ce_random X 32)) (ce_hex X (ce_random X 32)) (ce_random X 32)), w1, w2]) \<and>
    (\<forall>public. ce_secp_public X (replicate 32 1) = Some public \<longrightarrow>
      (\<exists>w1 w2. cli_keygen (X\<lparr>ce_random := rng\<rparr>) output Secp256k1 =
        Finished [Print ''Generating Secp256k1 key pair...'',
          WriteFile output (key_data X (ce_hex X public) (ce_hex X (replicate 32 1)) public), w1, w2]))"
  using assms by (simp add: cli_keygen_def key_pair_def Let_def)

subsubsection \<open>A command line to run\<close>

definition hex_digit :: "nat \<Rightarrow> char" where
  "hex_digit n = char_of (if n < 10 then 48 + n else 87 + n)"

definition hex_value :: "char \<Rightarrow> nat" where
  "hex_value c = (let n = of_char c in if n < 58 then n - 48 else n - 87)"

fun sample_hex :: "bytes \<Rightarrow> string" where
  "sample_hex [] = []"
| "sample_hex (b # bs) = hex_digit (unat b div 16) # hex_digit (unat b mod 16) # sample_hex bs"

fun sample_unhex :: "string \<Rightarrow> bytes option" where
  "sample_unhex [] = Some []"
| "sample_unhex (c # d # cs) = map_option ((#) (word_of_nat (16 * hex_value c + hex_value d))) (sample_unhex cs)"
| "sample_unhex [c] = None"

lemma hex_value_digit: "n < 16 \<Longrightarrow> hex_value (hex_digit n) = n"
  by (simp add: hex_value_def hex_digit_def)

lemma sample_unhex_hex: "sample_unhex (sample_hex bs) = Some bs"
proof (induction bs)
  case (Cons b bs)
  have "unat b < 256" using unsigned_less [of b] by simp
  then have "unat b div 16 < 16" by (simp add: less_mult_imp_div_less)
  then show ?case using Cons by (simp add: hex_value_digit)
qed simp

definition sample_cli :: cli_ext where
  "sample_cli = \<lparr>ce_sha = (\<lambda>bs. map (\<lambda>i. sum_list bs + word_of_nat i) [0 ..< 32]), ce_hex = sample_hex,
     ce_unhex = sample_unhex, ce_bs58 = sample_hex, ce_random = (\<lambda>n. replicate n 7),
     ce_secp_public = (\<lambda>sk. Some (2 # sk)), ce_read_file = (\<lambda>f. None), ce_can_write = (\<lambda>f. f \<noteq> []),
     ce_debug_path = (\<lambda>f. f), ce_now = 1000, ce_new_node = (\<lambda>c d. Ok ()),
     ce_runtime = True, ce_spawn_panic = (\<lambda>inside. if inside then None else Some ''there is no reactor running'')\<rparr>"

theorem keygen_keys_not_secret_witness:
  "\<exists>w1 w2. cli_keygen sample_cli ''key.txt'' Ed25519 =
     Finished [Print ''Generating Ed25519 key pair...'',
       WriteFile ''key.txt'' (key_data sample_cli (sample_hex (replicate 32 7)) (sample_hex (replicate 32 7)) (replicate 32 7)),
       w1, w2]"
  using keygen_keys_not_secret [of sample_cli "''key.txt''" "\<lambda>n. []"]
  by (simp add: sample_cli_def sample_unhex_hex)

text \<open>
  The stealth command always prints the same address: it makes a new generator, whose counter
  starts at 0, so every run with the same two keys prints the address and the secret of number 1.
  It panics exactly if a key is not the hexadecimal form of 32 bytes.
\<close>
theorem stealth_command_repeats:
  "(\<exists>vb sb. ce_unhex X v = Some vb \<and> ce_unhex X sp = Some sb \<and> length vb = 32 \<and> length sb = 32 \<and>
     (\<exists>l0 l4 l5. cli_stealth X v sp = Finished
       [l0,
        Print (''  Ephemeral Pubkey: 0x'' @ ce_hex X (ephemeral_pubkey (stealth_derive (ce_sha X) vb sb 1))),
        Print (''  View Tag:         0x'' @ ce_hex X (encrypted_view_tag (stealth_derive (ce_sha X) vb sb 1))),
        Print (''  Ephemeral Key:    0x'' @ ce_hex X (ce_sha X (sb @ u64_le 1))), l4, l5])) \<or>
   (\<exists>msg. cli_stealth X v sp = Panicked [] msg) \<and>
     \<not> (\<exists>vb sb. ce_unhex X v = Some vb \<and> ce_unhex X sp = Some sb \<and> length vb = 32 \<and> length sb = 32)"
  by (cases "ce_unhex X v"; cases "ce_unhex X sp")
    (auto simp: cli_stealth_def generate_def stealth_generator_new_def ephemeral_key_def Let_def)

theorem stealth_command_repeats_witness:
  "\<exists>l0 l4 l5. cli_stealth sample_cli (sample_hex (replicate 32 1)) (sample_hex (replicate 32 2)) = Finished
     [l0,
      Print (''  Ephemeral Pubkey: 0x'' @
        sample_hex (ephemeral_pubkey (stealth_derive (ce_sha sample_cli) (replicate 32 1) (replicate 32 2) 1))),
      Print (''  View Tag:         0x'' @
        sample_hex (encrypted_view_tag (stealth_derive (ce_sha sample_cli) (replicate 32 1) (replicate 32 2) 1))),
      Print (''  Ephemeral Key:    0x'' @ sample_hex (ce_sha sample_cli (replicate 32 2 @ u64_le 1))), l4, l5]"
proof -
  have keys: "ce_unhex sample_cli (sample_hex b) = Some b" "ce_hex sample_cli = sample_hex" for b
    by (simp_all add: sample_cli_def sample_unhex_hex)
  show ?thesis
    using stealth_command_repeats [of sample_cli "sample_hex (replicate 32 1)" "sample_hex (replicate 32 2)"]
    by (simp add: keys)
qed

text \<open>The nodes an outcome starts.\<close>

fun started :: "cli_outcome \<Rightarrow> (chain_config \<times> string) list" where
  "started (Finished es) = concat (map (\<lambda>e. case e of StartNode c d \<Rightarrow> [(c, d)] | _ \<Rightarrow> []) es)"
| "started (Panicked es msg) = concat (map (\<lambda>e. case e of StartNode c d \<Rightarrow> [(c, d)] | _ \<Rightarrow> []) es)"

lemma started_cli_node:
  "started (cli_node X args) =
     (case (ce_new_node X (network_config (cli_network args)) (cli_data_dir args), ce_spawn_panic X False) of
        (Ok _, None) \<Rightarrow> [(network_config (cli_network args), cli_data_dir args)] | _ \<Rightarrow> [])"
  by (simp add: cli_node_def Let_def split: sum.split option.split)

lemma started_queries [simp]:
  "started (cli_send X) = []" "started (cli_deploy X file) = []" "started cli_call = []"
  "started cli_stake = []" "started cli_unstake = []" "started (cli_balance address priv) = []"
  "started (cli_block X height hs) = []" "started (cli_tx tx) = []"
  "started (cli_benchmark b duration n_txs) = []"
  by (simp_all add: command_defs Let_def split: option.split benchmark_type.split)

lemma started_info [simp]: "started (cli_info detailed) = []"
  by (cases detailed) (simp_all add: cli_info_def)

lemma started_cross_chain [simp]: "started (cli_cross_chain X cmd) = []"
  by (cases cmd) (simp_all add: cli_cross_chain_def)

lemma started_validator [simp]: "started (cli_validator X cmd) = []"
  by (cases cmd) (simp_all add: cli_validator_def validator_line_def)

lemma started_keygen [simp]: "started (cli_keygen X output kt) = []"
  by (auto simp: cli_keygen_def Let_def split: option.split)

lemma started_stealth [simp]: "started (cli_stealth X view_key spend_key) = []"
  by (simp add: cli_stealth_def split: option.split prod.split)

text \<open>
  Only \<open>node\<close> could run anything: a run of the command line starts a node exactly if the command is
  \<open>node\<close>, the node could be created and \<open>spawn\<close> worked outside of a runtime, with the configuration of the
  chosen network and the data directory; the validator mode, the shard, the listen address and the
  bootstrap peers given on the command line have no effect.
\<close>
theorem cli_starts_node:
  "started (cli_run X args) =
     (case cli_command args of
        CmdNode validator shard_id listen bootstrap \<Rightarrow>
          (case (ce_new_node X (network_config (cli_network args)) (cli_data_dir args), ce_spawn_panic X False) of
             (Ok _, None) \<Rightarrow> [(network_config (cli_network args), cli_data_dir args)] | _ \<Rightarrow> [])
      | _ \<Rightarrow> [])"
  by (cases "cli_command args") (simp_all add: cli_run_def started_cli_node)

text \<open>
  The documentation of \<open>tokio::spawn\<close> says that it panics outside of a runtime. So no command line
  starts a node: \<open>node\<close> always panics, even if the node could be created.
\<close>
theorem no_command_starts_a_node:
  assumes "ce_spawn_panic X False = Some msg"
  shows "started (cli_main X args) = [] \<and>
    (\<forall>validator shard_id listen bootstrap. cli_command args = CmdNode validator shard_id listen bootstrap \<longrightarrow>
      (\<exists>text. cli_main X args = Panicked [] text))"
proof -
  have "started (cli_run X args) = []"
    unfolding cli_starts_node using assms by (simp split: command.split sum.split)
  moreover have "\<exists>text. cli_node X args = Panicked [] text"
    using assms by (simp add: cli_node_def Let_def split: sum.split)
  ultimately show ?thesis by (auto simp: cli_main_def cli_run_def)
qed

theorem no_command_starts_a_node_witness:
  "started (cli_main sample_cli \<lparr>cli_command = CmdNode True 0 [] [], cli_data_dir = ''d'', cli_log_level = [],
     cli_network = Devnet\<rparr>) = []"
  using no_command_starts_a_node [of sample_cli "''there is no reactor running''"] by (simp add: sample_cli_def)

text \<open>
  A sent, staked or called transaction is never built: the report does not depend on the arguments.
\<close>
theorem reports_ignore_arguments:
  "cli_run X (args\<lparr>cli_command := CmdSend to amount price priv shard\<rparr>) =
     cli_run X (args'\<lparr>cli_command := CmdSend to' amount' price' priv' shard'\<rparr>)"
  "cli_run X (args\<lparr>cli_command := CmdStake v amount priv\<rparr>) =
     cli_run X' (args'\<lparr>cli_command := CmdStake v' amount' priv'\<rparr>)"
  "cli_run X (args\<lparr>cli_command := CmdUnstake v amount\<rparr>) =
     cli_run X' (args'\<lparr>cli_command := CmdUnstake v' amount'\<rparr>)"
  "cli_run X (args\<lparr>cli_command := CmdCall contract fn as amount\<rparr>) =
     cli_run X' (args'\<lparr>cli_command := CmdCall contract' fn' as' amount'\<rparr>)"
  by (simp_all add: cli_run_def)

end
