(* ===== verification/Rocks.thy ===== *)
theory Rocks
  imports Storage
begin

text \<open>
  \<^verbatim>\<open>src/src/storage/mod.rs\<close>, \<open>RocksDB\<close>: the adapter that implements the \<open>Database\<close> trait with the
  \<^verbatim>\<open>rocksdb\<close> crate. The crate's calls are the fields of \<open>rocks_ops\<close>, on a type \<open>'r\<close> of open databases and
  a type \<open>'o\<close> of directories; its documented behaviour is the locale \<open>rocks_crate\<close>. The errors of the
  crate carry a text (\<open>'r\<close>'s \<^verbatim>\<open>Debug\<close> output).

  \<open>RocksDB::new\<close> sets no prefix extractor. Without one, the crate documents that an iterator that was
  opened with a prefix starts at the first key that is not below the prefix and is not bound by it.
\<close>

subsection \<open>Definitions\<close>

record rocks_options =
  ro_create_if_missing :: bool
  ro_create_missing_column_families :: bool
  ro_max_open_files :: int
  ro_write_buffer_size :: nat
  ro_max_write_buffer_number :: int
  ro_target_file_size_base :: u64

datatype batch_op = BatchPut bytes bytes | BatchDelete bytes

record ('o, 'r) rocks_ops =
  ro_default :: rocks_options
  rk_open :: "rocks_options \<Rightarrow> 'o \<Rightarrow> (string \<times> rocks_options) list \<Rightarrow> 'r rs_result"
  rk_get :: "'r \<Rightarrow> bytes \<Rightarrow> bytes option rs_result"
  rk_put :: "bytes \<Rightarrow> bytes \<Rightarrow> 'r \<Rightarrow> unit rs_result \<times> 'r"
  rk_delete :: "bytes \<Rightarrow> 'r \<Rightarrow> unit rs_result \<times> 'r"
  rk_write :: "batch_op list \<Rightarrow> 'r \<Rightarrow> unit rs_result \<times> 'r"
  rk_prefix_iterator :: "'r \<Rightarrow> bytes \<Rightarrow> (bytes \<times> bytes) rs_result list"
  rk_cf_handle :: "'r \<Rightarrow> string \<Rightarrow> nat option"

definition map_err :: "(string \<Rightarrow> string) \<Rightarrow> 'a rs_result \<Rightarrow> 'a rs_result" where
  "map_err f r = (case r of Err e \<Rightarrow> Err (f e) | Ok x \<Rightarrow> Ok x)"

definition cf_names :: "string list" where
  "cf_names = [''default'', ''blocks'', ''transactions'', ''accounts'', ''contracts'', ''storage'',
     ''metadata'', ''index'']"

definition rocks_options :: "('o, 'r) rocks_ops \<Rightarrow> rocks_options" where
  "rocks_options R = (ro_default R)\<lparr>ro_create_if_missing := True, ro_max_open_files := 10000,
     ro_write_buffer_size := 64 * 1024 * 1024, ro_max_write_buffer_number := 3,
     ro_target_file_size_base := 64 * 1024 * 1024\<rparr>"

definition rocks_new :: "('o, 'r) rocks_ops \<Rightarrow> 'o \<Rightarrow> 'r rs_result" where
  "rocks_new R path =
     (let opts = rocks_options R;
          cf_descriptors = map (\<lambda>name. (name, opts)) cf_names
      in map_err (\<lambda>e. ''Failed to open database: '' @ e) (rk_open R opts path cf_descriptors))"

definition cf_handle :: "('o, 'r) rocks_ops \<Rightarrow> string \<Rightarrow> 'r \<Rightarrow> nat rs_result" where
  "cf_handle R name db =
     (case rk_cf_handle R db name of
        None \<Rightarrow> Err (''Column family '' @ name @ '' not found'')
      | Some cf \<Rightarrow> Ok cf)"

text \<open>\<^verbatim>\<open>unwrap_or(None)\<close>: a read that fails is a key that is absent.\<close>

definition rocks_get :: "('o, 'r) rocks_ops \<Rightarrow> 'r \<Rightarrow> bytes \<Rightarrow> bytes option" where
  "rocks_get R db key = (case rk_get R db key of Err e \<Rightarrow> None | Ok v \<Rightarrow> v)"

definition rocks_put :: "('o, 'r) rocks_ops \<Rightarrow> bytes \<Rightarrow> bytes \<Rightarrow> 'r \<Rightarrow> unit rs_result \<times> 'r" where
  "rocks_put R key value db = (case rk_put R key value db of
     (r, db') \<Rightarrow> (map_err (\<lambda>e. ''Put error: '' @ e) r, db'))"

definition rocks_delete :: "('o, 'r) rocks_ops \<Rightarrow> bytes \<Rightarrow> 'r \<Rightarrow> unit rs_result \<times> 'r" where
  "rocks_delete R key db = (case rk_delete R key db of
     (r, db') \<Rightarrow> (map_err (\<lambda>e. ''Delete error: '' @ e) r, db'))"

definition batch_op_of :: "bytes \<times> bytes option \<Rightarrow> batch_op" where
  "batch_op_of = (\<lambda>(key, value). case value of Some v \<Rightarrow> BatchPut key v | None \<Rightarrow> BatchDelete key)"

definition rocks_batch_write ::
    "('o, 'r) rocks_ops \<Rightarrow> (bytes \<times> bytes option) list \<Rightarrow> 'r \<Rightarrow> unit rs_result \<times> 'r" where
  "rocks_batch_write R batch db = (case rk_write R (map batch_op_of batch) db of
     (r, db') \<Rightarrow> (map_err (\<lambda>e. ''Batch write error: '' @ e) r, db'))"

text \<open>The items that are errors are skipped.\<close>

definition rocks_iterator :: "('o, 'r) rocks_ops \<Rightarrow> 'r \<Rightarrow> bytes \<Rightarrow> (bytes \<times> bytes) list" where
  "rocks_iterator R db pre =
     List.map_filter (\<lambda>item. case item of Err e \<Rightarrow> None | Ok kv \<Rightarrow> Some kv) (rk_prefix_iterator R db pre)"

definition rocks_db :: "('o, 'r) rocks_ops \<Rightarrow> 'r db_ops" where
  "rocks_db R = \<lparr>db_get = rocks_get R, db_put = rocks_put R, db_delete = rocks_delete R,
     db_batch_write = rocks_batch_write R, db_iterator = rocks_iterator R\<rparr>"

lemma rocks_db_simps [simp]:
  "db_get (rocks_db R) = rocks_get R" "db_put (rocks_db R) = rocks_put R" "db_delete (rocks_db R) = rocks_delete R"
  "db_batch_write (rocks_db R) = rocks_batch_write R" "db_iterator (rocks_db R) = rocks_iterator R"
  by (simp_all add: rocks_db_def)

lemma map_err_simps [simp]:
  "map_err f (Ok x) = Ok x" "map_err f (Err e) = Err (f e)" "map_err f r = Ok x \<longleftrightarrow> r = Ok x"
  "(map_err f r = Err e') \<longleftrightarrow> (\<exists>e. r = Err e \<and> e' = f e)"
  by (auto simp: map_err_def split: sum.splits)

lemma ok_item: "(case r of Err e \<Rightarrow> None | Ok x \<Rightarrow> Some x) = Some y \<longleftrightarrow> r = Ok y"
  by (cases r) simp_all

subsection \<open>The contract of the crate\<close>

definition apply_op :: "batch_op \<Rightarrow> (bytes \<rightharpoonup> bytes) \<Rightarrow> (bytes \<rightharpoonup> bytes)" where
  "apply_op op m = (case op of BatchPut k v \<Rightarrow> m(k \<mapsto> v) | BatchDelete k \<Rightarrow> m(k := None))"

lemma apply_op_simps: "apply_op (BatchPut k v) m = m(k \<mapsto> v)" "apply_op (BatchDelete k) m = m(k := None)"
  by (simp_all add: apply_op_def)

lemma fold_apply_op: "fold apply_op (map batch_op_of batch) = fold apply_change batch"
proof -
  have "apply_op \<circ> batch_op_of = apply_change"
    by (auto simp: fun_eq_iff apply_op_def batch_op_of_def apply_change_def split: option.splits)
  then show ?thesis by (simp add: fold_map)
qed

text \<open>
  An open database in a good state (\<open>rwf\<close>) holds a map \<open>content\<close>; a write that reports an error has
  not been applied; a batch is atomic. A prefix iterator starts at the first key that is not below
  the prefix and runs to the end of the key space.
\<close>

locale rocks_crate =
  fixes R :: "('o, 'r) rocks_ops" and rwf :: "'r \<Rightarrow> bool" and content :: "'r \<Rightarrow> bytes \<rightharpoonup> bytes"
  assumes get: "rwf d \<Longrightarrow> rk_get R d k = Ok (content d k)"
    and put_ok: "rwf d \<Longrightarrow> rk_put R k v d = (Ok u, d') \<Longrightarrow> rwf d' \<and> content d' = (content d)(k \<mapsto> v)"
    and delete_ok: "rwf d \<Longrightarrow> rk_delete R k d = (Ok u, d') \<Longrightarrow> rwf d' \<and> content d' = (content d)(k := None)"
    and write_ok: "rwf d \<Longrightarrow> rk_write R ops d = (Ok u, d') \<Longrightarrow> rwf d' \<and> content d' = fold apply_op ops (content d)"
    and write_err: "rwf d \<Longrightarrow> rk_write R ops d = (Err e, d') \<Longrightarrow> rwf d' \<and> content d' = content d"
    and iterate: "rwf d \<Longrightarrow> Ok (k, v) \<in> set (rk_prefix_iterator R d p) \<longleftrightarrow> content d k = Some v \<and> p \<le> k"
begin

lemma rocks_get_content: "rwf d \<Longrightarrow> rocks_get R d = content d"
  by (simp add: rocks_get_def get fun_eq_iff)

lemma adapter_is_database: "database (rocks_db R) rwf"
proof unfold_locales
  fix d k v u d' assume "rwf d" "db_put (rocks_db R) k v d = (Ok u, d')"
  then show "rwf d' \<and> db_get (rocks_db R) d' = (db_get (rocks_db R) d)(k \<mapsto> v)"
    using put_ok by (auto simp: rocks_put_def rocks_get_content split: prod.splits)
next
  fix d k u d' assume "rwf d" "db_delete (rocks_db R) k d = (Ok u, d')"
  then show "rwf d' \<and> db_get (rocks_db R) d' = (db_get (rocks_db R) d)(k := None)"
    using delete_ok by (auto simp: rocks_delete_def rocks_get_content split: prod.splits)
next
  fix d b u d' assume "rwf d" "db_batch_write (rocks_db R) b d = (Ok u, d')"
  then show "rwf d' \<and> db_get (rocks_db R) d' = fold apply_change b (db_get (rocks_db R) d)"
    using write_ok by (auto simp: rocks_batch_write_def rocks_get_content fold_apply_op split: prod.splits)
next
  fix d b e d' assume "rwf d" "db_batch_write (rocks_db R) b d = (Err e, d')"
  then show "rwf d' \<and> db_get (rocks_db R) d' = db_get (rocks_db R) d"
    using write_err by (auto simp: rocks_batch_write_def rocks_get_content split: prod.splits)
qed

lemma iterator_iff:
  "rwf d \<Longrightarrow> (k, v) \<in> set (rocks_iterator R d p) \<longleftrightarrow> content d k = Some v \<and> p \<le> k"
  by (simp add: rocks_iterator_def ok_item iterate)

end

sublocale rocks_crate \<subseteq> rocks: database "rocks_db R" rwf
  by (rule adapter_is_database)

subsection \<open>State storage on RocksDB\<close>

text \<open>
  Durability on RocksDB: for a crate that keeps its contract, an account that is put and
  committed through the adapter is what a state storage opened anew over the same database reads.
\<close>
theorem rocks_account_durable:
  assumes "rocks_crate R rwf content" and "lru_cache L" and "rwf (ss_db ss)"
    and "ser_account C acc = Some b" and "de_account C b = Some acc"
    and "put_account L C a acc ss = (Ok u, ss1)" and "commit (rocks_db R) ss1 = (Ok u, ss2)"
  shows "fst (get_account (rocks_db R) L C a (storage_new L (ss_db ss2) n)) = Some acc \<and>
    content (ss_db ss2) (account_key a) = Some b"
proof
  note db = rocks_crate.adapter_is_database [OF assms(1)]
  show "fst (get_account (rocks_db R) L C a (storage_new L (ss_db ss2) n)) = Some acc"
    by (rule account_durable_facts [OF assms(2) db assms(3-7)])
  let ?ss = "ss\<lparr>ss_cache := lru_put L (account_hash C a) acc (ss_cache ss)\<rparr>"
  have c: "commit (rocks_db R) (push_pending (account_key a) b ?ss) = (Ok u, ss2)"
    using assms(4,6,7) by (simp add: put_account_def)
  have "rwf (ss_db ss2)"
    using database.commit_spec [OF db, of "push_pending (account_key a) b ?ss"] c assms(3)
    by (simp add: push_pending_def)
  with database.put_then_commit [OF db _ c] assms(3) show "content (ss_db ss2) (account_key a) = Some b"
    by (simp add: rocks_crate.rocks_get_content [OF assms(1)])
qed

lemma collect_short_key:
  "(k, v) \<in> set items \<Longrightarrow> de_account C v = Some acc \<Longrightarrow> length k < 24 \<Longrightarrow> collect_accounts C items = None"
  by (induction C items rule: collect_accounts.induct) (auto split: option.splits)

lemma collect_long_key:
  "(k, v) \<in> set items \<Longrightarrow> de_account C v = Some acc \<Longrightarrow> collect_accounts C items = Some xs \<Longrightarrow>
    (Address (take 20 (drop 4 k)), acc) \<in> set xs"
  by (induction C items arbitrary: xs rule: collect_accounts.induct) (auto split: option.splits if_splits)

text \<open>
  Snapshots on RocksDB are not limited to accounts: the iterator runs past the account prefix, so
  every record with a later key (blocks, code, storage slots, transactions) whose bytes happen to
  decode as an account is taken for one. If its key is shorter than 24 bytes, as those of blocks are,
  slicing the key panics; otherwise the snapshot lists it under an address cut out of its key.
\<close>
theorem rocks_snapshot_takes_all_records:
  assumes "rocks_crate R rwf content" and "rwf (ss_db ss)"
    and "content (ss_db ss) k = Some v" and "de_account C v = Some acc" and "ascii ''acc:'' \<le> k"
  shows "ascii ''acc:'' \<le> block_key height \<and> length (block_key height) < 24 \<and>
    (case snapshot_create (rocks_db R) C now ss h of
       None \<Rightarrow> True
     | Some snap \<Rightarrow> 24 \<le> length k \<and> (Address (take 20 (drop 4 k)), acc) \<in> set (snap_accounts snap))"
proof -
  have "(k, v) \<in> set (rocks_iterator R (ss_db ss) (ascii ''acc:''))"
    using assms by (simp add: rocks_crate.iterator_iff)
  note short = collect_short_key [OF this assms(4)] and long = collect_long_key [OF this assms(4)]
  have "case snapshot_create (rocks_db R) C now ss h of
       None \<Rightarrow> True
     | Some snap \<Rightarrow> 24 \<le> length k \<and> (Address (take 20 (drop 4 k)), acc) \<in> set (snap_accounts snap)"
    using short long by (cases "length k < 24") (auto simp: snapshot_create_def split: option.splits)
  then show ?thesis by (simp add: block_key_def)
qed

text \<open>
  A database directory that lacks one of the eight column families, such as a new one, cannot be
  opened: the options create the database if it is missing, but not its column families, and the
  crate refuses to open families that it neither finds nor may create (\<open>ex\<close> are those it finds).
\<close>
theorem rocks_new_fresh_fails:
  assumes "\<not> ro_create_missing_column_families (ro_default R)"
    and "\<And>opts cfs. \<not> ro_create_missing_column_families opts \<Longrightarrow> \<not> fst ` set cfs \<subseteq> ex \<Longrightarrow>
      \<exists>e. rk_open R opts path cfs = Err e"
    and "ex \<subseteq> {''default''}"
  shows "\<exists>e. rocks_new R path = Err (''Failed to open database: '' @ e)"
proof -
  have "\<not> fst ` set (map (\<lambda>name. (name, rocks_options R)) cf_names) \<subseteq> ex"
    using assms(3) by (force simp: cf_names_def)
  then have "\<exists>e. rk_open R (rocks_options R) path (map (\<lambda>name. (name, rocks_options R)) cf_names) = Err e"
    using assms(1) by (intro assms(2)) (simp_all add: rocks_options_def)
  then show ?thesis by (auto simp: rocks_new_def)
qed

subsection \<open>Instances\<close>

text \<open>A database in memory with ordered keys; directories are lists of the column families they have.\<close>

primrec btree_op :: "batch_op \<Rightarrow> (bytes, bytes) btree \<Rightarrow> (bytes, bytes) btree" where
  "btree_op (BatchPut k v) d = bt_insert k v d"
| "btree_op (BatchDelete k) d = bt_remove k d"

definition btree_rocks :: "(string list, (bytes, bytes) btree) rocks_ops" where
  "btree_rocks =
     \<lparr>ro_default = \<lparr>ro_create_if_missing = False, ro_create_missing_column_families = False,
        ro_max_open_files = - 1, ro_write_buffer_size = 64, ro_max_write_buffer_number = 2,
        ro_target_file_size_base = 64\<rparr>,
      rk_open = (\<lambda>opts dir cfs. if ro_create_missing_column_families opts \<or> fst ` set cfs \<subseteq> set dir
        then Ok [] else Err ''Column family not found''),
      rk_get = (\<lambda>d k. Ok (bt_get d k)), rk_put = (\<lambda>k v d. (Ok (), bt_insert k v d)),
      rk_delete = (\<lambda>k d. (Ok (), bt_remove k d)),
      rk_write = (\<lambda>ops d. (Ok (), fold btree_op ops d)),
      rk_prefix_iterator = (\<lambda>d p. map Ok (filter (\<lambda>(k, v). p \<le> k) d)),
      rk_cf_handle = (\<lambda>d name. None)\<rparr>"

lemma btree_write:
  assumes "bt_wf d"
  shows "bt_wf (fold btree_op ops d) \<and>
    bt_get (fold btree_op ops d) =
      fold apply_op ops (bt_get d)"
  using assms
proof (induction ops arbitrary: d)
  case (Cons op ops)
  then show ?case by (cases op) (simp_all add: apply_op_simps fun_upd_def)
qed simp

interpretation btree_crate: rocks_crate btree_rocks bt_wf bt_get
  by unfold_locales
    (use btree_write in \<open>auto simp: btree_rocks_def bt_in_set_get\<close>)

lemma btree_batch: "rocks_batch_write btree_rocks ops d = (Ok (), fold btree_op (map batch_op_of ops) d)"
  by (simp add: rocks_batch_write_def btree_rocks_def)

theorem rocks_account_durable_witness:
  "\<exists>ss1 ss2. put_account list_lru sample_codec (Address [7]) account_default (storage_new list_lru ([] :: (bytes, bytes) btree) 2) = (Ok (), ss1) \<and>
    commit (rocks_db btree_rocks) ss1 = (Ok (), ss2) \<and>
    fst (get_account (rocks_db btree_rocks) list_lru sample_codec (Address [7]) (storage_new list_lru (ss_db ss2) 2)) =
      Some account_default"
proof -
  obtain ss1 where p: "put_account list_lru sample_codec (Address [7]) account_default (storage_new list_lru ([] :: (bytes, bytes) btree) 2) = (Ok (), ss1)"
    by (simp add: put_account_def sample_codec_def)
  obtain ss2 where c: "commit (rocks_db btree_rocks) ss1 = (Ok (), ss2)"
    by (cases "ss_pending ss1 = []") (simp_all add: commit_def btree_batch)
  have "fst (get_account (rocks_db btree_rocks) list_lru sample_codec (Address [7]) (storage_new list_lru (ss_db ss2) 2)) =
      Some account_default"
    by (rule rocks_account_durable [OF btree_crate.rocks_crate_axioms list_lru.lru_cache_axioms _ _ _ p c, where b = "[0]",
          THEN conjunct1]) (simp_all add: storage_new_def sample_codec_def)
  with p c show ?thesis by blast
qed

theorem rocks_snapshot_takes_all_records_witness:
  "snapshot_create (rocks_db btree_rocks) sample_codec 0
     (storage_new list_lru (bt_insert (block_key 5) [0] []) 2) 9 = None"
proof -
  let ?ss = "storage_new list_lru (bt_insert (block_key 5) [0] []) 2"
  have "bt_wf (ss_db ?ss)" "bt_get (ss_db ?ss) (block_key 5) = Some [0]" "de_account sample_codec [0] = Some account_default"
    "ascii ''acc:'' \<le> block_key 5"
    by (simp_all add: storage_new_def sample_codec_def bt_wf_def bt_get_def) (simp add: block_key_def)
  from rocks_snapshot_takes_all_records [OF btree_crate.rocks_crate_axioms this, of 5 0 9] show ?thesis
    by (auto simp: block_key_def split: option.splits)
qed

theorem rocks_new_fresh_fails_witness:
  "\<exists>e. rocks_new btree_rocks [] = Err (''Failed to open database: '' @ e)"
  by (rule rocks_new_fresh_fails [where ex = "{}"]) (auto simp: btree_rocks_def)

end
