(* ===== verification/Simulation.thy ===== *)
theory Simulation
  imports Main
begin

text \<open>
  Data refinement between step systems. \<open>cstep p\<close> are the steps of a concrete system with parameters
  \<open>p\<close> (the crates and host functions it is linked with), \<open>astep p\<close> those of its specification, and
  \<open>absf p\<close> reads the abstract state off the concrete one. The law is checked step by step, for
  parameters with \<open>ok p\<close>; runs and invariants of the specification then carry over.
\<close>

locale simulation =
  fixes ok :: "'p \<Rightarrow> bool"
    and cstep :: "'p \<Rightarrow> 'c \<Rightarrow> 'c \<Rightarrow> bool"
    and astep :: "'p \<Rightarrow> 'a \<Rightarrow> 'a \<Rightarrow> bool"
    and absf :: "'p \<Rightarrow> 'c \<Rightarrow> 'a"
  assumes simulate: "ok p \<Longrightarrow> cstep p x y \<Longrightarrow> astep p (absf p x) (absf p y)"
begin

lemma simulate_run:
  assumes "ok p" and "(cstep p)\<^sup>*\<^sup>* x y"
  shows "(astep p)\<^sup>*\<^sup>* (absf p x) (absf p y)"
  using assms(2) by (induction rule: rtranclp_induct) (auto intro: rtranclp.rtrancl_into_rtrancl simulate [OF assms(1)])

lemma transfer_invariant:
  assumes "ok p" and "(cstep p)\<^sup>*\<^sup>* x y" and "I (absf p x)"
    and "\<And>a b. astep p a b \<Longrightarrow> I a \<Longrightarrow> I b"
  shows "I (absf p y)"
  using simulate_run [OF assms(1,2)] assms(3) by (induction rule: rtranclp_induct) (auto dest: assms(4))

end

text \<open>
  An invariant of a step system: a property that every step keeps holds in every state that can be
  reached from one where it holds.
\<close>

locale step_invariant =
  fixes ok :: "'p \<Rightarrow> bool"
    and step :: "'p \<Rightarrow> 's \<Rightarrow> 's \<Rightarrow> bool"
    and I :: "'p \<Rightarrow> 's \<Rightarrow> bool"
  assumes keep: "ok p \<Longrightarrow> step p x y \<Longrightarrow> I p x \<Longrightarrow> I p y"
begin

lemma reach_inv:
  assumes "ok p" and "(step p)\<^sup>*\<^sup>* x y" and "I p x"
  shows "I p y"
  using assms(2,3) by (induction rule: rtranclp_induct) (auto intro: keep [OF assms(1)])

end

end
