(* ===== verification/AccountStore.thy ===== *)
theory AccountStore
  imports Storage Simulation
begin

text \<open>
  What \<open>StateStorage\<close> (\<^verbatim>\<open>src/src/storage/mod.rs\<close>) promises for accounts under any sequence of operations,
  restarts included. The specification is \<open>account_book\<close>: the durable accounts, the changes of the
  open batch, and the accounts that the cache holds at the moment. A cache may forget accounts at any
  insertion, so the steps of the book that insert are nondeterministic. The refinement is proved for
  every database and cache that keep their contracts, and for the addresses of a set without a hash
  collision.
\<close>

subsection \<open>The specification\<close>

record account_book =
  bk_durable :: "address \<rightharpoonup> account"
  bk_batch :: "address \<rightharpoonup> account option"
  bk_cached :: "address \<rightharpoonup> account"

definition book_commit :: "account_book \<Rightarrow> account_book" where
  "book_commit B = B\<lparr>bk_durable := (\<lambda>a. case bk_batch B a of None \<Rightarrow> bk_durable B a | Some x \<Rightarrow> x), bk_batch := Map.empty\<rparr>"

definition book_drop :: "account_book \<Rightarrow> account_book" where
  "book_drop B = B\<lparr>bk_batch := Map.empty\<rparr>"

inductive book_step :: "(address \<times> account) set \<Rightarrow> account_book \<Rightarrow> account_book \<Rightarrow> bool" for P where
  book_put: "(a, acc) \<in> P \<Longrightarrow> m \<subseteq>\<^sub>m (bk_cached B)(a \<mapsto> acc) \<Longrightarrow>
    book_step P B (B\<lparr>bk_batch := (bk_batch B)(a \<mapsto> Some acc), bk_cached := m\<rparr>)"
| book_load: "bk_cached B a = None \<Longrightarrow> bk_durable B a = Some acc \<Longrightarrow> m \<subseteq>\<^sub>m (bk_cached B)(a \<mapsto> acc) \<Longrightarrow>
    book_step P B (B\<lparr>bk_cached := m\<rparr>)"
| book_same: "book_step P B B"
| book_committed: "book_step P B (book_commit B)"
| book_dropped: "book_step P B (book_drop B)"
| book_restart: "book_step P B ((book_drop B)\<lparr>bk_cached := Map.empty\<rparr>)"

text \<open>What a read returns.\<close>

definition book_read :: "address \<Rightarrow> account_book \<Rightarrow> account option" where
  "book_read a B = (case bk_cached B a of None \<Rightarrow> bk_durable B a | Some acc \<Rightarrow> Some acc)"

subsection \<open>The code's steps\<close>

record ('d, 'c) store_params =
  st_db :: "'d db_ops"
  st_lru :: "'c lru_ops"
  st_codecs :: store_ext
  st_wf :: "'d \<Rightarrow> bool"
  st_cache_size :: nat
  st_puts :: "(address \<times> account) set"
  st_addresses :: "address set"

definition store_ok :: "('d, 'c) store_params \<Rightarrow> bool" where
  "store_ok p \<longleftrightarrow> database (st_db p) (st_wf p) \<and> lru_cache (st_lru p) \<and>
     inj_on (account_hash (st_codecs p)) (st_addresses p) \<and> fst ` st_puts p \<subseteq> st_addresses p \<and>
     (\<forall>acc b. ser_account (st_codecs p) acc = Some b \<longrightarrow> de_account (st_codecs p) b = Some acc)"

inductive store_step ::
    "('d, 'c) store_params \<Rightarrow> ('d, 'c) state_storage \<Rightarrow> ('d, 'c) state_storage \<Rightarrow> bool" for p where
  put: "st_wf p (ss_db ss) \<Longrightarrow> (a, acc) \<in> st_puts p \<Longrightarrow> put_account (st_lru p) (st_codecs p) a acc ss = (r, ss') \<Longrightarrow> store_step p ss ss'"
| read: "st_wf p (ss_db ss) \<Longrightarrow> a \<in> st_addresses p \<Longrightarrow> get_account (st_db p) (st_lru p) (st_codecs p) a ss = (acc, ss') \<Longrightarrow> store_step p ss ss'"
| block: "st_wf p (ss_db ss) \<Longrightarrow> put_block (st_codecs p) b ss = (r, ss') \<Longrightarrow> store_step p ss ss'"
| transaction: "st_wf p (ss_db ss) \<Longrightarrow> put_transaction (st_codecs p) tx ss = (r, ss') \<Longrightarrow> store_step p ss ss'"
| code: "st_wf p (ss_db ss) \<Longrightarrow> put_contract_code a c ss = (r, ss') \<Longrightarrow> store_step p ss ss'"
| slot: "st_wf p (ss_db ss) \<Longrightarrow> put_storage a k v ss = (r, ss') \<Longrightarrow> store_step p ss ss'"
| committing: "st_wf p (ss_db ss) \<Longrightarrow> commit (st_db p) ss = (r, ss') \<Longrightarrow> store_step p ss ss'"
| rolling_back: "st_wf p (ss_db ss) \<Longrightarrow> store_step p ss (rollback ss)"
| restart: "st_wf p (ss_db ss) \<Longrightarrow> store_step p ss (storage_new (st_lru p) (ss_db ss) (st_cache_size p))"

subsection \<open>The abstraction\<close>

text \<open>The last change of a key in a batch.\<close>

definition batch_change :: "(bytes \<times> bytes option) list \<Rightarrow> bytes \<Rightarrow> bytes option option" where
  "batch_change batch k = map_of (rev batch) k"

definition cached_of :: "('d, 'c) store_params \<Rightarrow> 'c \<Rightarrow> address \<rightharpoonup> account" where
  "cached_of p c = (\<lambda>a. fst (lru_get (st_lru p) (account_hash (st_codecs p) a) c)) |` st_addresses p"

definition book_of :: "('d, 'c) store_params \<Rightarrow> ('d, 'c) state_storage \<Rightarrow> account_book" where
  "book_of p ss =
     \<lparr>bk_durable =
        (\<lambda>a. Option.bind (db_get (st_db p) (ss_db ss) (account_key a)) (de_account (st_codecs p))) |` st_addresses p,
      bk_batch =
        (\<lambda>a. map_option (\<lambda>v. Option.bind v (de_account (st_codecs p))) (batch_change (ss_pending ss) (account_key a)))
          |` st_addresses p,
      bk_cached = cached_of p (ss_cache ss)\<rparr>"

lemma batch_change_simps [simp]:
  "batch_change [] k = None"
  "batch_change (xs @ [(k', v)]) k = (if k = k' then Some v else batch_change xs k)"
  by (simp_all add: batch_change_def)

lemma fold_apply_batch:
  "fold apply_change batch m k = (case batch_change batch k of None \<Rightarrow> m k | Some v \<Rightarrow> v)"
  by (induction batch rule: rev_induct) (auto simp: apply_change_def)

lemma account_key_eq [simp]: "account_key a = account_key b \<longleftrightarrow> a = b"
  by (auto simp: account_key_def intro: address.expand)

lemma other_keys [simp]:
  "account_key a \<noteq> block_key h" "account_key a \<noteq> tx_key t" "account_key a \<noteq> contract_key c"
  "account_key a \<noteq> storage_key c k"
  by (simp_all add: key_defs)

lemma book_push_other:
  "(\<And>a. account_key a \<noteq> k) \<Longrightarrow> book_of p (push_pending k v ss) = book_of p ss"
  by (simp add: book_of_def push_pending_def)

subsection \<open>The refinement\<close>

lemma store_okD:
  assumes "store_ok p"
  shows "database (st_db p) (st_wf p)" "lru_cache (st_lru p)" "inj_on (account_hash (st_codecs p)) (st_addresses p)"
    "(a, acc) \<in> st_puts p \<Longrightarrow> a \<in> st_addresses p"
    "ser_account (st_codecs p) acc = Some b \<Longrightarrow> de_account (st_codecs p) b = Some acc"
  using assms by (force simp: store_ok_def)+

lemma cached_put:
  assumes "store_ok p" and "a \<in> st_addresses p"
  shows "cached_of p (lru_put (st_lru p) (account_hash (st_codecs p) a) acc c) \<subseteq>\<^sub>m (cached_of p c)(a \<mapsto> acc)"
proof -
  note lru = store_okD(2) [OF assms(1)]
  have "fst (lru_get (st_lru p) (account_hash (st_codecs p) b) (lru_put (st_lru p) (account_hash (st_codecs p) a) acc c))
      \<in> {None, fst (lru_get (st_lru p) (account_hash (st_codecs p) b) c)}"
    if "b \<in> st_addresses p" "b \<noteq> a" for b
  proof -
    have "account_hash (st_codecs p) b \<noteq> account_hash (st_codecs p) a"
      using store_okD(3) [OF assms(1)] that assms(2) by (auto dest: inj_onD)
    then show ?thesis by (rule lru_cache.put_other [OF lru])
  qed
  then show ?thesis
    using lru_cache.put_same [OF lru] assms(2) by (fastforce simp: map_le_def cached_of_def restrict_map_def)
qed

lemma cached_get: "store_ok p \<Longrightarrow> cached_of p (snd (lru_get (st_lru p) h c)) = cached_of p c"
  by (simp add: cached_of_def lru_cache.get_keeps [OF store_okD(2)])

lemma cached_new: "store_ok p \<Longrightarrow> cached_of p (lru_new (st_lru p) n) = Map.empty"
  by (auto simp: cached_of_def lru_cache.new [OF store_okD(2)] restrict_map_def)

lemma put_simulated:
  assumes ok: "store_ok p" and put: "(a, acc) \<in> st_puts p" "put_account (st_lru p) (st_codecs p) a acc ss = (r, ss')"
  shows "book_step (st_puts p) (book_of p ss) (book_of p ss')"
proof (cases "ser_account (st_codecs p) acc")
  case None
  then show ?thesis using put(2) by (auto simp: put_account_def intro: book_same)
next
  case (Some b)
  note a = store_okD(4) [OF ok put(1)]
  let ?c = "lru_put (st_lru p) (account_hash (st_codecs p) a) acc (ss_cache ss)"
  have "book_of p ss' = (book_of p ss)\<lparr>bk_batch := (bk_batch (book_of p ss))(a \<mapsto> Some acc), bk_cached := cached_of p ?c\<rparr>"
    using put(2) Some a store_okD(5) [OF ok Some]
    by (auto simp: put_account_def push_pending_def book_of_def restrict_map_def fun_eq_iff)
  moreover have "cached_of p ?c \<subseteq>\<^sub>m (bk_cached (book_of p ss))(a \<mapsto> acc)"
    using cached_put [OF ok a] by (simp add: book_of_def)
  ultimately show ?thesis using book_put [OF put(1)] by simp
qed

lemma read_simulated:
  assumes ok: "store_ok p" and a: "a \<in> st_addresses p"
    and get: "get_account (st_db p) (st_lru p) (st_codecs p) a ss = (r, ss')"
  shows "book_step P (book_of p ss) (book_of p ss') \<and> r = book_read a (book_of p ss)"
proof -
  let ?h = "account_hash (st_codecs p) a"
  obtain hit c where c: "lru_get (st_lru p) ?h (ss_cache ss) = (hit, c)" by fastforce
  have keep: "cached_of p c = cached_of p (ss_cache ss)" using cached_get [OF ok, of ?h "ss_cache ss"] by (simp add: c)
  have same: "book_of p (ss\<lparr>ss_cache := c\<rparr>) = book_of p ss" by (simp add: book_of_def keep)
  have cached: "bk_cached (book_of p ss) a = hit" using a by (simp add: book_of_def cached_of_def c)
  have durable: "bk_durable (book_of p ss) a = Option.bind (db_get (st_db p) (ss_db ss) (account_key a)) (de_account (st_codecs p))"
    using a by (simp add: book_of_def)
  show ?thesis
  proof (cases hit)
    case (Some acc)
    then show ?thesis using get same cached by (auto simp: get_account_def c book_read_def book_same split: option.split)
  next
    case None
    show ?thesis
    proof (cases "bk_durable (book_of p ss) a")
      case None': None
      then show ?thesis using get same cached None durable
        by (auto simp: get_account_def c book_read_def bind_eq_None_conv intro: book_same split: option.splits)
    next
      case (Some acc)
      then have ss': "ss' = ss\<lparr>ss_cache := lru_put (st_lru p) ?h acc c\<rparr>" "r = Some acc"
        using get None durable by (auto simp: get_account_def c bind_eq_Some_conv)
      have "book_of p ss' = (book_of p ss)\<lparr>bk_cached := cached_of p (lru_put (st_lru p) ?h acc c)\<rparr>"
        by (simp add: ss'(1) book_of_def)
      moreover have "cached_of p (lru_put (st_lru p) ?h acc c) \<subseteq>\<^sub>m (bk_cached (book_of p ss))(a \<mapsto> acc)"
        using cached_put [OF ok a, of acc c] by (simp add: keep book_of_def)
      ultimately show ?thesis
        using book_load [OF _ Some] cached None ss'(2) Some by (simp add: book_read_def)
    qed
  qed
qed

lemma commit_simulated:
  assumes ok: "store_ok p" and wf: "st_wf p (ss_db ss)" and commit: "commit (st_db p) ss = (r, ss')"
  shows "book_of p ss' = (case r of Ok _ \<Rightarrow> book_commit (book_of p ss) | Err _ \<Rightarrow> book_drop (book_of p ss)) \<and>
    st_wf p (ss_db ss')"
proof (cases r)
  case (Inl e)
  then show ?thesis using database.commit_spec [OF store_okD(1) [OF ok] wf] commit
    by (simp add: book_of_def book_drop_def)
next
  case (Inr u)
  then show ?thesis using database.commit_spec [OF store_okD(1) [OF ok] wf] commit
    by (auto simp: book_of_def book_commit_def fold_apply_batch restrict_map_def fun_eq_iff split: option.split)
qed

lemma book_rollback: "book_of p (rollback ss) = book_drop (book_of p ss)"
  by (simp add: book_of_def book_drop_def rollback_def)

lemma book_reopen:
  assumes "store_ok p"
  shows "book_of p (storage_new (st_lru p) (ss_db ss) (st_cache_size p)) = (book_drop (book_of p ss))\<lparr>bk_cached := Map.empty\<rparr>"
  by (simp add: book_of_def book_drop_def storage_new_def cached_new [OF assms])

interpretation store_sim: simulation store_ok store_step "\<lambda>p. book_step (st_puts p)" book_of
proof unfold_locales
  fix p :: "('d, 'c) store_params" and x y
  assume ok: "store_ok p" and step: "store_step p x y"
  have other: "book_step (st_puts p) (book_of p x) (book_of p (push_pending k v x))" if "\<And>a. account_key a \<noteq> k" for k v
    unfolding book_push_other [OF that] by (rule book_same)
  show "book_step (st_puts p) (book_of p x) (book_of p y)"
    using step
  proof (cases rule: store_step.cases)
    case (put a acc r)
    then show ?thesis using put_simulated [OF ok] by blast
  next
    case (read a acc)
    then show ?thesis using read_simulated [OF ok] by blast
  next
    case (block b r)
    then show ?thesis by (auto simp: put_block_def other book_same split: option.splits)
  next
    case (transaction tx r)
    then show ?thesis by (auto simp: put_transaction_def other book_same split: option.splits)
  next
    case (code a c r)
    then show ?thesis by (auto simp: put_contract_code_def other)
  next
    case (slot a k v r)
    then show ?thesis by (auto simp: put_storage_def other)
  next
    case (committing r)
    then show ?thesis using commit_simulated [OF ok committing] book_committed book_dropped by (auto split: sum.splits)
  next
    case rolling_back
    then show ?thesis by (simp add: book_rollback book_dropped)
  next
    case restart
    then show ?thesis by (simp add: book_reopen [OF ok] book_restart)
  qed
qed

lemma store_step_wf:
  assumes "store_ok p" and "store_step p ss ss'" shows "st_wf p (ss_db ss')"
  using assms(2)
proof (cases rule: store_step.cases)
  case (committing r)
  then show ?thesis using commit_simulated [OF assms(1)] by blast
qed (auto simp: put_account_def get_account_def put_block_def put_transaction_def put_contract_code_def put_storage_def
    push_pending_def rollback_def storage_new_def split: option.splits prod.splits)

text \<open>
  C34. The account storage refines the book, under any sequence of puts and reads of accounts, puts of
  other records, commits (successful or not), rollbacks and restarts, over every database and cache
  that keep their contracts: the run is a run of the book, a read returns the cached account or else the
  durable one, a commit makes the whole batch durable or, if it fails, drops it, a rollback drops it, and
  a restart drops it and the cache.
\<close>
theorem store_refines_book:
  assumes "store_ok p" and "(store_step p)\<^sup>*\<^sup>* ss ss'" and "st_wf p (ss_db ss)"
  shows "(book_step (st_puts p))\<^sup>*\<^sup>* (book_of p ss) (book_of p ss') \<and>
    (a \<in> st_addresses p \<longrightarrow> fst (get_account (st_db p) (st_lru p) (st_codecs p) a ss') = book_read a (book_of p ss')) \<and>
    book_of p (snd (commit (st_db p) ss')) =
      (case fst (commit (st_db p) ss') of Ok _ \<Rightarrow> book_commit (book_of p ss') | Err _ \<Rightarrow> book_drop (book_of p ss')) \<and>
    book_of p (rollback ss') = book_drop (book_of p ss') \<and>
    book_of p (storage_new (st_lru p) (ss_db ss') (st_cache_size p)) = (book_drop (book_of p ss'))\<lparr>bk_cached := Map.empty\<rparr>"
proof -
  have wf: "st_wf p (ss_db ss')"
    using assms(2,3) by (induction rule: rtranclp_induct) (auto dest: store_step_wf [OF assms(1)])
  show ?thesis
    using store_sim.simulate_run [OF assms(1,2)] read_simulated [OF assms(1) _ surjective_pairing]
      commit_simulated [OF assms(1) wf surjective_pairing] book_rollback book_reopen [OF assms(1)] by blast
qed

text \<open>Every account of a book is an initial one or was put.\<close>

definition book_within :: "(address \<times> account) set \<Rightarrow> account_book \<Rightarrow> bool" where
  "book_within S B \<longleftrightarrow> (\<forall>a acc. (bk_durable B a = Some acc \<or> bk_batch B a = Some (Some acc) \<or> bk_cached B a = Some acc) \<longrightarrow> (a, acc) \<in> S)"

lemma cached_cases: "m \<subseteq>\<^sub>m c(a \<mapsto> acc) \<Longrightarrow> m b = Some x \<Longrightarrow> b = a \<and> x = acc \<or> c b = Some x"
  unfolding map_le_def by (drule bspec [of _ _ b]) (auto split: if_splits)

lemma book_within_step:
  assumes "book_step P B B'" and "book_within S B" and "P \<subseteq> S" shows "book_within S B'"
  using assms
proof (induction rule: book_step.induct)
  case (book_put a acc m B)
  then show ?case by (auto simp: book_within_def split: if_splits dest!: cached_cases [OF book_put(2)])
next
  case (book_load B a acc m)
  then show ?case by (auto simp: book_within_def split: if_splits dest!: cached_cases [OF book_load(3)])
qed (auto simp: book_within_def book_commit_def book_drop_def split: option.splits)

text \<open>
  Reads invent nothing: after any run on a newly opened storage, commits, failures, rollbacks and
  restarts included, an account that is read for an address is one of the puts for this address
  that the run may make, or is stored for it in the database at the start.
\<close>
theorem reads_were_put:
  assumes "store_ok p" and "st_wf p d" and "(store_step p)\<^sup>*\<^sup>* (storage_new (st_lru p) d n) ss" and "a \<in> st_addresses p"
    and "fst (get_account (st_db p) (st_lru p) (st_codecs p) a ss) = Some acc"
  shows "(a, acc) \<in> st_puts p \<or>
    Option.bind (db_get (st_db p) d (account_key a)) (de_account (st_codecs p)) = Some acc"
proof -
  define S where "S = st_puts p \<union> {(b, x). Option.bind (db_get (st_db p) d (account_key b)) (de_account (st_codecs p)) = Some x}"
  have "book_within S (book_of p (storage_new (st_lru p) d n))"
    by (auto simp: book_within_def book_of_def storage_new_def cached_new [OF assms(1)] S_def restrict_map_def split: if_splits)
  then have "book_within S (book_of p ss)"
    by (rule store_sim.transfer_invariant [OF assms(1,3)]) (auto intro: book_within_step simp: S_def)
  moreover have "book_read a (book_of p ss) = Some acc"
    using read_simulated [OF assms(1,4) surjective_pairing] assms(5) by metis
  ultimately have "(a, acc) \<in> S" by (auto simp: book_within_def book_read_def split: option.splits)
  then show ?thesis by (simp add: S_def)
qed

text \<open>
  A read between a put and its commit can hide the put for good: with a cache of one entry, putting
  another account evicts the first, the read loads the old account back into the cache, and after the
  commit the storage still returns the old account, while the database has the new one.
\<close>
theorem stale_read_after_commit:
  assumes "account_hash C a \<noteq> account_hash C b" and "a \<noteq> b"
    and "mem_get d (account_key a) = Some v" and "de_account C v = Some old"
    and "ser_account C new = Some w" and "ser_account C other = Some x"
    and "ss1 = snd (put_account list_lru C a new (storage_new list_lru d 1))"
    and "ss2 = snd (put_account list_lru C b other ss1)"
    and "ss3 = snd (get_account memory_db list_lru C a ss2)" and "commit memory_db ss3 = (r, ss4)"
  shows "r = Ok () \<and> fst (get_account memory_db list_lru C a ss4) = Some old \<and>
    mem_get (ss_db ss4) (account_key a) = Some w"
proof -
  let ?h = "account_hash C"
  have ss3: "ss3 = \<lparr>ss_db = d, ss_cache = (1, [(?h a, old)]),
      ss_pending = [(account_key a, Some w), (account_key b, Some x)]\<rparr>"
    using assms(1,3-9)
    by (simp add: put_account_def push_pending_def storage_new_def list_lru_def get_account_def)
  have "r = Ok ()" "ss_cache ss4 = (1, [(?h a, old)])" 
    using assms(10) by (auto simp: ss3 commit_def mem_batch_write_def)
  moreover have "mem_get (ss_db ss4) (account_key a) = Some w"
    using assms(2,10) fold_mem_write_one [of "ss_pending ss3" d]
    by (auto simp: ss3 commit_def mem_batch_write_def apply_change_def)
  ultimately show ?thesis by (simp add: get_account_def list_lru_def)
qed

subsection \<open>Witnesses\<close>

definition sample_store :: "((bytes, bytes) hashmap, nat \<times> (hash \<times> account) list) store_params" where
  "sample_store = \<lparr>st_db = memory_db, st_lru = list_lru, st_codecs = sample_codec, st_wf = hm_wf, st_cache_size = 2,
     st_puts = {(Address [7], account_default)}, st_addresses = {Address [7]}\<rparr>"

lemma sample_store_ok: "store_ok sample_store"
  using mem.database_axioms list_lru.lru_cache_axioms
  by (auto simp: store_ok_def sample_store_def sample_codec_def split: if_splits)

definition sample_put :: "((bytes, bytes) hashmap, nat \<times> (hash \<times> account) list) state_storage" where
  "sample_put = snd (put_account list_lru sample_codec (Address [7]) account_default (storage_new list_lru mem_new 2))"

lemma sample_run:
  "(store_step sample_store)\<^sup>*\<^sup>* (storage_new list_lru mem_new 2) (snd (commit memory_db sample_put))"
proof -
  have "store_step sample_store (storage_new list_lru mem_new 2) sample_put"
    by (rule store_step.put [of _ _ "Address [7]" account_default "Ok ()"])
      (simp_all add: sample_store_def sample_put_def storage_new_def mem_new_def put_account_def sample_codec_def)
  moreover have "store_step sample_store sample_put (snd (commit memory_db sample_put))"
    by (rule store_step.committing [OF _ surjective_pairing, of sample_store, simplified sample_store_def, simplified, folded sample_store_def])
      (simp add: sample_put_def storage_new_def mem_new_def put_account_def sample_codec_def push_pending_def)
  ultimately show ?thesis by (meson converse_rtranclp_into_rtranclp r_into_rtranclp)
qed

lemma sample_params [simp]:
  "st_db sample_store = memory_db" "st_lru sample_store = list_lru" "st_codecs sample_store = sample_codec"
  "st_wf sample_store = hm_wf" "st_puts sample_store = {(Address [7], account_default)}" "st_addresses sample_store = {Address [7]}"
  by (simp_all add: sample_store_def)

lemma sample_read: "fst (get_account memory_db list_lru sample_codec (Address [7]) (snd (commit memory_db sample_put))) = Some account_default"
  by (simp add: sample_put_def put_account_def sample_codec_def storage_new_def push_pending_def commit_def
      mem_batch_write_def get_account_def list_lru_def)

theorem store_refines_book_witness:
  "book_read (Address [7]) (book_of sample_store (snd (commit memory_db sample_put))) = Some account_default"
  using store_refines_book [OF sample_store_ok, of "storage_new list_lru mem_new 2", where a = "Address [7]"] sample_run sample_read
  by (simp add: storage_new_def mem_new_def)

theorem reads_were_put_witness:
  "(Address [7], account_default) \<in> st_puts sample_store \<or>
   Option.bind (db_get memory_db mem_new (account_key (Address [7]))) (de_account sample_codec) = Some account_default"
  using reads_were_put [OF sample_store_ok, of mem_new 2 "snd (commit memory_db sample_put)" "Address [7]" account_default]
    sample_run sample_read
  by (simp add: mem_new_def)

definition balance_codec :: store_ext where
  "balance_codec = sample_codec\<lparr>ser_account := (\<lambda>acc. Some [ucast (acc_balance acc)]),
     de_account := (\<lambda>b. Some (account_default\<lparr>acc_balance := ucast (hd b)\<rparr>))\<rparr>"

theorem stale_read_after_commit_witness:
  "\<exists>ss4. acc_balance (the (fst (get_account memory_db list_lru balance_codec (Address [1]) ss4))) = 5 \<and>
     mem_get (ss_db ss4) (account_key (Address [1])) = Some [9]"
proof -
  let ?a = "Address [1]" and ?acc = "\<lambda>n. account_default\<lparr>acc_balance := n\<rparr>"
  let ?d = "[(account_key ?a, [5])]"
  obtain r ss4 where c: "commit memory_db (snd (get_account memory_db list_lru balance_codec ?a
      (snd (put_account list_lru balance_codec (Address [2]) (?acc 3)
        (snd (put_account list_lru balance_codec ?a (?acc 9) (storage_new list_lru ?d 1))))))) = (r, ss4)"
    by fastforce
  have codec: "account_hash balance_codec (Address bs) = Hash bs" "ser_account balance_codec acc = Some [ucast (acc_balance acc)]"
    "de_account balance_codec b = Some (?acc (ucast (hd b)))" for bs acc b
    by (simp_all add: balance_codec_def sample_codec_def account_hash_def sample_ext_def hash_new_def)
  have "fst (get_account memory_db list_lru balance_codec ?a ss4) = Some (?acc 5) \<and>
      mem_get (ss_db ss4) (account_key ?a) = Some [9]"
    using stale_read_after_commit [of balance_codec ?a "Address [2]" ?d "[5]" "?acc 5" "?acc 9" "[9]" "?acc 3" "[3]",
        OF _ _ _ _ _ _ refl refl refl c]
    by (simp add: codec mem_get_def hm_get_def)
  then show ?thesis by (intro exI [of _ ss4]) simp
qed

end
