(* ===== verification/Sdk.thy ===== *)
theory Sdk
  imports Types "HOL-Library.Monad_Syntax"
begin

text \<open>
  \<^verbatim>\<open>src/src/sdk.rs\<close>: what the contracts under \<^verbatim>\<open>src/contracts\<close> run on, the host storage, the token and
  event effects, \<open>u256\<close>, \<open>Map\<close>, \<open>Set\<close> and \<open>require\<close>.

  The host is outside the repository: a call of a token or event function is recorded in the order
  of the calls (\<open>h_calls\<close>, \<open>h_events\<close>); the calling context and the proof checks of the host are the
  fields of \<open>env\<close>. A panic is \<open>None\<close>. \<^verbatim>\<open>serde_json\<close> is a \<open>codec\<close> per type; \<open>codec_ok\<close> is its round
  trip. A \<open>Map\<close> or \<open>Set\<close> of a contract has no state of its own: all of them read and write the one
  storage of the host under the serialised key, so two collections with keys of the same type share
  their entries. The model keeps this: the operations take a codec of the keys, a codec of the
  values, and the host.
\<close>

subsection \<open>The host\<close>

datatype token_call =
    CallTransfer address address u128
  | CallTransferFrom address address address u128
  | CallMint address address u128
  | CallPrivateTransfer address address address bytes
  | CallLockPrivate address address hash
  | CallMintLp address u128

record 'e host =
  h_storage :: "(bytes, bytes) hashmap"
  h_calls :: "token_call list"
  h_events :: "'e list"

definition host_new :: "'e host" where
  "host_new = \<lparr>h_storage = [], h_calls = [], h_events = []\<rparr>"

definition storage_get :: "bytes \<Rightarrow> 'e host \<Rightarrow> bytes option" where
  "storage_get k h = hm_get (h_storage h) k"

definition storage_set :: "bytes \<Rightarrow> bytes \<Rightarrow> 'e host \<Rightarrow> 'e host" where
  "storage_set k v h = h\<lparr>h_storage := hm_insert k v (h_storage h)\<rparr>"

definition storage_remove :: "bytes \<Rightarrow> 'e host \<Rightarrow> 'e host" where
  "storage_remove k h = h\<lparr>h_storage := hm_remove k (h_storage h)\<rparr>"

definition host_call :: "token_call \<Rightarrow> 'e host \<Rightarrow> 'e host" where
  "host_call c h = h\<lparr>h_calls := h_calls h @ [c]\<rparr>"

definition emit :: "'e \<Rightarrow> 'e host \<Rightarrow> 'e host" where
  "emit e h = h\<lparr>h_events := h_events h @ [e]\<rparr>"

record env =
  env_caller :: address
  env_self :: address
  env_timestamp :: u64
  env_block_height :: u64
  env_is_owner :: bool
  env_is_protocol :: "address \<Rightarrow> bool"
  env_chain_id :: u64
  env_random :: "nat \<Rightarrow> bytes"

definition PROTON_TOKEN :: address where
  "PROTON_TOKEN = Address (replicate 20 0)"

definition token_transfer :: "address \<Rightarrow> address \<Rightarrow> u128 \<Rightarrow> 'e host \<Rightarrow> 'e host" where
  "token_transfer token to amount = host_call (CallTransfer token to amount)"

definition token_transfer_from :: "address \<Rightarrow> address \<Rightarrow> address \<Rightarrow> u128 \<Rightarrow> 'e host \<Rightarrow> 'e host" where
  "token_transfer_from token from to amount = host_call (CallTransferFrom token from to amount)"

definition mint_wrapped_tokens :: "address \<Rightarrow> address \<Rightarrow> u128 \<Rightarrow> 'e host \<Rightarrow> 'e host" where
  "mint_wrapped_tokens token to amount = host_call (CallMint token to amount)"

definition token_private_transfer :: "address \<Rightarrow> address \<Rightarrow> address \<Rightarrow> bytes \<Rightarrow> 'e host \<Rightarrow> 'e host" where
  "token_private_transfer token from to enc_amount = host_call (CallPrivateTransfer token from to enc_amount)"

definition lock_private_assets :: "address \<Rightarrow> address \<Rightarrow> hash \<Rightarrow> 'e host \<Rightarrow> 'e host" where
  "lock_private_assets token from commitment = host_call (CallLockPrivate token from commitment)"

definition update_root :: "(bytes \<Rightarrow> bytes) \<Rightarrow> hash \<Rightarrow> hash \<Rightarrow> hash" where
  "update_root sha current commitment = hash_new sha (hash_bytes current @ hash_bytes commitment)"

definition require :: "bool \<Rightarrow> unit option" where
  "require condition = (if condition then Some () else None)"

lemma require_eq_Some [simp]: "require b = Some u \<longleftrightarrow> b"
  by (simp add: require_def)

lemma require_simps [simp]: "require True = Some ()" "require False = None"
  by (simp_all add: require_def)

text \<open>Effects do not touch the storage, and storage updates record no effects.\<close>

lemmas call_defs = token_transfer_def token_transfer_from_def mint_wrapped_tokens_def
  token_private_transfer_def lock_private_assets_def

lemma storage_get_simps [simp]:
  "storage_get k (storage_set k' v h) = (if k = k' then Some v else storage_get k h)"
  "storage_get k (storage_remove k' h) = (if k = k' then None else storage_get k h)"
  "storage_get k (host_call c h) = storage_get k h" "storage_get k (emit e h) = storage_get k h"
  by (simp_all add: storage_get_def storage_set_def storage_remove_def host_call_def emit_def)

lemma h_calls_simps [simp]:
  "h_calls (storage_set k v h) = h_calls h" "h_calls (storage_remove k h) = h_calls h"
  "h_calls (host_call c h) = h_calls h @ [c]" "h_calls (emit e h) = h_calls h"
  by (simp_all add: storage_set_def storage_remove_def host_call_def emit_def)

lemma h_events_simps [simp]:
  "h_events (storage_set k v h) = h_events h" "h_events (storage_remove k h) = h_events h"
  "h_events (host_call c h) = h_events h" "h_events (emit e h) = h_events h @ [e]"
  by (simp_all add: storage_set_def storage_remove_def host_call_def emit_def)

subsection \<open>Collections\<close>

record 'a codec =
  to_vec :: "'a \<Rightarrow> bytes option"
  from_slice :: "bytes \<Rightarrow> 'a option"

definition map_get :: "'k codec \<Rightarrow> 'v codec \<Rightarrow> 'k \<Rightarrow> 'e host \<Rightarrow> 'v option" where
  "map_get K V key h = do {
     key_bytes \<leftarrow> to_vec K key;
     value_bytes \<leftarrow> storage_get key_bytes h;
     from_slice V value_bytes
   }"

definition map_insert :: "'k codec \<Rightarrow> 'v codec \<Rightarrow> 'k \<Rightarrow> 'v \<Rightarrow> 'e host \<Rightarrow> 'e host option" where
  "map_insert K V key v h = do {
     key_bytes \<leftarrow> to_vec K key;
     value_bytes \<leftarrow> to_vec V v;
     Some (storage_set key_bytes value_bytes h)
   }"

definition map_remove :: "'k codec \<Rightarrow> 'k \<Rightarrow> 'e host \<Rightarrow> 'e host option" where
  "map_remove K key h = do { key_bytes \<leftarrow> to_vec K key; Some (storage_remove key_bytes h) }"

definition map_contains_key :: "'k codec \<Rightarrow> 'v codec \<Rightarrow> 'k \<Rightarrow> 'e host \<Rightarrow> bool" where
  "map_contains_key K V key h \<longleftrightarrow> map_get K V key h \<noteq> None"

definition map_len :: "'k codec \<Rightarrow> 'v codec \<Rightarrow> 'e host \<Rightarrow> nat" where
  "map_len K V h = 0"

definition map_iter :: "'k codec \<Rightarrow> 'v codec \<Rightarrow> 'e host \<Rightarrow> ('k \<times> 'v) list" where
  "map_iter K V h = []"

definition set_insert :: "'k codec \<Rightarrow> 'k \<Rightarrow> 'e host \<Rightarrow> 'e host option" where
  "set_insert K v h = do { key \<leftarrow> to_vec K v; Some (storage_set key [1] h) }"

definition set_contains :: "'k codec \<Rightarrow> 'k \<Rightarrow> 'e host \<Rightarrow> bool option" where
  "set_contains K v h = do { key \<leftarrow> to_vec K v; Some (storage_get key h \<noteq> None) }"

definition set_remove :: "'k codec \<Rightarrow> 'k \<Rightarrow> 'e host \<Rightarrow> 'e host option" where
  "set_remove K v h = do { key \<leftarrow> to_vec K v; Some (storage_remove key h) }"

text \<open>What \<^verbatim>\<open>serde_json\<close> promises: every value is written, and read back as itself.\<close>

definition codec_ok :: "'a codec \<Rightarrow> bool" where
  "codec_ok C \<longleftrightarrow> (\<forall>x. \<exists>b. to_vec C x = Some b \<and> from_slice C b = Some x)"

lemma codec_okE:
  assumes "codec_ok C"
  obtains b where "to_vec C x = Some b" "from_slice C b = Some x"
  using assms by (auto simp: codec_ok_def)

definition enc :: "'a codec \<Rightarrow> 'a \<Rightarrow> bytes" where
  "enc C x = the (to_vec C x)"

lemma codec_enc: "codec_ok C \<Longrightarrow> to_vec C x = Some (enc C x)"
  by (metis codec_okE enc_def option.sel)

lemma codec_dec: "codec_ok C \<Longrightarrow> from_slice C (enc C x) = Some x"
  by (metis codec_okE enc_def option.sel)

lemma enc_inject: "codec_ok C \<Longrightarrow> enc C x = enc C y \<longleftrightarrow> x = y"
  by (metis codec_dec option.inject)

lemma map_get_ok: "codec_ok K \<Longrightarrow> map_get K V k h = Option.bind (storage_get (enc K k) h) (from_slice V)"
  by (simp add: map_get_def codec_enc)

lemma map_insert_ok:
  "codec_ok K \<Longrightarrow> codec_ok V \<Longrightarrow> map_insert K V k v h = Some (storage_set (enc K k) (enc V v) h)"
  by (simp add: map_insert_def codec_enc)

lemma map_remove_ok: "codec_ok K \<Longrightarrow> map_remove K k h = Some (storage_remove (enc K k) h)"
  by (simp add: map_remove_def codec_enc)

lemma set_insert_ok: "codec_ok K \<Longrightarrow> set_insert K k h = Some (storage_set (enc K k) [1] h)"
  by (simp add: set_insert_def codec_enc)

lemma set_contains_ok: "codec_ok K \<Longrightarrow> set_contains K k h = Some (storage_get (enc K k) h \<noteq> None)"
  by (simp add: set_contains_def codec_enc)

lemma map_get_effects [simp]:
  "map_get K V k (host_call c h) = map_get K V k h" "map_get K V k (emit e h) = map_get K V k h"
  by (simp_all add: map_get_def)

lemma map_get_new: "map_get K V k host_new = None"
  by (cases "to_vec K k") (simp_all add: map_get_def storage_get_def host_new_def)

lemma map_get_storage:
  "codec_ok K \<Longrightarrow> map_get K V k (storage_set b v h) = (if enc K k = b then from_slice V v else map_get K V k h)"
  "codec_ok K \<Longrightarrow> map_get K V k (storage_remove b h) = (if enc K k = b then None else map_get K V k h)"
  by (simp_all add: map_get_ok)

lemma map_insert_Some: "map_insert K V k v h = Some h' \<longleftrightarrow>
    (\<exists>kb vb. to_vec K k = Some kb \<and> to_vec V v = Some vb \<and> h' = storage_set kb vb h)"
  by (auto simp: map_insert_def Option.bind_eq_Some_conv)

text \<open>The storage operations leave the recorded calls alone.\<close>

lemma collection_calls:
  "map_insert K V k v h = Some h' \<Longrightarrow> h_calls h' = h_calls h"
  "map_remove K k h = Some h' \<Longrightarrow> h_calls h' = h_calls h"
  "set_insert K k h = Some h' \<Longrightarrow> h_calls h' = h_calls h"
  by (auto simp: map_insert_def map_remove_def set_insert_def Option.bind_eq_Some_conv)

text \<open>
  One storage behind all collections: after an insertion the map returns the value for that
  key and is unchanged at the others, but any other map with the same key codec now reads the
  inserted bytes under that key, as values of its own type, and any set of such keys contains it.
\<close>
theorem map_insert_aliases:
  assumes "codec_ok K" and "codec_ok V" and "map_insert K V k v h = Some h'"
  shows "map_get K V k' h' = (if k' = k then Some v else map_get K V k' h) \<and>
    map_get K W k h' = from_slice W (enc V v) \<and> set_contains K k h' = Some True"
  using assms by (auto simp: map_insert_ok map_get_ok set_contains_ok codec_dec enc_inject)

subsection \<open>256-bit integers\<close>

datatype u256 = U256 (limbs: "u64 list")

definition u256_wf :: "u256 \<Rightarrow> bool" where "u256_wf a \<longleftrightarrow> length (limbs a) = 4"

definition u256_zero :: u256 where "u256_zero = U256 [0, 0, 0, 0]"
definition u256_one :: u256 where "u256_one = U256 [1, 0, 0, 0]"

definition overflowing_add :: "u64 \<Rightarrow> u64 \<Rightarrow> u64 \<times> bool" where
  "overflowing_add a b = (a + b, a + b < a)"

definition overflowing_sub :: "u64 \<Rightarrow> u64 \<Rightarrow> u64 \<times> bool" where
  "overflowing_sub a b = (a - b, a < b)"

fun add_limbs :: "u64 list \<Rightarrow> u64 list \<Rightarrow> u64 \<Rightarrow> u64 list" where
  "add_limbs (x # xs) (y # ys) carry =
     (case overflowing_add x y of (s, c1) \<Rightarrow>
        (case overflowing_add s carry of (s', c2) \<Rightarrow>
           s' # add_limbs xs ys (if c1 \<or> c2 then 1 else 0)))"
| "add_limbs _ _ carry = []"

fun sub_limbs :: "u64 list \<Rightarrow> u64 list \<Rightarrow> u64 \<Rightarrow> u64 list" where
  "sub_limbs (x # xs) (y # ys) borrow =
     (case overflowing_sub x y of (d, b1) \<Rightarrow>
        (case overflowing_sub d borrow of (d', b2) \<Rightarrow>
           d' # sub_limbs xs ys (if b1 \<or> b2 then 1 else 0)))"
| "sub_limbs _ _ borrow = []"

definition u256_add :: "u256 \<Rightarrow> u256 \<Rightarrow> u256" where
  "u256_add a b = U256 (add_limbs (limbs a) (limbs b) 0)"

definition u256_sub :: "u256 \<Rightarrow> u256 \<Rightarrow> u256" where
  "u256_sub a b = U256 (sub_limbs (limbs a) (limbs b) 0)"

definition u256_le_bytes :: "u256 \<Rightarrow> bytes" where
  "u256_le_bytes a = concat (map u64_le (limbs a))"

definition u256_of_u128 :: "u128 \<Rightarrow> u256" where
  "u256_of_u128 v = U256 [ucast v, ucast (drop_bit 64 v), 0, 0]"

text \<open>\<^verbatim>\<open>#[derive(PartialOrd)]\<close>: lexicographic on the limbs, the least significant first.\<close>

fun limbs_less :: "u64 list \<Rightarrow> u64 list \<Rightarrow> bool" where
  "limbs_less (x # xs) (y # ys) = (x < y \<or> x = y \<and> limbs_less xs ys)"
| "limbs_less [] (y # ys) = True"
| "limbs_less _ [] = False"

definition u256_less :: "u256 \<Rightarrow> u256 \<Rightarrow> bool" where
  "u256_less a b = limbs_less (limbs a) (limbs b)"

fun limbs_value :: "u64 list \<Rightarrow> nat" where
  "limbs_value [] = 0"
| "limbs_value (x # xs) = unat x + 2 ^ 64 * limbs_value xs"

definition u256_value :: "u256 \<Rightarrow> nat" where "u256_value a = limbs_value (limbs a)"

lemma unat_add_carry:
  fixes x y :: u64
  shows "unat (x + y) + (if x + y < x then 2 ^ 64 else 0) = unat x + unat y"
proof -
  have x: "unat x < 2 ^ LENGTH(64)" and y: "unat y < 2 ^ LENGTH(64)" by (rule unsigned_less)+
  have s: "unat (x + y) = (unat x + unat y) mod 2 ^ 64" by (simp add: unat_word_ariths)
  show ?thesis
  proof (cases "unat x + unat y < 2 ^ 64")
    case True
    then have "unat (x + y) = unat x + unat y" by (simp add: s)
    then show ?thesis by (simp add: word_less_nat_alt)
  next
    case False
    then have "unat (x + y) = unat x + unat y - 2 ^ 64" using x y by (simp add: s mod_if [of "unat x + unat y"])
    then show ?thesis using x y False by (simp add: word_less_nat_alt)
  qed
qed

lemma unat_sub_borrow:
  fixes x y :: u64
  shows "unat (x - y) + unat y = unat x + (if x < y then 2 ^ 64 else 0)"
proof (cases "x < y")
  case True
  have "unat y < 2 ^ LENGTH(64)" by (rule unsigned_less)
  with True show ?thesis by (simp add: unat_sub_if' word_less_nat_alt)
next
  case False
  then show ?thesis by (simp add: unat_sub_if' word_less_nat_alt)
qed

lemma add_step:
  fixes x y c :: u64
  assumes "unat c \<le> 1"
  shows "unat (x + y + c) + 2 ^ 64 * unat (if x + y < x \<or> x + y + c < x + y then 1 else 0 :: u64) =
    unat x + unat y + unat c"
proof -
  have x: "unat x < 2 ^ LENGTH(64)" and y: "unat y < 2 ^ LENGTH(64)" by (rule unsigned_less)+
  have a: "unat (x + y) + (if x + y < x then 2 ^ 64 else 0) = unat x + unat y" by (rule unat_add_carry)
  have b: "unat (x + y + c) + (if x + y + c < x + y then 2 ^ 64 else 0) = unat (x + y) + unat c"
    by (rule unat_add_carry)
  show ?thesis
  proof (cases "x + y < x")
    case True
    then have "unat (x + y) + unat c < 2 ^ 64" using a x y assms by simp
    then have "\<not> x + y + c < x + y" using b by (cases "x + y + c < x + y") simp_all
    with True a b show ?thesis by simp
  next
    case False
    with a b show ?thesis by (cases "x + y + c < x + y") simp_all
  qed
qed

lemma sub_step:
  fixes x y c :: u64
  assumes "unat c \<le> 1"
  shows "unat (x - y - c) + unat y + unat c =
    unat x + 2 ^ 64 * unat (if x < y \<or> x - y < c then 1 else 0 :: u64)"
proof -
  have x: "unat x < 2 ^ LENGTH(64)" and y: "unat y < 2 ^ LENGTH(64)" by (rule unsigned_less)+
  have a: "unat (x - y) + unat y = unat x + (if x < y then 2 ^ 64 else 0)" by (rule unat_sub_borrow)
  have b: "unat (x - y - c) + unat c = unat (x - y) + (if x - y < c then 2 ^ 64 else 0)" by (rule unat_sub_borrow)
  show ?thesis
  proof (cases "x < y")
    case True
    then have "unat (x - y) \<ge> 1" using a x y by simp
    then have "\<not> x - y < c" using assms by (simp add: word_less_nat_alt)
    with True a b show ?thesis by simp
  next
    case False
    with a b show ?thesis by (cases "x - y < c") simp_all
  qed
qed

lemma length_limbs [simp]:
  "length xs = length ys \<Longrightarrow> length (add_limbs xs ys c) = length ys"
  "length xs = length ys \<Longrightarrow> length (sub_limbs xs ys c) = length ys"
  by (induction xs ys arbitrary: c rule: list_induct2) (simp_all add: overflowing_add_def overflowing_sub_def)

lemma limbs_value_less: "limbs_value xs < 2 ^ (64 * length xs)"
proof (induction xs)
  case (Cons x xs)
  have "unat x < 2 ^ LENGTH(64)" by (rule unsigned_less)
  then have "unat x + 2 ^ 64 * limbs_value xs < 2 ^ 64 * (limbs_value xs + 1)" by simp
  also have "\<dots> \<le> 2 ^ 64 * 2 ^ (64 * length xs)" using Cons by (intro mult_le_mono) simp_all
  finally show ?case by (simp add: power_add)
qed simp

lemma add_limbs_value:
  assumes "length xs = length ys" and "unat c \<le> 1"
  shows "\<exists>k. limbs_value (add_limbs xs ys c) + k * 2 ^ (64 * length xs) = limbs_value xs + limbs_value ys + unat c"
  using assms
proof (induction xs ys arbitrary: c rule: list_induct2)
  case (Cons x xs y ys)
  let ?c = "if x + y < x \<or> x + y + c < x + y then 1 else 0 :: u64"
  have "unat ?c \<le> 1" by simp
  then obtain k where k: "limbs_value (add_limbs xs ys ?c) + k * 2 ^ (64 * length xs) =
      limbs_value xs + limbs_value ys + unat ?c"
    using Cons.IH by blast
  have "limbs_value (add_limbs (x # xs) (y # ys) c) + k * 2 ^ (64 * length (x # xs)) =
      unat (x + y + c) + 2 ^ 64 * (limbs_value (add_limbs xs ys ?c) + k * 2 ^ (64 * length xs))"
    by (simp add: overflowing_add_def power_add algebra_simps)
  also have "\<dots> = (unat (x + y + c) + 2 ^ 64 * unat ?c) + 2 ^ 64 * (limbs_value xs + limbs_value ys)"
    unfolding k by (simp only: algebra_simps)
  also have "\<dots> = limbs_value (x # xs) + limbs_value (y # ys) + unat c"
    unfolding add_step [OF Cons.prems] by simp
  finally show ?case by blast
qed simp_all

lemma sub_limbs_value:
  assumes "length xs = length ys" and "unat c \<le> 1"
  shows "\<exists>k. limbs_value (sub_limbs xs ys c) + limbs_value ys + unat c = limbs_value xs + k * 2 ^ (64 * length xs)"
  using assms
proof (induction xs ys arbitrary: c rule: list_induct2)
  case (Cons x xs y ys)
  let ?c = "if x < y \<or> x - y < c then 1 else 0 :: u64"
  have "unat ?c \<le> 1" by simp
  then obtain k where k: "limbs_value (sub_limbs xs ys ?c) + limbs_value ys + unat ?c =
      limbs_value xs + k * 2 ^ (64 * length xs)"
    using Cons.IH by blast
  have "limbs_value (sub_limbs (x # xs) (y # ys) c) + limbs_value (y # ys) + unat c + 2 ^ 64 * unat ?c =
      (unat (x - y - c) + unat y + unat c) + 2 ^ 64 * (limbs_value (sub_limbs xs ys ?c) + limbs_value ys + unat ?c)"
    by (simp add: overflowing_sub_def algebra_simps)
  also have "\<dots> = limbs_value (x # xs) + k * 2 ^ (64 * length (x # xs)) + 2 ^ 64 * unat ?c"
    unfolding k sub_step [OF Cons.prems] by (simp add: power_add algebra_simps)
  finally show ?case by auto
qed simp_all

lemma u256_add_sub:
  assumes "u256_wf a" and "u256_wf b"
  shows "u256_wf (u256_add a b) \<and> u256_value (u256_add a b) = (u256_value a + u256_value b) mod 2 ^ 256 \<and>
    u256_wf (u256_sub a b) \<and> (u256_value (u256_sub a b) + u256_value b) mod 2 ^ 256 = u256_value a"
proof -
  have l: "length (limbs a) = 4" "length (limbs b) = 4" using assms by (simp_all add: u256_wf_def)
  obtain k where k: "limbs_value (add_limbs (limbs a) (limbs b) 0) + k * 2 ^ 256 = limbs_value (limbs a) + limbs_value (limbs b)"
    using add_limbs_value [of "limbs a" "limbs b" 0] l by auto
  obtain j where j: "limbs_value (sub_limbs (limbs a) (limbs b) 0) + limbs_value (limbs b) = limbs_value (limbs a) + j * 2 ^ 256"
    using sub_limbs_value [of "limbs a" "limbs b" 0] l by auto
  have "limbs_value (add_limbs (limbs a) (limbs b) 0) < 2 ^ 256"
    using limbs_value_less [of "add_limbs (limbs a) (limbs b) 0"] l by simp
  moreover have "limbs_value (limbs a) < 2 ^ 256" using limbs_value_less [of "limbs a"] l by simp
  ultimately show ?thesis using l
    unfolding u256_wf_def u256_value_def u256_add_def u256_sub_def u256.sel k [symmetric] j
    by (simp only: mod_mult_self1 mod_less length_limbs simp_thms)
qed

text \<open>
  \<open>u256\<close> addition and subtraction are arithmetic modulo \<open>2^256\<close>: on four limbs the results have
  four limbs, the sum has the value of the sum modulo \<open>2^256\<close>, and adding the subtrahend to the
  difference gives the minuend back modulo \<open>2^256\<close>.
\<close>
theorem u256_arithmetic:
  assumes "u256_wf a" and "u256_wf b"
  shows "u256_wf (u256_add a b) \<and> u256_value (u256_add a b) = (u256_value a + u256_value b) mod 2 ^ 256 \<and>
    u256_wf (u256_sub a b) \<and> (u256_value (u256_sub a b) + u256_value b) mod 2 ^ 256 = u256_value a"
  by (rule u256_add_sub) (use assms in blast)+

theorem u256_arithmetic_witness:
  "u256_value (u256_add (U256 [18446744073709551615, 5, 0, 0]) u256_one) = 6 * 2 ^ 64"
  using u256_arithmetic [of "U256 [18446744073709551615, 5, 0, 0]" u256_one]
  by (simp add: u256_wf_def u256_one_def u256_value_def)

lemma from_le_append: "from_le (xs @ ys) = from_le xs + 256 ^ length xs * from_le ys"
  by (induction xs) (simp_all add: algebra_simps)

text \<open>
  The 32 bytes of a \<open>u256\<close> are its little-endian value, and the conversion from \<open>u128\<close> keeps the
  value; but the derived order compares the least significant limb first, so it is not the order of
  the values.
\<close>
theorem u256_bytes_and_order:
  "from_le (u256_le_bytes a) = u256_value a \<and> u256_value (u256_of_u128 v) = unat v \<and>
   u256_less (u256_of_u128 (2 ^ 64)) u256_one \<and> u256_value u256_one < u256_value (u256_of_u128 (2 ^ 64))"
proof -
  have "from_le (concat (map u64_le xs)) = limbs_value xs" for xs
    by (induction xs) (simp_all add: from_le_append)
  moreover have "unat (ucast v :: u64) + 2 ^ 64 * unat (ucast (drop_bit 64 v) :: u64) = unat v"
  proof -
    have v: "unat v < 2 ^ LENGTH(128)" by (rule unsigned_less)
    have "unat v div 2 ^ 64 < 2 ^ 64" using v by (simp add: less_mult_imp_div_less)
    then show ?thesis
      by (simp add: unsigned_ucast_eq unsigned_drop_bit_eq drop_bit_eq_div take_bit_eq_mod unat_div)
  qed
  ultimately show ?thesis
    by (simp add: u256_le_bytes_def u256_value_def u256_of_u128_def u256_one_def u256_less_def)
qed

text \<open>A codec for the instances: numbers as one byte, kept apart by a tag.\<close>

definition tag_codec :: "u8 \<Rightarrow> ('a \<Rightarrow> bytes) \<Rightarrow> (bytes \<Rightarrow> 'a option) \<Rightarrow> 'a codec" where
  "tag_codec t f g = \<lparr>to_vec = (\<lambda>x. Some (t # f x)),
     from_slice = (\<lambda>b. case b of [] \<Rightarrow> None | u # bs \<Rightarrow> if u = t then g bs else None)\<rparr>"

lemma tag_codec_ok: "(\<And>x. g (f x) = Some x) \<Longrightarrow> codec_ok (tag_codec t f g)"
  by (simp add: codec_ok_def tag_codec_def)

lemma tag_codec_simps [simp]:
  "enc (tag_codec t f g) x = t # f x" "from_slice (tag_codec t f g) (u # b) = (if u = t then g b else None)"
  "to_vec (tag_codec t f g) x = Some (t # f x)"
  by (simp_all add: tag_codec_def enc_def)

definition join_bytes :: "bytes \<Rightarrow> bytes \<Rightarrow> bytes" where
  "join_bytes xs ys = replicate (length xs) 1 @ 0 # xs @ ys"

definition split_bytes :: "bytes \<Rightarrow> bytes \<times> bytes" where
  "split_bytes bs = (let n = length (takeWhile (\<lambda>b. b = 1) bs); r = drop (Suc n) bs in (take n r, drop n r))"

lemma split_join [simp]: "split_bytes (join_bytes xs ys) = (xs, ys)"
proof -
  have "takeWhile (\<lambda>b. b = 1) (join_bytes xs ys) = replicate (length xs) 1"
    by (simp add: join_bytes_def takeWhile_append)
  then show ?thesis by (simp add: split_bytes_def join_bytes_def Let_def)
qed

definition pair_codec :: "u8 \<Rightarrow> (address \<times> address) codec" where
  "pair_codec t = tag_codec t (\<lambda>(a, b). join_bytes (address_bytes a) (address_bytes b))
     (\<lambda>bs. case split_bytes bs of (x, y) \<Rightarrow> Some (Address x, Address y))"

definition bytes_codec :: "bytes codec" where
  "bytes_codec = tag_codec 5 (\<lambda>b. b) Some"

lemma pair_codec_ok [simp]: "codec_ok (pair_codec t)" "codec_ok bytes_codec"
  by (auto simp: pair_codec_def bytes_codec_def intro!: tag_codec_ok)

definition addr_codec :: "address codec" where
  "addr_codec = tag_codec 1 address_bytes (\<lambda>b. Some (Address b))"

definition hash_codec :: "hash codec" where
  "hash_codec = tag_codec 2 hash_bytes (\<lambda>b. Some (Hash b))"

definition u128_codec :: "u128 codec" where
  "u128_codec = tag_codec 3 u128_le (\<lambda>b. Some (word_of_nat (from_le b)))"

definition u64_codec :: "u64 codec" where
  "u64_codec = tag_codec 4 u64_le (\<lambda>b. Some (word_of_nat (from_le b)))"

lemma sample_codecs_ok [simp]:
  "codec_ok addr_codec" "codec_ok hash_codec" "codec_ok u128_codec" "codec_ok u64_codec"
  by (simp_all add: addr_codec_def hash_codec_def u128_codec_def u64_codec_def tag_codec_ok)

theorem map_insert_aliases_witness:
  "map_get addr_codec hash_codec (Address [1])
     (the (map_insert addr_codec u128_codec (Address [1]) 5 (host_new :: unit host))) = None"
proof -
  obtain h' where h': "map_insert addr_codec u128_codec (Address [1]) 5 (host_new :: unit host) = Some h'"
    by (simp add: map_insert_ok)
  have "map_get addr_codec hash_codec (Address [1]) h' = from_slice hash_codec (enc u128_codec 5)"
    by (rule map_insert_aliases [OF _ _ h', THEN conjunct2, THEN conjunct1]) simp_all
  also have "\<dots> = None" by (simp add: hash_codec_def u128_codec_def)
  finally show ?thesis by (simp only: h' option.sel)
qed

end
