(* ===== verification/Zk.thy ===== *)
theory Zk
  imports Sdk
begin

text \<open>
  \<^verbatim>\<open>src/src/sdk.rs\<close>, modules \<^verbatim>\<open>context\<close> and \<^verbatim>\<open>zk\<close> (and \<^verbatim>\<open>token::balance_of\<close>): the wrappers with which a
  contract asks its host for the calling context, a balance and the verdict on a proof. The host functions are the fields of
  \<open>context_host\<close> and \<open>zk_host\<close>. A pointer that is passed with a length is a byte list and that length;
  a pointer that is passed alone is the byte list it points to, of which the host reads as much as
  it likes. A buffer that the host fills is a function from the old to the new bytes.
\<close>

subsection \<open>The calling context\<close>

record context_host =
  host_caller :: "bytes \<Rightarrow> bytes"
  host_self_address :: "bytes \<Rightarrow> bytes"
  host_timestamp :: u64
  host_block_height :: u64
  host_is_owner :: bool
  host_is_protocol :: "bytes \<Rightarrow> bool"
  host_chain_id :: u64
  host_random :: "bytes \<Rightarrow> nat \<Rightarrow> bytes"

definition context_caller :: "context_host \<Rightarrow> address" where
  "context_caller H = Address (host_caller H (replicate 20 0))"
definition context_self_address :: "context_host \<Rightarrow> address" where
  "context_self_address H = Address (host_self_address H (replicate 20 0))"
definition context_current_timestamp :: "context_host \<Rightarrow> u64" where
  "context_current_timestamp H = host_timestamp H"
definition context_current_block_height :: "context_host \<Rightarrow> u64" where
  "context_current_block_height H = host_block_height H"
definition context_caller_is_owner :: "context_host \<Rightarrow> bool" where
  "context_caller_is_owner H = host_is_owner H"
definition context_is_protocol_address :: "context_host \<Rightarrow> address \<Rightarrow> bool" where
  "context_is_protocol_address H addr = host_is_protocol H (address_bytes addr)"
definition context_chain_id :: "context_host \<Rightarrow> u64" where
  "context_chain_id H = host_chain_id H"
definition context_random_bytes :: "context_host \<Rightarrow> nat \<Rightarrow> bytes" where
  "context_random_bytes H len = host_random H (replicate len 0) len"

text \<open>The environment of a contract call, as the contracts see it.\<close>

definition env_of :: "context_host \<Rightarrow> env" where
  "env_of H = \<lparr>env_caller = context_caller H, env_self = context_self_address H, env_timestamp = context_current_timestamp H,
     env_block_height = context_current_block_height H, env_is_owner = context_caller_is_owner H,
     env_is_protocol = context_is_protocol_address H, env_chain_id = context_chain_id H, env_random = context_random_bytes H\<rparr>"

definition token_balance_of :: "(bytes \<Rightarrow> bytes \<Rightarrow> u128) \<Rightarrow> address \<Rightarrow> address \<Rightarrow> u128" where
  "token_balance_of host_balance token account = host_balance (address_bytes token) (address_bytes account)"

subsection \<open>Proof checks\<close>

text \<open>\<open>host_verify_root_update\<close> is the source's \<^verbatim>\<open>host_verify_merkle_update\<close>.\<close>

record zk_host =
  host_verify_zk :: "bytes \<Rightarrow> nat \<Rightarrow> bytes \<Rightarrow> bytes \<Rightarrow> bytes \<Rightarrow> bool"
  host_verify_balance :: "bytes \<Rightarrow> nat \<Rightarrow> bytes \<Rightarrow> bytes \<Rightarrow> nat \<Rightarrow> bool"
  host_verify_swap :: "bytes \<Rightarrow> nat \<Rightarrow> bytes \<Rightarrow> bytes \<Rightarrow> bytes \<Rightarrow> bytes \<Rightarrow> nat \<Rightarrow> bool"
  host_verify_order :: "bytes \<Rightarrow> nat \<Rightarrow> bytes \<Rightarrow> bytes \<Rightarrow> bool"
  host_verify_stake :: "bytes \<Rightarrow> nat \<Rightarrow> bytes \<Rightarrow> bytes \<Rightarrow> bytes \<Rightarrow> bool"
  host_verify_metadata :: "bytes \<Rightarrow> nat \<Rightarrow> bytes \<Rightarrow> bytes \<Rightarrow> nat \<Rightarrow> bool"
  host_verify_nft_ownership :: "bytes \<Rightarrow> nat \<Rightarrow> bytes \<Rightarrow> bytes \<Rightarrow> bytes \<Rightarrow> bool"
  host_verify_bridge :: "bytes \<Rightarrow> nat \<Rightarrow> bytes \<Rightarrow> bytes \<Rightarrow> bool"
  host_verify_merkle :: "bytes \<Rightarrow> nat \<Rightarrow> bytes \<Rightarrow> bool"
  host_verify_root_update :: "bytes \<Rightarrow> nat \<Rightarrow> u64 \<Rightarrow> bytes \<Rightarrow> bool"

definition verify_zk_proof :: "zk_host \<Rightarrow> bytes \<Rightarrow> hash \<Rightarrow> hash \<Rightarrow> hash \<Rightarrow> bool" where
  "verify_zk_proof Z proof nullifier commitment root =
     host_verify_zk Z proof (length proof) (hash_bytes nullifier) (hash_bytes commitment) (hash_bytes root)"

definition verify_balance_proof :: "zk_host \<Rightarrow> bytes \<Rightarrow> address \<Rightarrow> bytes \<Rightarrow> bool" where
  "verify_balance_proof Z proof account enc_amount =
     host_verify_balance Z proof (length proof) (address_bytes account) enc_amount (length enc_amount)"

definition verify_swap_proof :: "zk_host \<Rightarrow> bytes \<Rightarrow> address \<times> address \<Rightarrow> hash \<Rightarrow> bytes \<Rightarrow> bool" where
  "verify_swap_proof Z proof pair nullifier enc_amount =
     host_verify_swap Z proof (length proof) (address_bytes (fst pair)) (address_bytes (snd pair))
       (hash_bytes nullifier) enc_amount (length enc_amount)"

definition verify_order_proof :: "zk_host \<Rightarrow> bytes \<Rightarrow> hash \<Rightarrow> stealth_address \<Rightarrow> bool" where
  "verify_order_proof Z proof order_hash stealth =
     host_verify_order Z proof (length proof) (hash_bytes order_hash) (ephemeral_pubkey stealth)"

definition verify_stake_proof :: "zk_host \<Rightarrow> bytes \<Rightarrow> address \<Rightarrow> hash \<Rightarrow> hash \<Rightarrow> bool" where
  "verify_stake_proof Z proof validator commitment nullifier =
     host_verify_stake Z proof (length proof) (address_bytes validator) (hash_bytes commitment) (hash_bytes nullifier)"

definition verify_metadata_proof :: "zk_host \<Rightarrow> bytes \<Rightarrow> hash \<Rightarrow> bytes \<Rightarrow> bool" where
  "verify_metadata_proof Z proof metadata_hash enc_metadata =
     host_verify_metadata Z proof (length proof) (hash_bytes metadata_hash) enc_metadata (length enc_metadata)"

definition verify_ownership_proof :: "zk_host \<Rightarrow> bytes \<Rightarrow> u256 \<Rightarrow> stealth_address \<Rightarrow> hash \<Rightarrow> bool" where
  "verify_ownership_proof Z proof token_id current_stealth nullifier =
     host_verify_nft_ownership Z proof (length proof) (u256_le_bytes token_id) (ephemeral_pubkey current_stealth)
       (hash_bytes nullifier)"

definition verify_bridge_amount_proof :: "zk_host \<Rightarrow> bytes \<Rightarrow> address \<Rightarrow> hash \<Rightarrow> bool" where
  "verify_bridge_amount_proof Z proof asset commitment =
     host_verify_bridge Z proof (length proof) (address_bytes asset) (hash_bytes commitment)"

definition verify_merkle_proof :: "zk_host \<Rightarrow> bytes \<Rightarrow> hash \<Rightarrow> bool" where
  "verify_merkle_proof Z proof transfer_id = host_verify_merkle Z proof (length proof) (hash_bytes transfer_id)"

definition verify_merkle_update_proof :: "zk_host \<Rightarrow> bytes \<Rightarrow> u64 \<Rightarrow> hash \<Rightarrow> bool" where
  "verify_merkle_update_proof Z proof chain new_root =
     host_verify_root_update Z proof (length proof) chain (hash_bytes new_root)"

text \<open>
  What a proof is about: an order proof and an NFT ownership proof are checked against the
  ephemeral key of the stealth address only, so a proof for one address is accepted for every
  other address with that key, whatever its view tag.
\<close>
theorem view_tag_not_proved:
  assumes "ephemeral_pubkey sa = ephemeral_pubkey sb"
  shows "verify_order_proof Z proof oh sa = verify_order_proof Z proof oh sb \<and>
    verify_ownership_proof Z proof tid sa n = verify_ownership_proof Z proof tid sb n"
  using assms by (simp add: verify_order_proof_def verify_ownership_proof_def)

text \<open>A host that accepts every proof, for the instances.\<close>

definition zk_accepting :: zk_host where
  "zk_accepting = \<lparr>host_verify_zk = (\<lambda>_ _ _ _ _. True), host_verify_balance = (\<lambda>_ _ _ _ _. True),
     host_verify_swap = (\<lambda>_ _ _ _ _ _ _. True), host_verify_order = (\<lambda>_ _ _ _. True),
     host_verify_stake = (\<lambda>_ _ _ _ _. True), host_verify_metadata = (\<lambda>_ _ _ _ _. True),
     host_verify_nft_ownership = (\<lambda>_ _ _ _ _. True), host_verify_bridge = (\<lambda>_ _ _ _. True),
     host_verify_merkle = (\<lambda>_ _ _. True), host_verify_root_update = (\<lambda>_ _ _ _. True)\<rparr>"

lemma zk_accepting_simps [simp]:
  "verify_zk_proof zk_accepting p n c r" "verify_balance_proof zk_accepting p a m"
  "verify_swap_proof zk_accepting p k n m" "verify_order_proof zk_accepting p h s"
  "verify_stake_proof zk_accepting p a c n" "verify_metadata_proof zk_accepting p h m"
  "verify_ownership_proof zk_accepting p tid s n" "verify_bridge_amount_proof zk_accepting p a c"
  "verify_merkle_proof zk_accepting p t" "verify_merkle_update_proof zk_accepting p ch r"
  by (simp_all add: zk_accepting_def verify_zk_proof_def verify_balance_proof_def verify_swap_proof_def
      verify_order_proof_def verify_stake_proof_def verify_metadata_proof_def verify_ownership_proof_def
      verify_bridge_amount_proof_def verify_merkle_proof_def verify_merkle_update_proof_def)

end
