(* ===== verification/Staking.thy ===== *)
theory Staking
  imports Zk
begin

text \<open>
  \<^verbatim>\<open>src/contracts/staking.rs\<close>: the staking contract. Its \<open>Map\<close> fields live in the storage of the host
  (theory \<open>Sdk\<close>); the record holds the other fields. A method takes the contract and the host and
  returns both, or \<open>None\<close> when it panics. The proof checks of the host (theory \<open>Zk\<close>) and the codecs
  are parameters.
\<close>

subsection \<open>Definitions\<close>

record validator_info =
  vi_owner :: address
  vi_stake :: u128
  vi_commission :: u16
  vi_is_active :: bool
  vi_total_delegated :: u128
  vi_uptime :: u64
  vi_blocks_proposed :: u64
  vi_encrypted_rewards :: bytes

record unbonding_entry =
  ue_delegator :: address
  ue_validator :: address
  ue_amount :: u128
  ue_unlock_height :: u64

datatype staking_event =
    Staked address address u128
  | Unstaked address address u128 u64
  | ValidatorRegistered address u16
  | RewardsDistributed u64 u128

record staking =
  total_staked :: u128
  min_stake :: u128
  commission_base :: u16
  st_epoch :: u64
  unbonding_period :: u64
  unbonding_queue :: "unbonding_entry list"

record staking_codecs =
  sc_address :: "address codec"
  sc_info :: "validator_info codec"
  sc_pair :: "(address \<times> address) codec"
  sc_u128 :: "u128 codec"
  sc_hash :: "hash codec"
  sc_bytes :: "bytes codec"

type_synonym staking_host = "staking_event host"

definition staking_new :: "u128 \<Rightarrow> u16 \<Rightarrow> u64 \<Rightarrow> staking" where
  "staking_new minimum commission period =
     \<lparr>total_staked = 0, min_stake = minimum, commission_base = commission, st_epoch = 0,
      unbonding_period = period, unbonding_queue = []\<rparr>"

abbreviation validators_get :: "staking_codecs \<Rightarrow> address \<Rightarrow> staking_host \<Rightarrow> validator_info option" where
  "validators_get C \<equiv> map_get (sc_address C) (sc_info C)"

abbreviation delegations_get :: "staking_codecs \<Rightarrow> address \<times> address \<Rightarrow> staking_host \<Rightarrow> u128 option" where
  "delegations_get C \<equiv> map_get (sc_pair C) (sc_u128 C)"

definition register_validator_info ::
    "staking_codecs \<Rightarrow> env \<Rightarrow> u16 \<Rightarrow> staking \<times> staking_host \<Rightarrow> (staking \<times> staking_host) option" where
  "register_validator_info C e commission = (\<lambda>(s, h). do {
     require (commission \<le> 10000);
     let validator = env_caller e;
     require (\<not> map_contains_key (sc_address C) (sc_info C) validator h);
     let info = \<lparr>vi_owner = validator, vi_stake = 0, vi_commission = max commission (commission_base s),
                 vi_is_active = False, vi_total_delegated = 0, vi_uptime = 0, vi_blocks_proposed = 0,
                 vi_encrypted_rewards = []\<rparr>;
     h \<leftarrow> map_insert (sc_address C) (sc_info C) validator info h;
     Some (s, emit (ValidatorRegistered validator commission) h)
   })"

definition stake ::
    "staking_codecs \<Rightarrow> env \<Rightarrow> address \<Rightarrow> u128 \<Rightarrow> staking \<times> staking_host \<Rightarrow> (staking \<times> staking_host) option" where
  "stake C e validator amount = (\<lambda>(s, h). do {
     require (amount \<ge> min_stake s);
     let delegator = env_caller e;
     info \<leftarrow> validators_get C validator h;
     let h = token_transfer_from PROTON_TOKEN delegator (env_self e) amount h;
     let key = (delegator, validator);
     let current = unwrap_or (delegations_get C key h) 0;
     h \<leftarrow> map_insert (sc_pair C) (sc_u128 C) key (current + amount) h;
     let info = info\<lparr>vi_stake := vi_stake info + amount, vi_total_delegated := vi_total_delegated info + amount\<rparr>;
     let info = (if vi_stake info \<ge> min_stake s then info\<lparr>vi_is_active := True\<rparr> else info);
     h \<leftarrow> map_insert (sc_address C) (sc_info C) validator info h;
     Some (s\<lparr>total_staked := total_staked s + amount\<rparr>, emit (Staked delegator validator amount) h)
   })"

definition private_stake ::
    "staking_codecs \<Rightarrow> zk_host \<Rightarrow> env \<Rightarrow> address \<Rightarrow> bytes \<Rightarrow> bytes \<Rightarrow> hash \<Rightarrow> hash
      \<Rightarrow> staking \<times> staking_host \<Rightarrow> (staking \<times> staking_host) option" where
  "private_stake C Z e validator enc_amount zk_proof commitment nullifier = (\<lambda>(s, h). do {
     require (verify_stake_proof Z zk_proof validator commitment nullifier);
     let delegator = env_caller e;
     h \<leftarrow> map_insert (sc_hash C) (sc_bytes C) commitment enc_amount h;
     info \<leftarrow> validators_get C validator h;
     h \<leftarrow> map_insert (sc_address C) (sc_info C) validator (info\<lparr>vi_is_active := True\<rparr>) h;
     Some (s, emit (Staked delegator validator 0) h)
   })"

definition unstake ::
    "staking_codecs \<Rightarrow> env \<Rightarrow> address \<Rightarrow> u128 \<Rightarrow> staking \<times> staking_host \<Rightarrow> (staking \<times> staking_host) option" where
  "unstake C e validator amount = (\<lambda>(s, h). do {
     let delegator = env_caller e;
     let key = (delegator, validator);
     let current = unwrap_or (delegations_get C key h) 0;
     require (current \<ge> amount);
     h \<leftarrow> (if current = amount then map_remove (sc_pair C) key h
           else map_insert (sc_pair C) (sc_u128 C) key (current - amount) h);
     info \<leftarrow> validators_get C validator h;
     let info = info\<lparr>vi_stake := vi_stake info - amount, vi_total_delegated := vi_total_delegated info - amount\<rparr>;
     let info = (if vi_stake info < min_stake s then info\<lparr>vi_is_active := False\<rparr> else info);
     h \<leftarrow> map_insert (sc_address C) (sc_info C) validator info h;
     let unlock_height = env_block_height e + unbonding_period s;
     let entry = \<lparr>ue_delegator = delegator, ue_validator = validator, ue_amount = amount,
                  ue_unlock_height = unlock_height\<rparr>;
     Some (s\<lparr>total_staked := total_staked s - amount, unbonding_queue := unbonding_queue s @ [entry]\<rparr>,
           emit (Unstaked delegator validator amount unlock_height) h)
   })"

text \<open>The first loop of \<open>process_unbonding\<close>: it pays the entries that are due and collects their indices.\<close>

fun pay_due :: "u64 \<Rightarrow> nat \<Rightarrow> unbonding_entry list \<Rightarrow> staking_host \<Rightarrow> nat list \<times> staking_host" where
  "pay_due height i [] h = ([], h)"
| "pay_due height i (entry # entries) h =
     (if ue_unlock_height entry \<le> height
      then (case pay_due height (Suc i) entries
                  (token_transfer PROTON_TOKEN (ue_delegator entry) (ue_amount entry) h) of
              (to_remove, h') \<Rightarrow> (i # to_remove, h'))
      else pay_due height (Suc i) entries h)"

definition vec_remove :: "nat \<Rightarrow> 'a list \<Rightarrow> 'a list option" where
  "vec_remove i xs = (if i < length xs then Some (take i xs @ drop (Suc i) xs) else None)"

fun remove_indices :: "nat list \<Rightarrow> 'a list \<Rightarrow> 'a list option" where
  "remove_indices [] xs = Some xs"
| "remove_indices (i # is) xs = do { xs' \<leftarrow> vec_remove i xs; remove_indices is xs' }"

definition process_unbonding ::
    "env \<Rightarrow> staking \<times> staking_host \<Rightarrow> (staking \<times> staking_host) option" where
  "process_unbonding e = (\<lambda>(s, h).
     (case pay_due (env_block_height e) 0 (unbonding_queue s) h of
        (to_remove, h') \<Rightarrow> do {
          queue \<leftarrow> remove_indices (rev to_remove) (unbonding_queue s);
          Some (s\<lparr>unbonding_queue := queue\<rparr>, h')
        }))"

fun distribute_loop ::
    "staking_codecs \<Rightarrow> (address \<times> u128) list \<Rightarrow> u128 \<Rightarrow> staking_host \<Rightarrow> (u128 \<times> staking_host) option" where
  "distribute_loop C [] tot h = Some (tot, h)"
| "distribute_loop C ((validator, reward) # rest) tot h =
     (case validators_get C validator h of
        None \<Rightarrow> distribute_loop C rest tot h
      | Some info \<Rightarrow>
          let commission = reward * ucast (vi_commission info) div 10000 in
          (case map_insert (sc_address C) (sc_info C) validator (info\<lparr>vi_stake := vi_stake info + commission\<rparr>) h of
             None \<Rightarrow> None
           | Some h' \<Rightarrow> distribute_loop C rest (tot + reward) h'))"

definition distribute_rewards ::
    "staking_codecs \<Rightarrow> env \<Rightarrow> staking \<times> staking_host \<Rightarrow> (staking \<times> staking_host) option" where
  "distribute_rewards C e = (\<lambda>(s, h). do {
     require (env_is_protocol e (env_caller e));
     (tot, h) \<leftarrow> distribute_loop C (map_iter (sc_address C) (sc_u128 C) h) 0 h;
     let s = s\<lparr>st_epoch := st_epoch s + 1\<rparr>;
     Some (s, emit (RewardsDistributed (st_epoch s) tot) h)
   })"

definition get_validator_info :: "staking_codecs \<Rightarrow> address \<Rightarrow> staking_host \<Rightarrow> validator_info option" where
  "get_validator_info C validator h = validators_get C validator h"

definition get_delegation :: "staking_codecs \<Rightarrow> address \<Rightarrow> address \<Rightarrow> staking_host \<Rightarrow> u128" where
  "get_delegation C delegator validator h = unwrap_or (delegations_get C (delegator, validator) h) 0"

definition get_total_staked :: "staking \<Rightarrow> u128" where
  "get_total_staked s = total_staked s"

definition get_active_validators :: "staking_codecs \<Rightarrow> staking_host \<Rightarrow> address list" where
  "get_active_validators C h = map fst (filter (\<lambda>(_, info). vi_is_active info) (map_iter (sc_address C) (sc_info C) h))"

definition get_validator_set :: "staking_codecs \<Rightarrow> nat \<Rightarrow> staking_host \<Rightarrow> (address \<times> u128) list" where
  "get_validator_set C n h =
     take n (rev (sort_key snd (rev (map (\<lambda>(a, info). (a, vi_stake info))
       (filter (\<lambda>(_, info). vi_is_active info) (map_iter (sc_address C) (sc_info C) h))))))"

subsection \<open>Unbonding\<close>

definition due :: "u64 \<Rightarrow> unbonding_entry \<Rightarrow> bool" where
  "due height entry \<longleftrightarrow> ue_unlock_height entry \<le> height"

definition pay_call :: "unbonding_entry \<Rightarrow> token_call" where
  "pay_call entry = CallTransfer PROTON_TOKEN (ue_delegator entry) (ue_amount entry)"

lemma remove_indices_append:
  "remove_indices (is @ js) xs = Option.bind (remove_indices is xs) (remove_indices js)"
proof (induction "is" arbitrary: xs)
  case (Cons i "is")
  then show ?case by (cases "vec_remove i xs") simp_all
qed simp

lemma pay_due_host:
  "snd (pay_due height i entries h) = h\<lparr>h_calls := h_calls h @ map pay_call (filter (due height) entries)\<rparr>"
proof (induction entries arbitrary: i h)
  case (Cons a entries)
  then show ?case
    by (simp add: due_def pay_call_def call_defs host_call_def case_prod_beta)
qed simp

lemma pay_due_indices:
  "remove_indices (rev (fst (pay_due height (length pre) entries h))) (pre @ entries) =
    Some (pre @ filter (\<lambda>x. \<not> due height x) entries)"
proof (induction entries arbitrary: pre h)
  case (Cons a entries)
  have IH: "remove_indices (rev (fst (pay_due height (Suc (length pre)) entries h'))) (pre @ a # entries) =
      Some (pre @ a # filter (\<lambda>x. \<not> due height x) entries)" for h'
    using Cons [of "pre @ [a]"] by simp
  show ?case
  proof (cases "due height a")
    case True
    have "remove_indices (rev (fst (pay_due height (length pre) (a # entries) h))) (pre @ a # entries) =
        Option.bind (remove_indices (rev (fst (pay_due height (Suc (length pre)) entries
          (token_transfer PROTON_TOKEN (ue_delegator a) (ue_amount a) h)))) (pre @ a # entries)) (remove_indices [length pre])"
      using True by (simp add: due_def remove_indices_append split: prod.split)
    then show ?thesis using True by (simp add: IH vec_remove_def)
  next
    case False
    then show ?thesis using IH by (simp add: due_def)
  qed
qed simp

lemma process_unbonding_eq:
  "process_unbonding e (s, h) =
    Some (s\<lparr>unbonding_queue := filter (\<lambda>x. \<not> due (env_block_height e) x) (unbonding_queue s)\<rparr>,
          h\<lparr>h_calls := h_calls h @ map pay_call (filter (due (env_block_height e)) (unbonding_queue s))\<rparr>)"
  using pay_due_indices [of "env_block_height e" "[]" "unbonding_queue s" h]
    pay_due_host [of "env_block_height e" 0 "unbonding_queue s" h]
  by (simp add: process_unbonding_def case_prod_beta)

text \<open>
  \<open>process_unbonding\<close> never panics: the indices that it collects while paying and then removes
  from the back are valid. It pays exactly the entries whose unlock height is reached, each once
  and in queue order, keeps exactly the others, and a second call at the same height pays nothing.
\<close>
theorem process_unbonding_spec:
  "\<exists>s' h'. process_unbonding e (s, h) = Some (s', h') \<and>
    unbonding_queue s' = filter (\<lambda>x. env_block_height e < ue_unlock_height x) (unbonding_queue s) \<and>
    h_calls h' = h_calls h @ map (\<lambda>x. CallTransfer PROTON_TOKEN (ue_delegator x) (ue_amount x))
      (filter (\<lambda>x. ue_unlock_height x \<le> env_block_height e) (unbonding_queue s)) \<and>
    total_staked s' = total_staked s \<and> process_unbonding e (s', h') = Some (s', h')"
proof -
  have d: "due height = (\<lambda>x. ue_unlock_height x \<le> height)" for height by (simp add: fun_eq_iff due_def)
  have p: "pay_call = (\<lambda>x. CallTransfer PROTON_TOKEN (ue_delegator x) (ue_amount x))"
    by (simp add: fun_eq_iff pay_call_def)
  let ?s' = "s\<lparr>unbonding_queue := filter (\<lambda>x. \<not> due (env_block_height e) x) (unbonding_queue s)\<rparr>"
  let ?h' = "h\<lparr>h_calls := h_calls h @ map pay_call (filter (due (env_block_height e)) (unbonding_queue s))\<rparr>"
  have "process_unbonding e (?s', ?h') = Some (?s', ?h')" by (simp add: process_unbonding_eq)
  moreover have "process_unbonding e (s, h) = Some (?s', ?h')" by (rule process_unbonding_eq)
  ultimately show ?thesis
    by (intro exI [of _ ?s'] exI [of _ ?h']) (simp add: d p not_le)
qed

subsection \<open>Staking and unstaking\<close>

text \<open>What the serialiser does for the key and value types of the contract.\<close>

definition codecs_ok :: "staking_codecs \<Rightarrow> bool" where
  "codecs_ok C \<longleftrightarrow> codec_ok (sc_address C) \<and> codec_ok (sc_info C) \<and> codec_ok (sc_pair C) \<and>
     codec_ok (sc_u128 C) \<and> codec_ok (sc_hash C) \<and> codec_ok (sc_bytes C) \<and>
     (\<forall>a p. enc (sc_address C) a \<noteq> enc (sc_pair C) p)"

lemma codecs_okD:
  assumes "codecs_ok C"
  shows "codec_ok (sc_address C)" "codec_ok (sc_info C)" "codec_ok (sc_pair C)" "codec_ok (sc_u128 C)"
    "enc (sc_address C) a \<noteq> enc (sc_pair C) p" "enc (sc_pair C) p \<noteq> enc (sc_address C) a"
  using assms unfolding codecs_ok_def by metis+

lemmas staking_ok_simps = map_get_storage map_insert_ok map_remove_ok codec_dec enc_inject

text \<open>
  Staking at least the minimum with a registered validator: it draws the amount from the caller,
  adds it to the caller's delegation, to the validator's stake and to the total, and leaves every
  other delegation and validator as it was. With a smaller amount, or an unknown validator, the
  call panics.
\<close>
theorem stake_spec:
  assumes "codecs_ok C"
  shows "case stake C e v amount (s, h) of
      None \<Rightarrow> amount < min_stake s \<or> get_validator_info C v h = None
    | Some (s', h') \<Rightarrow> min_stake s \<le> amount \<and> total_staked s' = total_staked s + amount \<and>
        unbonding_queue s' = unbonding_queue s \<and>
        h_calls h' = h_calls h @ [CallTransferFrom PROTON_TOKEN (env_caller e) (env_self e) amount] \<and>
        (\<forall>d w. get_delegation C d w h' =
           get_delegation C d w h + (if d = env_caller e \<and> w = v then amount else 0)) \<and>
        (\<forall>w. w \<noteq> v \<longrightarrow> get_validator_info C w h' = get_validator_info C w h) \<and>
        (\<exists>info info'. get_validator_info C v h = Some info \<and> get_validator_info C v h' = Some info' \<and>
           vi_stake info' = vi_stake info + amount \<and>
           vi_is_active info' = (vi_is_active info \<or> min_stake s \<le> vi_stake info'))"
proof (cases "min_stake s \<le> amount")
  case False
  then show ?thesis by (simp add: stake_def) (simp add: not_le)
next
  case True
  show ?thesis
  proof (cases "get_validator_info C v h")
    case None
    then show ?thesis using True by (simp add: stake_def get_validator_info_def Let_def)
  next
    case (Some info)
    note c = codecs_okD [OF assms]
    show ?thesis
      using True Some
      by (simp add: stake_def get_validator_info_def get_delegation_def call_defs
          staking_ok_simps c Let_def)
  qed
qed

text \<open>
  Unstaking panics exactly when the caller's delegation is below the amount or the validator is
  unknown. Otherwise the amount leaves the delegation, the validator's stake and the total, and one
  entry is queued that unlocks after the unbonding period; no token moves yet.
\<close>
theorem unstake_spec:
  assumes "codecs_ok C"
  shows "case unstake C e v amount (s, h) of
      None \<Rightarrow> get_delegation C (env_caller e) v h < amount \<or> get_validator_info C v h = None
    | Some (s', h') \<Rightarrow> amount \<le> get_delegation C (env_caller e) v h \<and> total_staked s' = total_staked s - amount \<and>
        unbonding_queue s' = unbonding_queue s @ [\<lparr>ue_delegator = env_caller e, ue_validator = v, ue_amount = amount,
          ue_unlock_height = env_block_height e + unbonding_period s\<rparr>] \<and>
        h_calls h' = h_calls h \<and>
        (\<forall>d w. get_delegation C d w h' =
           get_delegation C d w h - (if d = env_caller e \<and> w = v then amount else 0)) \<and>
        (\<exists>info info'. get_validator_info C v h = Some info \<and> get_validator_info C v h' = Some info' \<and>
           vi_stake info' = vi_stake info - amount \<and>
           vi_is_active info' = (vi_is_active info \<and> min_stake s \<le> vi_stake info'))"
proof (cases "amount \<le> get_delegation C (env_caller e) v h")
  case False
  then show ?thesis by (simp add: unstake_def get_delegation_def Let_def) (simp add: not_le)
next
  case True
  note c = codecs_okD [OF assms]
  show ?thesis
  proof (cases "get_validator_info C v h")
    case None
    then show ?thesis using True
      by (simp add: unstake_def get_validator_info_def get_delegation_def staking_ok_simps c Let_def)
  next
    case (Some info)
    show ?thesis
      using True Some
      by (simp add: unstake_def get_validator_info_def get_delegation_def staking_ok_simps c Let_def)
        (auto simp: not_le not_less)
  qed
qed

subsection \<open>Rewards and reports\<close>

lemma rewards_eq:
  "distribute_rewards C e (s, h) =
     (if env_is_protocol e (env_caller e)
      then Some (s\<lparr>st_epoch := st_epoch s + 1\<rparr>, emit (RewardsDistributed (st_epoch s + 1) 0) h) else None)"
  by (simp add: distribute_rewards_def map_iter_def Let_def)

text \<open>
  Rewards reach nobody: a map has no iteration, so whatever rewards the protocol distributes
  and whoever is registered, no stake changes, the reported total is 0 and only the epoch grows;
  for the same reason the lists of active validators are always empty.
\<close>
theorem rewards_reach_nobody:
  "distribute_rewards C e (s, h) =
     (if env_is_protocol e (env_caller e)
      then Some (s\<lparr>st_epoch := st_epoch s + 1\<rparr>, emit (RewardsDistributed (st_epoch s + 1) 0) h) else None) \<and>
   get_active_validators C h = [] \<and> get_validator_set C n h = []"
  by (simp add: rewards_eq get_active_validators_def get_validator_set_def map_iter_def)

subsection \<open>Solvency\<close>

definition tokens_in :: "address \<Rightarrow> token_call \<Rightarrow> u128" where
  "tokens_in self c = (case c of CallTransferFrom t from to a \<Rightarrow> if t = PROTON_TOKEN \<and> to = self then a else 0 | _ \<Rightarrow> 0)"

definition tokens_out :: "token_call \<Rightarrow> u128" where
  "tokens_out c = (case c of CallTransfer t to a \<Rightarrow> if t = PROTON_TOKEN then a else 0 | _ \<Rightarrow> 0)"

text \<open>What was drawn in equals what is staked, what is unbonding and what was paid out.\<close>

definition solvent :: "address \<Rightarrow> staking \<times> staking_host \<Rightarrow> bool" where
  "solvent self = (\<lambda>(s, h). sum_list (map (tokens_in self) (h_calls h)) =
     total_staked s + sum_list (map ue_amount (unbonding_queue s)) + sum_list (map tokens_out (h_calls h)))"

inductive staking_step ::
    "staking_codecs \<Rightarrow> zk_host \<Rightarrow> address \<Rightarrow>
      staking \<times> staking_host \<Rightarrow> staking \<times> staking_host \<Rightarrow> bool" for C vsp self where
  step_register: "register_validator_info C e commission x = Some y \<Longrightarrow> staking_step C vsp self x y"
| step_stake: "stake C e v amount x = Some y \<Longrightarrow> env_self e = self \<Longrightarrow> staking_step C vsp self x y"
| step_private: "private_stake C vsp e v ea zk c n x = Some y \<Longrightarrow> staking_step C vsp self x y"
| step_unstake: "unstake C e v amount x = Some y \<Longrightarrow> staking_step C vsp self x y"
| step_process: "process_unbonding e x = Some y \<Longrightarrow> staking_step C vsp self x y"
| step_rewards: "distribute_rewards C e x = Some y \<Longrightarrow> staking_step C vsp self x y"

lemmas bind_Some = Option.bind_eq_Some_conv

lemma stake_effect:
  assumes "stake C e v amount (s, h) = Some (s', h')"
  shows "total_staked s' = total_staked s + amount" "unbonding_queue s' = unbonding_queue s"
    "h_calls h' = h_calls h @ [CallTransferFrom PROTON_TOKEN (env_caller e) (env_self e) amount]"
  using assms by (auto simp: stake_def Let_def bind_Some call_defs collection_calls)

lemma unstake_effect:
  assumes "unstake C e v amount (s, h) = Some (s', h')"
  shows "total_staked s' = total_staked s - amount" "h_calls h' = h_calls h"
    "map ue_amount (unbonding_queue s') = map ue_amount (unbonding_queue s) @ [amount]"
  using assms by (auto simp: unstake_def Let_def bind_Some collection_calls split: if_splits)

lemma other_effects:
  "register_validator_info C e commission (s, h) = Some (s', h') \<Longrightarrow> s' = s \<and> h_calls h' = h_calls h"
  "private_stake C vsp e v ea zk c n (s, h) = Some (s', h') \<Longrightarrow> s' = s \<and> h_calls h' = h_calls h"
  by (auto simp: register_validator_info_def private_stake_def Let_def bind_Some collection_calls)

lemma sum_split: "sum_list (map f (filter P xs)) + sum_list (map f (filter (\<lambda>x. \<not> P x) xs)) = (sum_list (map f xs) :: u128)"
  by (induction xs) (simp_all add: algebra_simps)

lemma paid_out:
  "sum_list (map tokens_out (map pay_call xs)) = sum_list (map ue_amount xs)"
  "sum_list (map (tokens_in self) (map pay_call xs)) = 0"
  by (induction xs) (simp_all add: tokens_out_def tokens_in_def pay_call_def)

lemma process_solvent: "solvent self (s, h) \<Longrightarrow> process_unbonding e (s, h) = Some y \<Longrightarrow> solvent self y"
  using sum_split [of ue_amount "due (env_block_height e)" "unbonding_queue s"]
  by (auto simp: process_unbonding_eq solvent_def paid_out algebra_simps simp del: map_map)

lemma step_solvent: "staking_step C vsp self x y \<Longrightarrow> solvent self x \<Longrightarrow> solvent self y"
proof (cases x; cases y)
  fix s h s' h'
  assume step: "staking_step C vsp self x y" and sol: "solvent self x" and xy: "x = (s, h)" "y = (s', h')"
  from step show "solvent self y"
  proof (cases rule: staking_step.cases)
    case (step_stake e v amount)
    then show ?thesis using sol stake_effect [of C e v amount s h s' h']
      by (simp add: xy solvent_def tokens_in_def tokens_out_def algebra_simps)
  next
    case (step_unstake e v amount)
    then show ?thesis using sol unstake_effect [of C e v amount s h s' h']
      by (simp add: xy solvent_def algebra_simps)
  next
    case (step_process e)
    then show ?thesis using sol process_solvent xy by blast
  next
    case (step_rewards e)
    then show ?thesis using sol rewards_eq [of C e s h]
      by (auto simp: xy solvent_def split: if_splits)
  next
    case (step_register e commission)
    then show ?thesis using sol other_effects(1) [of C e commission s h s' h'] by (simp add: xy solvent_def)
  next
    case (step_private e v ea zk c n)
    then show ?thesis using sol other_effects(2) [of C vsp e v ea zk c n s h s' h'] by (simp add: xy solvent_def)
  qed
qed

text \<open>
  The contract stays solvent: after any sequence of calls by anybody, the tokens it has drawn in
  are the staked total plus the queued withdrawals plus what it has paid out (modulo \<open>2^128\<close>), so
  every queued withdrawal is covered and none is paid twice.
\<close>
theorem staking_solvent:
  assumes "(staking_step C vsp self)\<^sup>*\<^sup>* (staking_new minimum commission period, host_new) x"
  shows "solvent self x"
  using assms
proof (induction rule: rtranclp_induct)
  case base
  show ?case by (simp add: solvent_def staking_new_def host_new_def)
next
  case (step y z)
  then show ?case by (metis step_solvent)
qed

subsection \<open>Instances\<close>

definition info_bytes :: "validator_info \<Rightarrow> bytes" where
  "info_bytes i = join_bytes (address_bytes (vi_owner i)) (join_bytes (vi_encrypted_rewards i)
     ((if vi_is_active i then 1 else 0) # join_bytes (u128_le (vi_stake i)) (join_bytes (u128_le (vi_total_delegated i))
        (join_bytes (u64_le (vi_uptime i)) (join_bytes (u64_le (vi_blocks_proposed i)) (le_bytes 2 (unat (vi_commission i))))))))"

definition info_of_bytes :: "bytes \<Rightarrow> validator_info option" where
  "info_of_bytes b =
     (case split_bytes b of (owner, b) \<Rightarrow>
      case split_bytes b of (rewards, b) \<Rightarrow>
      case split_bytes (tl b) of (stk, c) \<Rightarrow>
      case split_bytes c of (del, c) \<Rightarrow>
      case split_bytes c of (up, c) \<Rightarrow>
      case split_bytes c of (bp, comm) \<Rightarrow>
        Some \<lparr>vi_owner = Address owner, vi_stake = word_of_nat (from_le stk), vi_commission = word_of_nat (from_le comm),
              vi_is_active = (hd b = 1), vi_total_delegated = word_of_nat (from_le del),
              vi_uptime = word_of_nat (from_le up), vi_blocks_proposed = word_of_nat (from_le bp),
              vi_encrypted_rewards = rewards\<rparr>)"

lemma info_roundtrip: "info_of_bytes (info_bytes i) = Some i"
proof -
  have "unat (vi_commission i) < 2 ^ LENGTH(16)" by (rule unsigned_less)
  then have "from_le (le_bytes 2 (unat (vi_commission i))) = unat (vi_commission i)" by (simp add: from_le_bytes)
  then show ?thesis by (cases i) (simp add: info_bytes_def info_of_bytes_def del: le_bytes.simps)
qed

definition sample_codecs :: staking_codecs where
  "sample_codecs = \<lparr>sc_address = addr_codec, sc_info = tag_codec 6 info_bytes info_of_bytes, sc_pair = pair_codec 7,
     sc_u128 = u128_codec, sc_hash = hash_codec, sc_bytes = bytes_codec\<rparr>"

lemma sample_codecs_staking [simp]: "codecs_ok sample_codecs"
  by (auto simp: codecs_ok_def sample_codecs_def tag_codec_ok info_roundtrip addr_codec_def pair_codec_def)
    (simp_all add: u128_codec_def hash_codec_def tag_codec_ok flip: pair_codec_def addr_codec_def)

definition sample_env :: "u8 \<Rightarrow> u64 \<Rightarrow> env" where
  "sample_env caller height = \<lparr>env_caller = Address [caller], env_self = Address [99], env_timestamp = height,
     env_block_height = height, env_is_owner = True, env_is_protocol = (\<lambda>a. True), env_chain_id = 1,
     env_random = (\<lambda>n. replicate n 0)\<rparr>"

definition sample_registered :: "staking \<times> staking_host" where
  "sample_registered = the (register_validator_info sample_codecs (sample_env 5 0) 100 (staking_new 10 50 7, host_new))"

lemma sample_registered_some:
  "register_validator_info sample_codecs (sample_env 5 0) 100 (staking_new 10 50 7, host_new) = Some sample_registered"
  "\<exists>h. sample_registered = (staking_new 10 50 7, h) \<and> get_validator_info sample_codecs (Address [5]) h \<noteq> None"
proof -
  note c = codecs_okD [OF sample_codecs_staking]
  have "map_get (sc_address sample_codecs) (sc_info sample_codecs) a (host_new :: staking_host) = None" for a
    by (simp add: map_get_ok c storage_get_def host_new_def)
  then show "register_validator_info sample_codecs (sample_env 5 0) 100 (staking_new 10 50 7, host_new) = Some sample_registered"
    and "\<exists>h. sample_registered = (staking_new 10 50 7, h) \<and> get_validator_info sample_codecs (Address [5]) h \<noteq> None"
    by (simp_all add: sample_registered_def register_validator_info_def map_contains_key_def map_insert_ok c Let_def
        get_validator_info_def map_get_storage codec_dec sample_env_def)
qed

theorem stake_spec_witness:
  "\<exists>s' h'. stake sample_codecs (sample_env 1 3) (Address [5]) 40 sample_registered = Some (s', h') \<and> total_staked s' = 40"
proof -
  obtain h where h: "sample_registered = (staking_new 10 50 7, h)" "get_validator_info sample_codecs (Address [5]) h \<noteq> None"
    using sample_registered_some(2) by blast
  show ?thesis
    using stake_spec [OF sample_codecs_staking, where e = "sample_env 1 3" and v = "Address [5]" and amount = 40
        and s = "staking_new 10 50 7" and h = h] h
    by (auto simp: staking_new_def split: option.splits)
qed

theorem unstake_spec_witness:
  "unstake sample_codecs (sample_env 1 3) (Address [5]) 40 (staking_new 10 50 7, host_new) = None"
proof -
  have "get_delegation sample_codecs d w (host_new :: staking_host) = 0" for d w
    by (simp add: get_delegation_def map_get_ok codecs_okD [OF sample_codecs_staking] storage_get_def host_new_def)
  then show ?thesis
    using unstake_spec [OF sample_codecs_staking, where e = "sample_env 1 3" and v = "Address [5]" and amount = 40
        and s = "staking_new 10 50 7" and h = host_new]
    by (auto simp: sample_env_def split: option.splits)
qed

theorem staking_solvent_witness:
  "solvent (Address [99]) sample_registered"
proof -
  have "staking_step sample_codecs zk_accepting (Address [99]) (staking_new 10 50 7, host_new) sample_registered"
    by (rule step_register) (rule sample_registered_some)
  then show ?thesis by (intro staking_solvent) (rule r_into_rtranclp)
qed

end
