(* ===== verification/StakingLedger.thy ===== *)
theory StakingLedger
  imports Staking Simulation
begin

text \<open>
  The books of the staking contract (\<^verbatim>\<open>src/contracts/staking.rs\<close>) as an abstract ledger: the stake and the
  delegated total of every validator, the delegation of every pair of delegator and validator, and
  the total. The contract keeps these four numbers in entries of its own, updated by hand in every
  method; the ledger's invariant says that they agree, and the simulation carries it to the contract.
  The hypothesis \<open>staking_keys_ok\<close> adds to \<open>codecs_ok\<close> that a commitment (32 bytes) is not serialised
  like an address (20 bytes) or a pair of addresses. A private stake, which leaves the books alone,
  is the subject of the last section.
\<close>

subsection \<open>The ledger\<close>

record stake_books =
  sb_info :: "address \<Rightarrow> (u128 \<times> u128) option"
  sb_delegation :: "address \<times> address \<Rightarrow> u128"
  sb_total :: u128

text \<open>Moving \<open>x\<close> (a stake, or a negated one) from delegator \<open>d\<close> to validator \<open>v\<close>.\<close>

definition move_stake :: "address \<Rightarrow> address \<Rightarrow> u128 \<Rightarrow> stake_books \<Rightarrow> stake_books" where
  "move_stake d v x B =
     B\<lparr>sb_info := (sb_info B)(v := map_option (\<lambda>(st, td). (st + x, td + x)) (sb_info B v)),
       sb_delegation := (sb_delegation B)((d, v) := sb_delegation B (d, v) + x),
       sb_total := sb_total B + x\<rparr>"

inductive books_step :: "'p \<Rightarrow> stake_books \<Rightarrow> stake_books \<Rightarrow> bool" for p where
  books_register: "sb_info B v = None \<Longrightarrow> books_step p B (B\<lparr>sb_info := (sb_info B)(v \<mapsto> (0, 0))\<rparr>)"
| books_stake: "sb_info B v \<noteq> None \<Longrightarrow> books_step p B (move_stake d v a B)"
| books_unstake: "sb_info B v \<noteq> None \<Longrightarrow> a \<le> sb_delegation B (d, v) \<Longrightarrow> books_step p B (move_stake d v (- a) B)"
| books_idle: "books_step p B B"

inductive_cases books_stepE: "books_step p B B'"

text \<open>The four numbers agree.\<close>

definition balanced_over :: "(address \<times> address) set \<Rightarrow> stake_books \<Rightarrow> bool" where
  "balanced_over D B \<longleftrightarrow> finite D \<and> (\<forall>q. q \<notin> D \<longrightarrow> sb_delegation B q = 0) \<and>
     sb_total B = sum (sb_delegation B) D \<and>
     (\<forall>v. case sb_info B v of
        None \<Rightarrow> \<forall>d. sb_delegation B (d, v) = 0
      | Some (st, td) \<Rightarrow> st = td \<and> st = sum (sb_delegation B) {q \<in> D. snd q = v})"

definition balanced :: "stake_books \<Rightarrow> bool" where
  "balanced B \<longleftrightarrow> (\<exists>D. balanced_over D B)"

lemma balanced_overD:
  assumes "balanced_over D B"
  shows "finite D" "q \<notin> D \<Longrightarrow> sb_delegation B q = 0" "sb_total B = sum (sb_delegation B) D"
    "sb_info B v = None \<Longrightarrow> sb_delegation B (d, v) = 0"
    "sb_info B v = Some (st, td) \<Longrightarrow> st = td \<and> td = sum (sb_delegation B) {q \<in> D. snd q = v}"
proof -
  note A = assms [unfolded balanced_over_def]
  show "finite D" "q \<notin> D \<Longrightarrow> sb_delegation B q = 0" "sb_total B = sum (sb_delegation B) D" using A by blast+
  note v = A [THEN conjunct2, THEN conjunct2, THEN conjunct2, THEN spec, of v]
  show "sb_info B v = None \<Longrightarrow> sb_delegation B (d, v) = 0"
    "sb_info B v = Some (st, td) \<Longrightarrow> st = td \<and> td = sum (sb_delegation B) {q \<in> D. snd q = v}"
    using v by auto
qed

lemma sum_adjust:
  fixes f :: "'k \<Rightarrow> 'a :: comm_monoid_add"
  assumes "finite D" and "\<And>p. p \<notin> D \<Longrightarrow> f p = 0"
  shows "sum (f(q := f q + x)) {p \<in> insert q D. P p} = sum f {p \<in> D. P p} + (if P q then x else 0)"
proof -
  have "sum f {p \<in> D. P p} = sum f {p \<in> insert q D. P p}"
    using assms by (intro sum.mono_neutral_left) auto
  moreover have "sum (f(q := f q + x)) {p \<in> insert q D. P p} =
      sum (\<lambda>p. f p + (if p = q then x else 0)) {p \<in> insert q D. P p}"
    by (intro sum.cong) auto
  moreover have "finite {p \<in> insert q D. P p}" using assms(1) by simp
  ultimately show ?thesis by (simp add: sum.distrib sum.delta')
qed

lemma sum_adjust_all:
  fixes f :: "'k \<Rightarrow> 'a :: comm_monoid_add"
  assumes "finite D" and "\<And>p. p \<notin> D \<Longrightarrow> f p = 0"
  shows "sum (f(q := f q + x)) (insert q D) = sum f D + x"
  using sum_adjust [OF assms, where P = "\<lambda>_. True"] by (simp only: simp_thms Collect_mem_eq if_True)

lemma balanced_move:
  assumes "balanced_over D B" and "sb_info B v \<noteq> None"
  shows "balanced_over (insert (d, v) D) (move_stake d v x B)"
proof -
  note B = balanced_overD [OF assms(1)]
  let ?D = "insert (d, v) D" and ?B = "move_stake d v x B"
  have del: "sb_delegation ?B = (sb_delegation B)((d, v) := sb_delegation B (d, v) + x)"
    by (simp add: move_stake_def)
  have "sb_total ?B = sum (sb_delegation ?B) ?D"
  proof -
    have "sum (sb_delegation ?B) ?D = sum (sb_delegation B) D + x"
      unfolding del by (rule sum_adjust_all) (use B(1,2) in auto)
    then show ?thesis by (simp add: move_stake_def B(3))
  qed
  moreover have "case sb_info ?B w of
      None \<Rightarrow> \<forall>d. sb_delegation ?B (d, w) = 0
    | Some (st, td) \<Rightarrow> st = td \<and> st = sum (sb_delegation ?B) {q \<in> ?D. snd q = w}" for w
  proof (cases "sb_info B w")
    case None
    with assms(2) have "w \<noteq> v" by auto
    with None B(4) [OF None] show ?thesis by (simp add: move_stake_def)
  next
    case (Some p)
    moreover obtain st td where "p = (st, td)" by (cases p)
    ultimately have Some: "sb_info B w = Some (st, td)" using Some by simp
    then have i: "sb_info ?B w = Some (if w = v then (st + x, td + x) else (st, td))"
      by (auto simp: move_stake_def)
    have "sum (sb_delegation ?B) {q \<in> ?D. snd q = w} =
        sum (sb_delegation B) {q \<in> D. snd q = w} + (if v = w then x else 0)"
      unfolding del by (subst sum_adjust) (use B(1,2) in auto)
    then show ?thesis using B(5) [OF Some] unfolding i option.case by (cases "w = v") (simp_all only: prod.case if_True if_False simp_thms, auto)
  qed
  moreover have "\<forall>q. q \<notin> ?D \<longrightarrow> sb_delegation ?B q = 0" using B(2) by (simp add: move_stake_def)
  moreover have "finite ?D" using B(1) by simp
  ultimately show ?thesis unfolding balanced_over_def by blast
qed

lemma balanced_register:
  assumes "balanced_over D B" and "sb_info B v = None"
  shows "balanced_over D (B\<lparr>sb_info := (sb_info B)(v \<mapsto> (0, 0))\<rparr>)"
proof -
  note B = balanced_overD [OF assms(1)]
  have "sum (sb_delegation B) {q \<in> D. snd q = v} = 0"
    using B(4) [OF assms(2)] by (intro sum.neutral) auto
  then show ?thesis using assms unfolding balanced_over_def by (fastforce split: option.splits)
qed

lemma balanced_step: "books_step p B B' \<Longrightarrow> balanced B \<Longrightarrow> balanced B'"
  by (auto elim!: books_stepE simp: balanced_def dest: balanced_move balanced_register)

subsection \<open>The contract follows the books\<close>

type_synonym staking_params = "staking_codecs \<times> zk_host \<times> address"

definition staking_keys_ok :: "staking_params \<Rightarrow> bool" where
  "staking_keys_ok = (\<lambda>(C, vsp, self). codecs_ok C \<and>
     (\<forall>c a p. enc (sc_hash C) c \<noteq> enc (sc_address C) a \<and> enc (sc_hash C) c \<noteq> enc (sc_pair C) p))"

definition books_of :: "staking_params \<Rightarrow> staking \<times> staking_host \<Rightarrow> stake_books" where
  "books_of = (\<lambda>(C, vsp, self) (s, h).
     \<lparr>sb_info = (\<lambda>v. map_option (\<lambda>i. (vi_stake i, vi_total_delegated i)) (get_validator_info C v h)),
      sb_delegation = (\<lambda>(d, v). get_delegation C d v h), sb_total = total_staked s\<rparr>)"

definition contract_step :: "staking_params \<Rightarrow> staking \<times> staking_host \<Rightarrow> staking \<times> staking_host \<Rightarrow> bool" where
  "contract_step = (\<lambda>(C, vsp, self). staking_step C vsp self)"

lemma staking_keys_okD:
  assumes "staking_keys_ok (C, vsp, self)"
  shows "codecs_ok C" "codec_ok (sc_address C)" "codec_ok (sc_info C)" "codec_ok (sc_pair C)" "codec_ok (sc_u128 C)"
    "codec_ok (sc_hash C)" "codec_ok (sc_bytes C)"
    "enc (sc_address C) a \<noteq> enc (sc_pair C) p" "enc (sc_pair C) p \<noteq> enc (sc_address C) a"
    "enc (sc_address C) a \<noteq> enc (sc_hash C) c" "enc (sc_pair C) p \<noteq> enc (sc_hash C) c"
  using assms unfolding staking_keys_ok_def codecs_ok_def prod.case by metis+

lemmas books_simps = books_of_def move_stake_def get_validator_info_def get_delegation_def Let_def
  map_get_storage map_insert_ok map_remove_ok codec_dec enc_inject call_defs

lemma register_books:
  assumes "staking_keys_ok (C, vsp, self)" and "register_validator_info C e commission (s, h) = Some y"
  shows "\<exists>v. sb_info (books_of (C, vsp, self) (s, h)) v = None \<and>
    books_of (C, vsp, self) y = (books_of (C, vsp, self) (s, h))\<lparr>sb_info := (sb_info (books_of (C, vsp, self) (s, h)))(v \<mapsto> (0, 0))\<rparr>"
  using assms(2) staking_keys_okD [OF assms(1)]
  by (intro exI [of _ "env_caller e"])
    (auto simp: register_validator_info_def map_contains_key_def books_simps bind_Some fun_eq_iff)

lemma stake_books:
  assumes "staking_keys_ok (C, vsp, self)" and "stake C e v amount (s, h) = Some y"
  shows "sb_info (books_of (C, vsp, self) (s, h)) v \<noteq> None \<and>
    books_of (C, vsp, self) y = move_stake (env_caller e) v amount (books_of (C, vsp, self) (s, h))"
  using assms(2) staking_keys_okD [OF assms(1)]
  by (auto simp: stake_def books_simps bind_Some fun_eq_iff)

lemma unstake_books:
  assumes "staking_keys_ok (C, vsp, self)" and "unstake C e v amount (s, h) = Some y"
  shows "sb_info (books_of (C, vsp, self) (s, h)) v \<noteq> None \<and>
    amount \<le> sb_delegation (books_of (C, vsp, self) (s, h)) (env_caller e, v) \<and>
    books_of (C, vsp, self) y = move_stake (env_caller e) v (- amount) (books_of (C, vsp, self) (s, h))"
  using assms(2) staking_keys_okD [OF assms(1)]
  by (auto simp: unstake_def books_simps bind_Some fun_eq_iff split: if_splits)

lemma private_books:
  assumes "staking_keys_ok (C, vsp, self)" and "private_stake C vsp e v ea zk c n (s, h) = Some y"
  shows "books_of (C, vsp, self) y = books_of (C, vsp, self) (s, h)"
  using assms(2) staking_keys_okD [OF assms(1)]
  by (auto simp: private_stake_def books_simps bind_Some fun_eq_iff)

lemma map_get_calls [simp]: "map_get K V k (h\<lparr>h_calls := cs\<rparr>) = map_get K V k h"
  by (simp add: map_get_def storage_get_def)

lemma process_books:
  assumes "process_unbonding e (s, h) = Some y"
  shows "books_of p y = books_of p (s, h)"
  using assms by (cases p) (auto simp: process_unbonding_eq books_of_def get_validator_info_def get_delegation_def)

lemma rewards_books:
  assumes "distribute_rewards C e (s, h) = Some y"
  shows "books_of p y = books_of p (s, h)"
  using assms rewards_eq [of C e s h]
  by (cases p) (auto simp: books_of_def get_validator_info_def get_delegation_def split: if_splits)

interpretation staking_sim: simulation staking_keys_ok contract_step books_step books_of
proof unfold_locales
  fix p x y
  assume ok: "staking_keys_ok p" and step: "contract_step p x y"
  obtain C vsp self where p: "p = (C, vsp, self)" by (cases p)
  obtain s h where x: "x = (s, h)" by (cases x)
  from step have "staking_step C vsp self (s, h) y" by (simp add: contract_step_def p x)
  then show "books_step p (books_of p x) (books_of p y)"
    unfolding p x
  proof (cases rule: staking_step.cases)
    case (step_register e commission)
    then show "books_step (C, vsp, self) (books_of (C, vsp, self) (s, h)) (books_of (C, vsp, self) y)"
      using register_books [OF ok [unfolded p], of e commission s h y] by (auto intro: books_register)
  next
    case (step_stake e v amount)
    then show "books_step (C, vsp, self) (books_of (C, vsp, self) (s, h)) (books_of (C, vsp, self) y)"
      using stake_books [OF ok [unfolded p], of e v amount s h y] by (auto intro: books_stake)
  next
    case (step_unstake e v amount)
    then show "books_step (C, vsp, self) (books_of (C, vsp, self) (s, h)) (books_of (C, vsp, self) y)"
      using unstake_books [OF ok [unfolded p], of e v amount s h y] by (auto intro: books_unstake)
  qed (use private_books [OF ok [unfolded p]] process_books rewards_books in \<open>auto intro: books_idle\<close>)
qed

text \<open>
  C25. The books of the staking contract balance: after any sequence of calls by anybody, every
  validator's stake equals its delegated total and the sum of the delegations to it, nobody has a
  delegation to an unregistered validator, and the staked total is the sum of all delegations
  (modulo \<open>2^128\<close>, over the finitely many pairs with a delegation).
\<close>
theorem staking_books_balance:
  assumes "staking_keys_ok (C, vsp, self)"
    and "(staking_step C vsp self)\<^sup>*\<^sup>* (staking_new minimum commission period, host_new) (s, h)"
  shows "\<exists>D. finite D \<and> (\<forall>d v. (d, v) \<notin> D \<longrightarrow> get_delegation C d v h = 0) \<and>
    total_staked s = (\<Sum>(d, v) \<in> D. get_delegation C d v h) \<and>
    (\<forall>v. case get_validator_info C v h of
       None \<Rightarrow> \<forall>d. get_delegation C d v h = 0
     | Some info \<Rightarrow> vi_stake info = vi_total_delegated info \<and>
         vi_stake info = (\<Sum>(d, w) \<in> {q \<in> D. snd q = v}. get_delegation C d w h))"
proof -
  let ?p = "(C, vsp, self)"
  have "balanced (books_of ?p (staking_new minimum commission period, host_new))"
    by (auto simp: balanced_def balanced_over_def books_of_def get_validator_info_def get_delegation_def map_get_def
        storage_get_def host_new_def staking_new_def intro!: exI [of _ "{}"] split: option.splits Option.bind_splits)
  from staking_sim.transfer_invariant [where I = balanced, OF assms(1) _ this balanced_step] assms(2)
  have "balanced (books_of ?p (s, h))" by (simp add: contract_step_def)
  then obtain D where D: "balanced_over D (books_of ?p (s, h))" by (auto simp: balanced_def)
  note B = balanced_overD [OF D, unfolded books_of_def prod.case stake_books.simps]
  have "case get_validator_info C v h of
      None \<Rightarrow> \<forall>d. get_delegation C d v h = 0
    | Some info \<Rightarrow> vi_stake info = vi_total_delegated info \<and>
        vi_stake info = (\<Sum>(d, w) \<in> {q \<in> D. snd q = v}. get_delegation C d w h)" for v
    using B(4) [of v] B(5) [of v] by (cases "get_validator_info C v h") auto
  with B(1-3) show ?thesis by (intro exI [of _ D]) (auto simp: case_prod_unfold)
qed

subsection \<open>Private stakes\<close>

lemma unstake_nothing:
  assumes "staking_keys_ok (C, vsp, self)" and "get_validator_info C v h = Some info"
    and "vi_stake info < min_stake s"
  shows "\<exists>s' h'. unstake C e v 0 (s, h) = Some (s', h') \<and> total_staked s' = total_staked s \<and> h_calls h' = h_calls h \<and>
    get_validator_info C v h' = Some (info\<lparr>vi_is_active := False\<rparr>)"
  using assms(2,3) staking_keys_okD [OF assms(1)]
  by (auto simp: unstake_def books_simps call_defs)

lemma private_stake_effect:
  assumes "staking_keys_ok (C, vsp, self)" and "verify_stake_proof Z zk_proof v c n"
    and "get_validator_info C v h = Some info"
  shows "\<exists>h'. private_stake C Z e v ea zk_proof c n (s, h) = Some (s, h') \<and> h_calls h' = h_calls h \<and>
    get_validator_info C v h' = Some (info\<lparr>vi_is_active := True\<rparr>) \<and>
    (\<forall>d w. get_delegation C d w h' = get_delegation C d w h)"
  using assms(2,3) staking_keys_okD [OF assms(1)]
  by (auto simp: private_stake_def books_simps call_defs)

text \<open>
  A private stake costs nothing and never wears out. One valid proof activates the validator
  without a token transfer and without a change of any delegation; the nullifier is not recorded,
  so anybody may send the same proof again, with another ciphertext under the same commitment. As
  long as the public stake is below the minimum, anybody may undo the activation by unstaking zero
  tokens that he never staked.
\<close>
theorem private_stake_is_free:
  assumes "staking_keys_ok (C, Z, self)" and "verify_stake_proof Z zk_proof v c n"
    and "get_validator_info C v h = Some info" and "vi_stake info < min_stake s"
  shows "\<exists>h1 h2 s3 h3.
    private_stake C Z e v ea zk_proof c n (s, h) = Some (s, h1) \<and>
    unstake C e' v 0 (s, h1) = Some (s3, h3) \<and> total_staked s3 = total_staked s \<and>
    private_stake C Z e'' v ea' zk_proof c n (s3, h3) = Some (s3, h2) \<and>
    map_option vi_is_active (get_validator_info C v h1) = Some True \<and>
    map_option vi_is_active (get_validator_info C v h3) = Some False \<and>
    map_option vi_is_active (get_validator_info C v h2) = Some True \<and>
    h_calls h1 = h_calls h \<and> h_calls h2 = h_calls h \<and> h_calls h3 = h_calls h"
proof -
  obtain h1 where h1: "private_stake C Z e v ea zk_proof c n (s, h) = Some (s, h1)" "h_calls h1 = h_calls h"
    "get_validator_info C v h1 = Some (info\<lparr>vi_is_active := True\<rparr>)"
    using private_stake_effect [OF assms(1-3)] by metis
  obtain s3 h3 where h3: "unstake C e' v 0 (s, h1) = Some (s3, h3)" "total_staked s3 = total_staked s"
    "h_calls h3 = h_calls h1" "get_validator_info C v h3 = Some (info\<lparr>vi_is_active := False\<rparr>)"
    using unstake_nothing [OF assms(1) h1(3)] assms(4) by force
  obtain h2 where "private_stake C Z e'' v ea' zk_proof c n (s3, h3) = Some (s3, h2)" "h_calls h2 = h_calls h3"
    "get_validator_info C v h2 = Some (info\<lparr>vi_is_active := True\<rparr>)"
    using private_stake_effect [OF assms(1,2) h3(4)] by force
  with h1 h3 show ?thesis by (intro exI [of _ h1] exI [of _ h2] exI [of _ s3] exI [of _ h3]) simp
qed

subsection \<open>Instances\<close>

lemma sample_staking_keys: "staking_keys_ok (sample_codecs, vsp, self)"
  using sample_codecs_staking
  by (simp add: staking_keys_ok_def) (simp add: sample_codecs_def hash_codec_def addr_codec_def pair_codec_def)

lemma sample_staked:
  obtains s h where "stake sample_codecs (sample_env 1 3) (Address [5]) 40 sample_registered = Some (s, h)"
    and "(staking_step sample_codecs zk_accepting (Address [99]))\<^sup>*\<^sup>* (staking_new 10 50 7, host_new) (s, h)"
    and "total_staked s = 40" and "unbonding_queue s = []"
    and "h_calls h = [CallTransferFrom PROTON_TOKEN (Address [1]) (Address [99]) 40]"
proof -
  let ?step = "staking_step sample_codecs zk_accepting (Address [99])"
  obtain h0 info where r: "sample_registered = (staking_new 10 50 7, h0)"
      "map_get (sc_address sample_codecs) (sc_info sample_codecs) (Address [5]) h0 = Some info"
    using sample_registered_some(2) by (auto simp: get_validator_info_def)
  have "\<exists>y. stake sample_codecs (sample_env 1 3) (Address [5]) 40 sample_registered = Some y"
    unfolding r(1) using r(2)
    by (simp add: stake_def call_defs Let_def staking_new_def map_insert_ok codecs_okD [OF sample_codecs_staking])
  then obtain s h where st: "stake sample_codecs (sample_env 1 3) (Address [5]) 40 sample_registered = Some (s, h)" by auto
  note effect = stake_effect [OF st [unfolded r(1)]]
  have "h_calls h0 = h_calls (host_new :: staking_host)"
    using other_effects(1) [OF sample_registered_some(1) [unfolded r(1)]] by blast
  then have calls: "h_calls h = [CallTransferFrom PROTON_TOKEN (Address [1]) (Address [99]) 40]"
    using effect(3) by (simp add: host_new_def sample_env_def)
  have "?step (staking_new 10 50 7, host_new) sample_registered" "?step sample_registered (s, h)"
    using sample_registered_some(1) st by (auto intro: step_register step_stake simp: sample_env_def)
  then have "?step\<^sup>*\<^sup>* (staking_new 10 50 7, host_new) (s, h)" by (blast intro: rtranclp.rtrancl_into_rtrancl)
  with st effect(1,2) calls show thesis by (intro that) (simp_all add: staking_new_def)
qed

theorem staking_books_balance_witness:
  "\<exists>s h D. stake sample_codecs (sample_env 1 3) (Address [5]) 40 sample_registered = Some (s, h) \<and>
    total_staked s = 40 \<and> finite D \<and> 40 = (\<Sum>(d, v) \<in> D. get_delegation sample_codecs d v h)"
proof -
  obtain s h where st: "stake sample_codecs (sample_env 1 3) (Address [5]) 40 sample_registered = Some (s, h)"
    and run: "(staking_step sample_codecs zk_accepting (Address [99]))\<^sup>*\<^sup>* (staking_new 10 50 7, host_new) (s, h)"
    and t: "total_staked s = 40" by (rule sample_staked)
  from staking_books_balance [OF sample_staking_keys run] obtain D where
    D: "finite D" "total_staked s = (\<Sum>(d, v) \<in> D. get_delegation sample_codecs d v h)" by blast
  show ?thesis by (rule exI [of _ s], rule exI [of _ h], rule exI [of _ D]) (simp add: st t D(1) D(2) [unfolded t, symmetric])
qed

end
