(* ===== verification/StakingAccounts.thy ===== *)
theory StakingAccounts
  imports StakingLedger
begin

text \<open>
  The account of one delegator with the staking contract (\<^verbatim>\<open>src/contracts/staking.rs\<close>): what the contract
  drew from him is delegated, queued for withdrawal or paid back to him. Theory \<open>Staking\<close> shows this for
  the sums over all delegators; here nobody's tokens can end up with anybody else.
\<close>

subsection \<open>The account\<close>

definition drawn_from :: "address \<Rightarrow> address \<Rightarrow> token_call \<Rightarrow> u128" where
  "drawn_from self d c = (case c of
     CallTransferFrom t from to a \<Rightarrow> if t = PROTON_TOKEN \<and> from = d \<and> to = self then a else 0 | _ \<Rightarrow> 0)"

definition paid_to :: "address \<Rightarrow> token_call \<Rightarrow> u128" where
  "paid_to d c = (case c of CallTransfer t to a \<Rightarrow> if t = PROTON_TOKEN \<and> to = d then a else 0 | _ \<Rightarrow> 0)"

definition queued_for :: "address \<Rightarrow> unbonding_entry \<Rightarrow> u128" where
  "queued_for d entry = (if ue_delegator entry = d then ue_amount entry else 0)"

definition settled_over :: "staking_params \<Rightarrow> address \<Rightarrow> address set \<Rightarrow> staking \<times> staking_host \<Rightarrow> bool" where
  "settled_over = (\<lambda>(C, vsp, self) d V (s, h).
     finite V \<and> (\<forall>v. v \<notin> V \<longrightarrow> get_delegation C d v h = 0) \<and>
     (\<Sum>c \<leftarrow> h_calls h. drawn_from self d c) =
       (\<Sum>v \<in> V. get_delegation C d v h) + (\<Sum>x \<leftarrow> unbonding_queue s. queued_for d x) + (\<Sum>c \<leftarrow> h_calls h. paid_to d c))"

definition all_settled :: "staking_params \<Rightarrow> staking \<times> staking_host \<Rightarrow> bool" where
  "all_settled p x \<longleftrightarrow> (\<forall>d. \<exists>V. settled_over p d V x)"

text \<open>Adding \<open>x\<close> to one delegation of \<open>d\<close>, together with a matching change of the other three sums.\<close>

lemma settled_move:
  assumes "settled_over (C, vsp, self) d V (s, h)"
    and "\<And>w. get_delegation C d w h' = get_delegation C d w h + (if w = v then x else 0)"
    and "(\<Sum>c \<leftarrow> h_calls h'. drawn_from self d c) + (\<Sum>y \<leftarrow> unbonding_queue s. queued_for d y) + (\<Sum>c \<leftarrow> h_calls h. paid_to d c) =
      (\<Sum>c \<leftarrow> h_calls h. drawn_from self d c) + x + (\<Sum>y \<leftarrow> unbonding_queue s'. queued_for d y) + (\<Sum>c \<leftarrow> h_calls h'. paid_to d c)"
  shows "settled_over (C, vsp, self) d (insert v V) (s', h')"
proof -
  let ?f = "\<lambda>w. get_delegation C d w h"
  have V: "finite V" "\<And>w. w \<notin> V \<Longrightarrow> ?f w = 0" using assms(1) by (simp_all add: settled_over_def)
  have f: "(\<lambda>w. get_delegation C d w h') = ?f(v := ?f v + x)" by (simp add: fun_eq_iff assms(2))
  have "(\<Sum>w \<in> insert v V. get_delegation C d w h') = (\<Sum>w \<in> V. ?f w) + x"
    unfolding f by (rule sum_adjust_all) (use V in auto)
  with assms V show ?thesis by (simp add: settled_over_def algebra_simps)
qed

lemma settled_frame:
  assumes "settled_over (C, vsp, self) d V (s, h)" and "\<And>w. get_delegation C d w h' = get_delegation C d w h"
    and "(\<Sum>c \<leftarrow> h_calls h'. drawn_from self d c) = (\<Sum>c \<leftarrow> h_calls h. drawn_from self d c)"
    and "(\<Sum>y \<leftarrow> unbonding_queue s'. queued_for d y) + (\<Sum>c \<leftarrow> h_calls h'. paid_to d c) =
      (\<Sum>y \<leftarrow> unbonding_queue s. queued_for d y) + (\<Sum>c \<leftarrow> h_calls h. paid_to d c)"
  shows "settled_over (C, vsp, self) d V (s', h')"
  using assms by (simp add: settled_over_def add.assoc)

subsection \<open>One call\<close>

lemma stake_settled:
  assumes "codecs_ok C" and "stake C e v amount (s, h) = Some (s', h')" and "env_self e = self"
    and "settled_over (C, vsp, self) d V (s, h)"
  shows "\<exists>V. settled_over (C, vsp, self) d V (s', h')"
proof -
  note st = stake_spec [OF assms(1), where e = e and v = v and amount = amount and s = s and h = h, unfolded assms(2) option.case prod.case]
  have del: "get_delegation C d w h' = get_delegation C d w h + (if w = v then (if d = env_caller e then amount else 0) else 0)" for w
    using st by simp
  have "settled_over (C, vsp, self) d (insert v V) (s', h')"
    by (rule settled_move [OF assms(4) del])
      (use st assms(3) in \<open>simp add: drawn_from_def paid_to_def algebra_simps\<close>)
  then show ?thesis ..
qed

lemma unstake_settled:
  assumes "codecs_ok C" and "unstake C e v amount (s, h) = Some (s', h')"
    and "settled_over (C, vsp, self) d V (s, h)"
  shows "\<exists>V. settled_over (C, vsp, self) d V (s', h')"
proof -
  note un = unstake_spec [OF assms(1), where e = e and v = v and amount = amount and s = s and h = h, unfolded assms(2) option.case prod.case]
  have del: "get_delegation C d w h' = get_delegation C d w h + (if w = v then (if d = env_caller e then - amount else 0) else 0)" for w
    using un by simp
  have "settled_over (C, vsp, self) d (insert v V) (s', h')"
    by (rule settled_move [OF assms(3) del]) (use un in \<open>simp add: queued_for_def\<close>)
  then show ?thesis ..
qed

lemma sum_pay_calls:
  "(\<Sum>c \<leftarrow> map pay_call xs. paid_to d c) = (\<Sum>x \<leftarrow> xs. queued_for d x)"
  "(\<Sum>c \<leftarrow> map pay_call xs. drawn_from self d c) = 0"
  by (induction xs) (simp_all add: paid_to_def drawn_from_def queued_for_def pay_call_def)

lemma process_settled:
  assumes "process_unbonding e (s, h) = Some (s', h')" and "settled_over (C, vsp, self) d V (s, h)"
  shows "settled_over (C, vsp, self) d V (s', h')"
proof (rule settled_frame [OF assms(2)])
  note eq = assms(1) [unfolded process_unbonding_eq option.inject prod.inject]
  show "get_delegation C d w h' = get_delegation C d w h" for w using eq by (auto simp: get_delegation_def)
  show "(\<Sum>c \<leftarrow> h_calls h'. drawn_from self d c) = (\<Sum>c \<leftarrow> h_calls h. drawn_from self d c)"
    using eq by (auto simp: sum_pay_calls simp del: map_map)
  show "(\<Sum>y \<leftarrow> unbonding_queue s'. queued_for d y) + (\<Sum>c \<leftarrow> h_calls h'. paid_to d c) =
      (\<Sum>y \<leftarrow> unbonding_queue s. queued_for d y) + (\<Sum>c \<leftarrow> h_calls h. paid_to d c)"
    using eq sum_split [of "queued_for d" "due (env_block_height e)" "unbonding_queue s"]
    by (auto simp: sum_pay_calls algebra_simps simp del: map_map)
qed

lemma others_keep_delegations:
  assumes "staking_keys_ok (C, vsp, self)"
  shows "register_validator_info C e commission (s, h) = Some (s', h') \<Longrightarrow> get_delegation C d w h' = get_delegation C d w h"
    and "private_stake C vsp e v ea zk c n (s, h) = Some (s', h') \<Longrightarrow> get_delegation C d w h' = get_delegation C d w h"
    and "distribute_rewards C e (s, h) = Some (s', h') \<Longrightarrow>
      get_delegation C d w h' = get_delegation C d w h \<and> h_calls h' = h_calls h \<and> unbonding_queue s' = unbonding_queue s"
proof -
  have books: "get_delegation C d w h' = get_delegation C d w h"
    if "sb_delegation (books_of (C, vsp, self) (s', h')) = sb_delegation (books_of (C, vsp, self) (s, h))"
    using fun_cong [OF that, of "(d, w)"] by (simp add: books_of_def)
  show "register_validator_info C e commission (s, h) = Some (s', h') \<Longrightarrow> get_delegation C d w h' = get_delegation C d w h"
    using register_books [OF assms, of e commission s h "(s', h')"] by (intro books) auto
  show "private_stake C vsp e v ea zk c n (s, h) = Some (s', h') \<Longrightarrow> get_delegation C d w h' = get_delegation C d w h"
    using private_books [OF assms, of e v ea zk c n s h "(s', h')"] by (intro books) simp
  show "distribute_rewards C e (s, h) = Some (s', h') \<Longrightarrow>
      get_delegation C d w h' = get_delegation C d w h \<and> h_calls h' = h_calls h \<and> unbonding_queue s' = unbonding_queue s"
    using rewards_eq [of C e s h] by (auto simp: get_delegation_def split: if_splits)
qed

interpretation staking_calls: step_invariant staking_keys_ok contract_step all_settled
proof unfold_locales
  fix p x y
  assume ok: "staking_keys_ok p" and step: "contract_step p x y" and inv: "all_settled p x"
  obtain C vsp self where p: "p = (C, vsp, self)" by (cases p)
  obtain s h where x: "x = (s, h)" by (cases x)
  obtain s' h' where y: "y = (s', h')" by (cases y)
  have C: "codecs_ok C" using staking_keys_okD(1) ok p by blast
  note others = others_keep_delegations [OF ok [unfolded p], where s = s and h = h and s' = s' and h' = h']
  from step have st: "staking_step C vsp self (s, h) (s', h')" by (simp add: contract_step_def p x y)
  have "\<exists>V'. settled_over (C, vsp, self) d V' (s', h')" if V: "settled_over (C, vsp, self) d V (s, h)" for d V
    using st
  proof (cases rule: staking_step.cases)
    case (step_stake e v amount)
    then show ?thesis using stake_settled [OF C _ _ V] by blast
  next
    case (step_unstake e v amount)
    then show ?thesis using unstake_settled [OF C _ V] by blast
  next
    case (step_process e)
    then show ?thesis using process_settled [OF _ V] by blast
  next
    case (step_rewards e)
    have "settled_over (C, vsp, self) d V (s', h')"
      by (rule settled_frame [OF V]) (use others(3) [OF step_rewards] in simp_all)
    then show ?thesis ..
  next
    case (step_register e commission)
    have "settled_over (C, vsp, self) d V (s', h')"
      by (rule settled_frame [OF V]) (use others(1) [OF step_register] other_effects(1) [OF step_register] in simp_all)
    then show ?thesis ..
  next
    case (step_private e v ea zk c n)
    have "settled_over (C, vsp, self) d V (s', h')"
      by (rule settled_frame [OF V]) (use others(2) [OF step_private] other_effects(2) [OF step_private] in simp_all)
    then show ?thesis ..
  qed
  with inv show "all_settled p y" by (auto simp: all_settled_def p x y)
qed

text \<open>
  C9. After any sequence of calls by anybody, every delegator's account with the staking contract
  balances: what the contract drew from him is what he has delegated, what is queued for his
  withdrawal and what it has paid back to him (modulo \<open>2^128\<close>). So nobody is paid from the stake of
  another, and no withdrawal is paid twice.
\<close>
theorem delegators_settled:
  assumes "staking_keys_ok (C, vsp, self)"
    and "(staking_step C vsp self)\<^sup>*\<^sup>* (staking_new minimum commission period, host_new) (s, h)"
  shows "\<exists>V. finite V \<and> (\<forall>v. v \<notin> V \<longrightarrow> get_delegation C d v h = 0) \<and>
    (\<Sum>c \<leftarrow> h_calls h. drawn_from self d c) =
      (\<Sum>v \<in> V. get_delegation C d v h) + (\<Sum>x \<leftarrow> unbonding_queue s. queued_for d x) + (\<Sum>c \<leftarrow> h_calls h. paid_to d c)"
proof -
  have "all_settled (C, vsp, self) (staking_new minimum commission period, host_new)"
    by (auto simp: all_settled_def settled_over_def staking_new_def get_delegation_def map_get_new intro: exI [of _ "{}"])
      (auto simp: host_new_def intro: exI [of _ "{}"])
  from staking_calls.reach_inv [OF assms(1) _ this, of "(s, h)"] assms(2)
  show ?thesis by (simp add: contract_step_def all_settled_def settled_over_def)
qed

subsection \<open>An instance\<close>

theorem delegators_settled_witness:
  "\<exists>s h V. stake sample_codecs (sample_env 1 3) (Address [5]) 40 sample_registered = Some (s, h) \<and>
    finite V \<and> 40 = (\<Sum>v \<in> V. get_delegation sample_codecs (Address [1]) v h)"
proof -
  obtain s h where st: "stake sample_codecs (sample_env 1 3) (Address [5]) 40 sample_registered = Some (s, h)"
    and run: "(staking_step sample_codecs zk_accepting (Address [99]))\<^sup>*\<^sup>* (staking_new 10 50 7, host_new) (s, h)"
    and q: "unbonding_queue s = []"
    and c: "h_calls h = [CallTransferFrom PROTON_TOKEN (Address [1]) (Address [99]) 40]" by (rule sample_staked)
  from delegators_settled [OF sample_staking_keys run, of "Address [1]"] obtain V where "finite V"
    "(\<Sum>c \<leftarrow> h_calls h. drawn_from (Address [99]) (Address [1]) c) =
      (\<Sum>v \<in> V. get_delegation sample_codecs (Address [1]) v h) + (\<Sum>x \<leftarrow> unbonding_queue s. queued_for (Address [1]) x) +
      (\<Sum>c \<leftarrow> h_calls h. paid_to (Address [1]) c)" by blast
  then show ?thesis using st by (intro exI [of _ s] exI [of _ h] exI [of _ V]) (simp add: q c drawn_from_def paid_to_def)
qed

end
