(* ===== verification/PrivateToken.thy ===== *)
theory PrivateToken
  imports Zk
begin

text \<open>
  \<^verbatim>\<open>src/contracts/private_token.rs\<close>: the private token, with public balances under the keys
  \<open>bal:\<close> followed by the address, a set of spent nullifiers, and a running Merkle root. The proof
  check of the host and the codec of hashes are parameters.
\<close>

subsection \<open>Definitions\<close>

record private_token =
  tok_name :: string
  tok_symbol :: string
  tok_decimals :: u8
  tok_total_supply :: u128
  tok_merkle_root :: hash
  tok_view_key :: bytes

datatype token_event = TokenPrivateTransfer hash hash bytes | PublicMint address u128

record token_ext =
  te_sha :: "bytes \<Rightarrow> bytes"
  te_hash :: "hash codec"
  te_zk :: zk_host

type_synonym token_state = "private_token \<times> token_event host"

definition private_token_new :: "string \<Rightarrow> string \<Rightarrow> u8 \<Rightarrow> private_token" where
  "private_token_new name symbol decimals =
     \<lparr>tok_name = name, tok_symbol = symbol, tok_decimals = decimals, tok_total_supply = 0,
      tok_merkle_root = hash_zero, tok_view_key = []\<rparr>"

definition balance_key :: "address \<Rightarrow> bytes" where
  "balance_key a = [0x62, 0x61, 0x6C, 0x3A] @ address_bytes a"

definition get_public_balance :: "address \<Rightarrow> token_event host \<Rightarrow> u128" where
  "get_public_balance account h =
     (let data = unwrap_or (storage_get (balance_key account) h) []
      in if length data \<ge> 16 then word_of_nat (from_le (take 16 data)) else 0)"

definition token_total_supply :: "private_token \<Rightarrow> u128" where "token_total_supply s = tok_total_supply s"
definition token_name :: "private_token \<Rightarrow> string" where "token_name s = tok_name s"
definition token_symbol :: "private_token \<Rightarrow> string" where "token_symbol s = tok_symbol s"

definition token_mint :: "env \<Rightarrow> address \<Rightarrow> u128 \<Rightarrow> token_state \<Rightarrow> token_state option" where
  "token_mint e to amount = (\<lambda>(s, h). do {
     require (env_is_owner e);
     let s = s\<lparr>tok_total_supply := tok_total_supply s + amount\<rparr>;
     let balance = get_public_balance to h + amount;
     let h = storage_set (balance_key to) (u128_le balance) h;
     Some (s, emit (PublicMint to amount) h)
   })"

definition token_spend ::
    "token_ext \<Rightarrow> bytes \<Rightarrow> hash \<Rightarrow> hash \<Rightarrow> hash \<Rightarrow> bytes \<Rightarrow> stealth_address \<Rightarrow> token_state \<Rightarrow> token_state option" where
  "token_spend T proof nullifier commitment root enc_amount stealth = (\<lambda>(s, h). do {
     require (verify_zk_proof (te_zk T) proof nullifier commitment root);
     spent \<leftarrow> set_contains (te_hash T) nullifier h;
     require (\<not> spent);
     require (root = tok_merkle_root s);
     h \<leftarrow> set_insert (te_hash T) nullifier h;
     let s = s\<lparr>tok_merkle_root := update_root (te_sha T) (tok_merkle_root s) commitment\<rparr>;
     Some (s, emit (TokenPrivateTransfer nullifier commitment enc_amount) h)
   })"

subsection \<open>Public balances\<close>

lemma balance_key_inject [simp]: "balance_key a = balance_key b \<longleftrightarrow> a = b"
  by (auto simp: balance_key_def intro: address.expand)

text \<open>
  The owner's mint adds the amount to the balance of the receiver and to the supply (both modulo
  \<open>2^128\<close>) and changes no other public balance; anybody else's panics. Balances survive the
  little-endian encoding.
\<close>
theorem token_mint_spec:
  "token_mint e to amount (s, h) =
     (if env_is_owner e
      then Some (s\<lparr>tok_total_supply := tok_total_supply s + amount\<rparr>,
        emit (PublicMint to amount) (storage_set (balance_key to) (u128_le (get_public_balance to h + amount)) h))
      else None) \<and>
   get_public_balance a (emit (PublicMint to amount) (storage_set (balance_key to) (u128_le (get_public_balance to h + amount)) h)) =
     get_public_balance a h + (if a = to then amount else 0)"
  by (simp add: token_mint_def require_def Let_def) (simp add: get_public_balance_def Let_def del: le_bytes.simps)

subsection \<open>Nullifiers\<close>

inductive token_step :: "token_ext \<Rightarrow> token_state \<Rightarrow> token_state \<Rightarrow> bool" for T where
  step_mint: "token_mint e to amount x = Some y \<Longrightarrow> token_step T x y"
| step_spend: "token_spend T proof n c root ea st x = Some y \<Longrightarrow> token_step T x y"

inductive_cases token_stepE: "token_step T x y"

lemma spend_iff:
  assumes "codec_ok (te_hash T)"
  shows "token_spend T proof n c root ea st (s, h) =
    (if verify_zk_proof (te_zk T) proof n c root \<and> storage_get (enc (te_hash T) n) h = None \<and> root = tok_merkle_root s
     then Some (s\<lparr>tok_merkle_root := update_root (te_sha T) (tok_merkle_root s) c\<rparr>,
       emit (TokenPrivateTransfer n c ea) (storage_set (enc (te_hash T) n) [1] h))
     else None)"
  using assms by (auto simp: token_spend_def set_contains_ok set_insert_ok require_def Let_def)

lemma step_keeps_spent:
  assumes "codec_ok (te_hash T)" and "token_step T x y" and "storage_get (enc (te_hash T) n) (snd x) \<noteq> None"
  shows "storage_get (enc (te_hash T) n) (snd y) \<noteq> None"
  using assms(2,3)
  by (cases x; cases y)
    (auto elim!: token_stepE simp: token_mint_def spend_iff [OF assms(1)] require_def Let_def split: if_splits)

text \<open>
  No double spend: once a private transfer with a nullifier has succeeded, then after any
  further mints and transfers by anybody every transfer with that nullifier panics.
\<close>
theorem no_double_spend:
  assumes "codec_ok (te_hash T)" and "token_spend T proof n c root ea st x = Some y" and "(token_step T)\<^sup>*\<^sup>* y z"
  shows "token_spend T proof' n c' root' ea' st' z = None"
proof -
  have "storage_get (enc (te_hash T) n) (snd y) \<noteq> None"
    using assms(2) by (cases x) (auto simp: spend_iff [OF assms(1)] split: if_splits)
  with assms(3) have "storage_get (enc (te_hash T) n) (snd z) \<noteq> None"
    by (induction rule: rtranclp_induct) (auto dest: step_keeps_spent [OF assms(1)])
  then show ?thesis by (cases z) (simp add: spend_iff [OF assms(1)])
qed

text \<open>
  Concurrent transfers exclude each other: a transfer is accepted only for the current root, and
  it replaces the root. Two transfers proved against the same root, with whatever nullifiers, cannot
  follow each other, unless the new root collides with the old one.
\<close>
theorem same_root_excludes:
  assumes "codec_ok (te_hash T)" and "token_spend T proof n c root ea st x = Some y"
    and "update_root (te_sha T) root c \<noteq> root"
  shows "tok_merkle_root (fst x) = root \<and> tok_merkle_root (fst y) = update_root (te_sha T) root c \<and>
    token_spend T proof' n' c' root ea' st' y = None"
  using assms by (cases x; cases y) (auto simp: spend_iff split: if_splits)

subsection \<open>Instances\<close>

definition sample_token_ext :: token_ext where
  "sample_token_ext = \<lparr>te_sha = (\<lambda>b. b), te_hash = hash_codec, te_zk = zk_accepting\<rparr>"

definition sample_token :: token_state where
  "sample_token = (private_token_new ''t'' ''T'' 18, host_new)"

lemma sample_spend:
  "\<exists>y. token_spend sample_token_ext [] (Hash [1]) (Hash [2]) hash_zero [] (stealth_derive id [] [] 0) sample_token = Some y"
  by (simp add: sample_token_def sample_token_ext_def spend_iff) (simp add: private_token_new_def storage_get_def host_new_def)

theorem no_double_spend_witness:
  "\<exists>y. token_spend sample_token_ext [] (Hash [1]) (Hash [2]) hash_zero [] (stealth_derive id [] [] 0) sample_token = Some y \<and>
    token_spend sample_token_ext [] (Hash [1]) (Hash [3]) (Hash [4]) [] (stealth_derive id [] [] 0) y = None"
proof -
  obtain y where y: "token_spend sample_token_ext [] (Hash [1]) (Hash [2]) hash_zero [] (stealth_derive id [] [] 0) sample_token = Some y"
    using sample_spend by blast
  have "codec_ok (te_hash sample_token_ext)" by (simp add: sample_token_ext_def)
  from no_double_spend [OF this y rtranclp.rtrancl_refl] y show ?thesis by blast
qed

theorem same_root_excludes_witness:
  "\<exists>y. token_spend sample_token_ext [] (Hash [1]) (Hash [2]) hash_zero [] (stealth_derive id [] [] 0) sample_token = Some y \<and>
    token_spend sample_token_ext [] (Hash [8]) (Hash [9]) hash_zero [] (stealth_derive id [] [] 0) y = None"
proof -
  obtain y where y: "token_spend sample_token_ext [] (Hash [1]) (Hash [2]) hash_zero [] (stealth_derive id [] [] 0) sample_token = Some y"
    using sample_spend by blast
  have "codec_ok (te_hash sample_token_ext)" "update_root (te_sha sample_token_ext) hash_zero (Hash [2]) \<noteq> hash_zero"
    by (simp_all add: sample_token_ext_def update_root_def hash_new_def hash_zero_def)
  from same_root_excludes [OF this(1) y this(2)] y show ?thesis by blast
qed

end
