(* ===== verification/TokenLedger.thy ===== *)
theory TokenLedger
  imports PrivateToken Simulation
begin

text \<open>
  What the private token promises, as an abstract ledger: a balance for every address, the supply,
  the set of spent nullifiers and the root of the commitments. The contract refines it: every call
  of \<^verbatim>\<open>src/contracts/private_token.rs\<close> that returns is a ledger operation on the abstraction of its
  state, and every call that panics is one that the ledger refuses. The hypothesis
  \<open>token_keys_ok\<close> is about the encodings: \<^verbatim>\<open>serde_json\<close> writes a hash as an array, which starts with an
  opening bracket, and a balance is stored under a key that starts with \<^verbatim>\<open>bal:\<close>.
\<close>

subsection \<open>The ledger\<close>

record ledger =
  lg_balance :: "address \<Rightarrow> u128"
  lg_supply :: u128
  lg_spent :: "hash set"
  lg_root :: hash

definition ledger_mint :: "bool \<Rightarrow> address \<Rightarrow> u128 \<Rightarrow> ledger \<Rightarrow> ledger option" where
  "ledger_mint owner to amount L =
     (if owner then Some (L\<lparr>lg_balance := (lg_balance L)(to := lg_balance L to + amount),
        lg_supply := lg_supply L + amount\<rparr>) else None)"

definition ledger_spend :: "(hash \<Rightarrow> hash \<Rightarrow> hash) \<Rightarrow> bool \<Rightarrow> hash \<Rightarrow> hash \<Rightarrow> hash \<Rightarrow> ledger \<Rightarrow> ledger option" where
  "ledger_spend grow valid nullifier commitment root L =
     (if valid \<and> nullifier \<notin> lg_spent L \<and> root = lg_root L
      then Some (L\<lparr>lg_spent := insert nullifier (lg_spent L), lg_root := grow root commitment\<rparr>) else None)"

inductive ledger_step :: "token_ext \<Rightarrow> ledger \<Rightarrow> ledger \<Rightarrow> bool" for T where
  ledger_step_mint: "ledger_mint owner to amount L = Some L' \<Longrightarrow> ledger_step T L L'"
| ledger_step_spend: "ledger_spend (update_root (te_sha T)) valid n c root L = Some L' \<Longrightarrow> ledger_step T L L'"

inductive_cases ledger_stepE: "ledger_step T L L'"

subsection \<open>Refinement\<close>

definition token_keys_ok :: "token_ext \<Rightarrow> bool" where
  "token_keys_ok T \<longleftrightarrow> codec_ok (te_hash T) \<and> (\<forall>n a. enc (te_hash T) n \<noteq> balance_key a)"

definition ledger_of :: "token_ext \<Rightarrow> token_state \<Rightarrow> ledger" where
  "ledger_of T = (\<lambda>(s, h). \<lparr>lg_balance = (\<lambda>a. get_public_balance a h), lg_supply = tok_total_supply s,
     lg_spent = {n. storage_get (enc (te_hash T) n) h \<noteq> None}, lg_root = tok_merkle_root s\<rparr>)"

lemma public_balance_set:
  "get_public_balance a (storage_set (balance_key b) (u128_le v) h) = (if a = b then v else get_public_balance a h)"
  by (simp add: get_public_balance_def Let_def del: le_bytes.simps)

lemma public_balance_frame [simp]:
  "get_public_balance a (emit e h) = get_public_balance a h"
  "(\<And>a. k \<noteq> balance_key a) \<Longrightarrow> get_public_balance a (storage_set k v h) = get_public_balance a h"
  by (auto simp: get_public_balance_def)

lemma mint_refines:
  assumes "token_keys_ok T"
  shows "map_option (ledger_of T) (token_mint e to amount st) = ledger_mint (env_is_owner e) to amount (ledger_of T st)"
  using assms by (cases st)
    (auto simp: token_mint_def ledger_mint_def ledger_of_def token_keys_ok_def require_def Let_def public_balance_set
      fun_eq_iff)

lemma spend_refines:
  assumes "token_keys_ok T"
  shows "map_option (ledger_of T) (token_spend T proof n c root ea sa st) =
    ledger_spend (update_root (te_sha T)) (verify_zk_proof (te_zk T) proof n c root) n c root (ledger_of T st)"
proof (cases st)
  case (Pair s h)
  have ok: "codec_ok (te_hash T)" and key: "\<And>a. enc (te_hash T) n \<noteq> balance_key a"
    using assms by (auto simp: token_keys_ok_def)
  show ?thesis
    by (auto simp: Pair spend_iff [OF ok] ledger_spend_def ledger_of_def enc_inject [OF ok] public_balance_frame(2) [OF key])
qed

text \<open>
  C24. The private token refines the abstract ledger, call by call: minting and private transfers
  return exactly when the ledger operation does, and then the state of the contract abstracts to
  the ledger's result, so balances, supply, spent nullifiers and root are those of the ledger.
\<close>
theorem token_refines_ledger:
  assumes "token_keys_ok T"
  shows "map_option (ledger_of T) (token_mint e to amount st) = ledger_mint (env_is_owner e) to amount (ledger_of T st) \<and>
    map_option (ledger_of T) (token_spend T proof n c root ea sa st) =
      ledger_spend (update_root (te_sha T)) (verify_zk_proof (te_zk T) proof n c root) n c root (ledger_of T st)"
  using mint_refines [OF assms] spend_refines [OF assms] by blast

interpretation token_sim: simulation token_keys_ok token_step ledger_step ledger_of
proof unfold_locales
  fix T x y
  assume ok: "token_keys_ok T" and step: "token_step T x y"
  show "ledger_step T (ledger_of T x) (ledger_of T y)"
    using step
  proof (cases rule: token_step.cases)
    case (step_mint e to amount)
    then show ?thesis using mint_refines [OF ok, of e to amount x] by (auto intro: ledger_step_mint)
  next
    case (step_spend p n c root ea sa)
    then show ?thesis using spend_refines [OF ok, of p n c root ea sa x] by (auto intro: ledger_step_spend)
  qed
qed

subsection \<open>Supply\<close>

text \<open>The supply is backed by the balances of finitely many addresses.\<close>

definition ledger_backed :: "ledger \<Rightarrow> bool" where
  "ledger_backed L \<longleftrightarrow> (\<exists>A. finite A \<and> (\<forall>a. a \<notin> A \<longrightarrow> lg_balance L a = 0) \<and> lg_supply L = sum (lg_balance L) A)"

lemma ledger_backed_step: "ledger_step T L L' \<Longrightarrow> ledger_backed L \<Longrightarrow> ledger_backed L'"
proof (elim ledger_stepE)
  fix owner to amount
  assume b: "ledger_backed L" and m: "ledger_mint owner to amount L = Some L'"
  obtain A where A: "finite A" "\<forall>a. a \<notin> A \<longrightarrow> lg_balance L a = 0" "lg_supply L = sum (lg_balance L) A"
    using b by (auto simp: ledger_backed_def)
  let ?A = "insert to A"
  have "sum (lg_balance L) A = sum (lg_balance L) ?A"
    using A by (cases "to \<in> A") (simp_all add: insert_absorb)
  moreover have "sum (lg_balance L') ?A = sum (lg_balance L) ?A + amount"
    using A(1) m by (simp add: ledger_mint_def sum.insert_remove split: if_splits) (auto intro!: sum.cong)
  ultimately have "finite ?A \<and> (\<forall>a. a \<notin> ?A \<longrightarrow> lg_balance L' a = 0) \<and> lg_supply L' = sum (lg_balance L') ?A"
    using A m by (auto simp: ledger_mint_def split: if_splits)
  then show "ledger_backed L'" unfolding ledger_backed_def by blast
qed (auto simp: ledger_spend_def ledger_backed_def split: if_splits)

text \<open>
  After any sequence of calls by anybody on a new token, \<open>total_supply\<close> is the sum of the
  public balances (modulo \<open>2^128\<close>) over finitely many addresses outside which every balance is 0:
  private transfers neither create nor destroy public money.
\<close>
theorem token_supply_backed:
  assumes "token_keys_ok T" and "(token_step T)\<^sup>*\<^sup>* (private_token_new name symbol decimals, host_new) (s, h)"
  shows "\<exists>A. finite A \<and> (\<forall>a. a \<notin> A \<longrightarrow> get_public_balance a h = 0) \<and>
    tok_total_supply s = (\<Sum>a \<in> A. get_public_balance a h)"
proof -
  have "ledger_backed (ledger_of T (private_token_new name symbol decimals, host_new))"
    by (auto simp: ledger_backed_def ledger_of_def private_token_new_def get_public_balance_def storage_get_def host_new_def
        intro!: exI [of _ "{}"])
  from token_sim.transfer_invariant [where I = ledger_backed, OF assms this ledger_backed_step] show ?thesis
    by (simp add: ledger_backed_def ledger_of_def)
qed

subsection \<open>Instances\<close>

definition owner_env :: env where
  "owner_env = \<lparr>env_caller = Address [1], env_self = Address [9], env_timestamp = 0, env_block_height = 0,
     env_is_owner = True, env_is_protocol = (\<lambda>_. False), env_chain_id = 1, env_random = (\<lambda>n. replicate n 0)\<rparr>"

lemma sample_token_keys: "token_keys_ok sample_token_ext"
  by (simp add: token_keys_ok_def sample_token_ext_def balance_key_def)
    (simp add: enc_def hash_codec_def tag_codec_def)

theorem token_refines_ledger_witness:
  "\<exists>y z. token_mint owner_env (Address [5]) 7 sample_token = Some y \<and>
    token_spend sample_token_ext [] (Hash [1]) (Hash [2]) hash_zero [] (stealth_derive id [] [] 0) y = Some z \<and>
    lg_balance (ledger_of sample_token_ext y) (Address [5]) = 7 \<and> Hash [1] \<in> lg_spent (ledger_of sample_token_ext z)"
proof -
  note r = token_refines_ledger [OF sample_token_keys]
  have 0: "ledger_of sample_token_ext sample_token =
      \<lparr>lg_balance = (\<lambda>_. 0), lg_supply = 0, lg_spent = {}, lg_root = hash_zero\<rparr>"
    by (simp add: ledger_of_def sample_token_def private_token_new_def get_public_balance_def storage_get_def host_new_def)
  have "map_option (ledger_of sample_token_ext) (token_mint owner_env (Address [5]) 7 sample_token) =
      Some \<lparr>lg_balance = (\<lambda>_. 0)(Address [5] := 7), lg_supply = 7, lg_spent = {}, lg_root = hash_zero\<rparr>"
    using r by (simp add: 0 ledger_mint_def owner_env_def)
  then obtain y where y: "token_mint owner_env (Address [5]) 7 sample_token = Some y" "ledger_of sample_token_ext y =
      \<lparr>lg_balance = (\<lambda>_. 0)(Address [5] := 7), lg_supply = 7, lg_spent = {}, lg_root = hash_zero\<rparr>" by auto
  have v: "verify_zk_proof (te_zk sample_token_ext) [] (Hash [1]) (Hash [2]) hash_zero" by (simp add: sample_token_ext_def)
  have "\<exists>z. token_spend sample_token_ext [] (Hash [1]) (Hash [2]) hash_zero [] (stealth_derive id [] [] 0) y = Some z \<and>
      lg_spent (ledger_of sample_token_ext z) = {Hash [1]}"
    using r [THEN conjunct2, of "[]" "Hash [1]" "Hash [2]" hash_zero "[]" "stealth_derive id [] [] 0" y]
    by (auto simp: y(2) ledger_spend_def v)
  with y show ?thesis by auto
qed

theorem token_supply_backed_witness:
  "\<exists>s h. token_mint owner_env (Address [5]) 7 sample_token = Some (s, h) \<and>
    (\<exists>A. finite A \<and> tok_total_supply s = (\<Sum>a \<in> A. get_public_balance a h))"
proof -
  obtain s h where m: "token_mint owner_env (Address [5]) 7 sample_token = Some (s, h)"
    by (simp add: token_mint_def sample_token_def owner_env_def Let_def)
  then have "(token_step sample_token_ext)\<^sup>*\<^sup>* (private_token_new ''t'' ''T'' 18, host_new) (s, h)"
    unfolding sample_token_def by (blast intro: step_mint)
  from token_supply_backed [OF sample_token_keys this] m show ?thesis by blast
qed

end
