(* ===== verification/Bridge.thy ===== *)
theory Bridge
  imports Zk
begin

text \<open>
  \<^verbatim>\<open>src/contracts/bridge.rs\<close>: the cross-chain bridge contract, on the shared storage of \<open>Sdk\<close>. The
  \<open>Map\<close> and \<open>Set\<close> fields hold no state; what is left of the contract's own state never changes
  (\<open>validator_threshold\<close>), so the methods take the record and return the host. Parameters are the
  codecs, the proof checks of the host and the two names that the source uses without defining
  them, \<open>CHAIN_ID\<close> and \<open>verify_validator_signature\<close>.
\<close>

subsection \<open>Definitions\<close>

record bridge_chain =
  bc_chain_id :: u64
  bc_bridge_contract :: address
  bc_is_active :: bool
  bc_gas_limit :: u64
  bc_confirmation_blocks :: u64

record bridge_validator =
  bv_address :: address
  bv_stake :: u128
  bv_is_active :: bool
  bv_last_signature :: u64

datatype transfer_status = Pending | SourceConfirmed | SignaturesComplete | Executed | Failed

record pending_transfer =
  pt_transfer_id :: hash
  pt_source_chain :: u64
  pt_target_chain :: u64
  pt_sender :: address
  pt_receiver :: address
  pt_asset :: address
  pt_amount :: u128
  pt_signatures :: "(address \<times> bytes) list"
  pt_status :: transfer_status
  pt_timestamp :: u64
  pt_encrypted_amount :: "bytes option"
  pt_stealth_receiver :: "stealth_address option"

datatype bridge_event =
    TransferInitiated hash u64 u64 address address address u128
  | TransferSigned hash address u16
  | TransferExecuted hash u64 address u128
  | ChainAdded u64 address

record bridge =
  validator_threshold :: u16
  zk_vk :: bytes

record bridge_ext =
  be_sha :: "bytes \<Rightarrow> bytes"
  be_CHAIN_ID :: u64
  be_chain_id :: "u64 codec"
  be_chain :: "bridge_chain codec"
  be_asset_key :: "(u64 \<times> address) codec"
  be_address :: "address codec"
  be_u128 :: "u128 codec"
  be_validator :: "bridge_validator codec"
  be_hash :: "hash codec"
  be_transfer :: "pending_transfer codec"
  be_zk :: zk_host
  verify_validator_signature :: "address \<Rightarrow> hash \<Rightarrow> bytes \<Rightarrow> bool"

type_synonym bridge_host = "bridge_event host"

abbreviation supported_chains_get :: "bridge_ext \<Rightarrow> u64 \<Rightarrow> bridge_host \<Rightarrow> bridge_chain option" where
  "supported_chains_get B \<equiv> map_get (be_chain_id B) (be_chain B)"
abbreviation wrapped_assets_get :: "bridge_ext \<Rightarrow> u64 \<times> address \<Rightarrow> bridge_host \<Rightarrow> address option" where
  "wrapped_assets_get B \<equiv> map_get (be_asset_key B) (be_address B)"
abbreviation locked_assets_get :: "bridge_ext \<Rightarrow> u64 \<times> address \<Rightarrow> bridge_host \<Rightarrow> u128 option" where
  "locked_assets_get B \<equiv> map_get (be_asset_key B) (be_u128 B)"
abbreviation pending_transfers_get :: "bridge_ext \<Rightarrow> hash \<Rightarrow> bridge_host \<Rightarrow> pending_transfer option" where
  "pending_transfers_get B \<equiv> map_get (be_hash B) (be_transfer B)"

definition bridge_new :: "u16 \<Rightarrow> bridge" where
  "bridge_new threshold = \<lparr>validator_threshold = threshold, zk_vk = []\<rparr>"

definition add_chain :: "bridge_ext \<Rightarrow> env \<Rightarrow> u64 \<Rightarrow> address \<Rightarrow> u64 \<Rightarrow> bridge_host \<Rightarrow> bridge_host option" where
  "add_chain B e chain_id bridge_contract confirmation_blocks h = do {
     require (env_is_owner e);
     require (\<not> map_contains_key (be_chain_id B) (be_chain B) chain_id h);
     let config = \<lparr>bc_chain_id = chain_id, bc_bridge_contract = bridge_contract, bc_is_active = True,
                   bc_gas_limit = 500000, bc_confirmation_blocks = confirmation_blocks\<rparr>;
     h \<leftarrow> map_insert (be_chain_id B) (be_chain B) chain_id config h;
     Some (emit (ChainAdded chain_id bridge_contract) h)
   }"

definition register_wrapped_asset ::
    "bridge_ext \<Rightarrow> env \<Rightarrow> u64 \<Rightarrow> address \<Rightarrow> address \<Rightarrow> bridge_host \<Rightarrow> bridge_host option" where
  "register_wrapped_asset B e chain_id remote_asset local_asset h = do {
     require (env_is_owner e);
     map_insert (be_asset_key B) (be_address B) (chain_id, remote_asset) local_asset h
   }"

definition add_bridge_validator :: "bridge_ext \<Rightarrow> env \<Rightarrow> address \<Rightarrow> u128 \<Rightarrow> bridge_host \<Rightarrow> bridge_host option" where
  "add_bridge_validator B e validator stake h = do {
     require (env_is_owner e);
     let info = \<lparr>bv_address = validator, bv_stake = stake, bv_is_active = True, bv_last_signature = 0\<rparr>;
     map_insert (be_address B) (be_validator B) validator info h
   }"

definition generate_transfer_id ::
    "bridge_ext \<Rightarrow> env \<Rightarrow> u64 \<Rightarrow> address \<Rightarrow> address \<Rightarrow> address \<Rightarrow> u128 \<Rightarrow> hash" where
  "generate_transfer_id B e target_chain sender receiver asset amount =
     hash_new (be_sha B) (u64_le target_chain @ address_bytes sender @ address_bytes receiver @
       address_bytes asset @ u128_le amount @ u64_le (env_timestamp e) @ env_random e 32)"

definition initiate_transfer ::
    "bridge_ext \<Rightarrow> env \<Rightarrow> u64 \<Rightarrow> address \<Rightarrow> address \<Rightarrow> u128 \<Rightarrow> bridge_host \<Rightarrow> (hash \<times> bridge_host) option" where
  "initiate_transfer B e target_chain receiver asset amount h = do {
     chain \<leftarrow> supported_chains_get B target_chain h;
     require (bc_is_active chain);
     let sender = env_caller e;
     let transfer_id = generate_transfer_id B e target_chain sender receiver asset amount;
     completed \<leftarrow> set_contains (be_hash B) transfer_id h;
     require (\<not> completed);
     let h = token_transfer_from asset sender (env_self e) amount h;
     let key = (target_chain, asset);
     let current = unwrap_or (locked_assets_get B key h) 0;
     h \<leftarrow> map_insert (be_asset_key B) (be_u128 B) key (current + amount) h;
     let transfer = \<lparr>pt_transfer_id = transfer_id, pt_source_chain = be_CHAIN_ID B, pt_target_chain = target_chain,
                     pt_sender = sender, pt_receiver = receiver, pt_asset = asset, pt_amount = amount,
                     pt_signatures = [], pt_status = Pending, pt_timestamp = env_timestamp e,
                     pt_encrypted_amount = None, pt_stealth_receiver = None\<rparr>;
     h \<leftarrow> map_insert (be_hash B) (be_transfer B) transfer_id transfer h;
     Some (transfer_id,
       emit (TransferInitiated transfer_id (be_CHAIN_ID B) target_chain sender receiver asset amount) h)
   }"

definition initiate_private_transfer ::
    "bridge_ext \<Rightarrow> env \<Rightarrow> u64 \<Rightarrow> stealth_address \<Rightarrow> address \<Rightarrow> bytes \<Rightarrow> hash \<Rightarrow> bytes \<Rightarrow> bridge_host
      \<Rightarrow> (hash \<times> bridge_host) option" where
  "initiate_private_transfer B e target_chain stealth asset enc_amount commitment zk_proof h = do {
     require (verify_bridge_amount_proof (be_zk B) zk_proof asset commitment);
     let sender = env_caller e;
     let transfer_id = hash_new (be_sha B)
           (u64_le target_chain @ address_bytes sender @ enc_amount @ u64_le (env_timestamp e));
     let h = lock_private_assets asset sender commitment h;
     let transfer = \<lparr>pt_transfer_id = transfer_id, pt_source_chain = be_CHAIN_ID B, pt_target_chain = target_chain,
                     pt_sender = sender, pt_receiver = address_new (be_sha B) (replicate 32 0), pt_asset = asset,
                     pt_amount = 0, pt_signatures = [], pt_status = Pending, pt_timestamp = env_timestamp e,
                     pt_encrypted_amount = Some enc_amount, pt_stealth_receiver = Some stealth\<rparr>;
     h \<leftarrow> map_insert (be_hash B) (be_transfer B) transfer_id transfer h;
     Some (transfer_id, h)
   }"

definition sign_transfer ::
    "bridge_ext \<Rightarrow> bridge \<Rightarrow> env \<Rightarrow> hash \<Rightarrow> bytes \<Rightarrow> bytes \<Rightarrow> bridge_host \<Rightarrow> bridge_host option" where
  "sign_transfer B b e transfer_id signature merkle_proof h = do {
     let validator = env_caller e;
     info \<leftarrow> map_get (be_address B) (be_validator B) validator h;
     require (bv_is_active info);
     transfer \<leftarrow> pending_transfers_get B transfer_id h;
     require (pt_status transfer = Pending \<or> pt_status transfer = SourceConfirmed);
     require (verify_validator_signature B validator transfer_id signature);
     require (verify_merkle_proof (be_zk B) merkle_proof transfer_id);
     let transfer = transfer\<lparr>pt_signatures := pt_signatures transfer @ [(validator, signature)]\<rparr>;
     let sig_count = word_of_nat (length (pt_signatures transfer));
     let transfer = (if sig_count \<ge> validator_threshold b then transfer\<lparr>pt_status := SignaturesComplete\<rparr>
                     else transfer\<lparr>pt_status := SourceConfirmed\<rparr>);
     h \<leftarrow> map_insert (be_hash B) (be_transfer B) transfer_id transfer h;
     Some (emit (TransferSigned transfer_id validator sig_count) h)
   }"

text \<open>The release of the locked tokens, \<open>transfer(\<dots>)\<close> in the source, is the SDK's token transfer.\<close>

definition execute_bridge_transfer :: "bridge_ext \<Rightarrow> env \<Rightarrow> hash \<Rightarrow> bridge_host \<Rightarrow> bridge_host option" where
  "execute_bridge_transfer B e transfer_id h = do {
     transfer \<leftarrow> pending_transfers_get B transfer_id h;
     require (pt_status transfer = SignaturesComplete);
     require (pt_target_chain transfer = be_CHAIN_ID B);
     completed \<leftarrow> set_contains (be_hash B) transfer_id h;
     require (\<not> completed);
     let key = (pt_source_chain transfer, pt_asset transfer);
     h \<leftarrow> (case wrapped_assets_get B key h of
             Some wrapped \<Rightarrow> Some (mint_wrapped_tokens wrapped (pt_receiver transfer) (pt_amount transfer) h)
           | None \<Rightarrow> do {
               let current = unwrap_or (locked_assets_get B key h) 0;
               require (current \<ge> pt_amount transfer);
               h \<leftarrow> map_insert (be_asset_key B) (be_u128 B) key (current - pt_amount transfer) h;
               Some (token_transfer (pt_asset transfer) (pt_receiver transfer) (pt_amount transfer) h)
             });
     h \<leftarrow> set_insert (be_hash B) transfer_id h;
     h \<leftarrow> map_remove (be_hash B) transfer_id h;
     Some (emit (TransferExecuted transfer_id (be_CHAIN_ID B) (pt_receiver transfer) (pt_amount transfer)) h)
   }"

definition update_merkle_root :: "bridge_ext \<Rightarrow> u64 \<Rightarrow> hash \<Rightarrow> bytes \<Rightarrow> bridge_host \<Rightarrow> bridge_host option" where
  "update_merkle_root B chain_id new_root zk_proof h = do {
     require (verify_merkle_update_proof (be_zk B) zk_proof chain_id new_root);
     map_insert (be_chain_id B) (be_hash B) chain_id new_root h
   }"

definition get_wrapped_asset :: "bridge_ext \<Rightarrow> u64 \<Rightarrow> address \<Rightarrow> bridge_host \<Rightarrow> address option" where
  "get_wrapped_asset B chain_id remote_asset h = wrapped_assets_get B (chain_id, remote_asset) h"

definition get_locked_amount :: "bridge_ext \<Rightarrow> u64 \<Rightarrow> address \<Rightarrow> bridge_host \<Rightarrow> u128" where
  "get_locked_amount B chain_id asset h = unwrap_or (locked_assets_get B (chain_id, asset) h) 0"

definition get_transfer_status :: "bridge_ext \<Rightarrow> hash \<Rightarrow> bridge_host \<Rightarrow> transfer_status option" where
  "get_transfer_status B transfer_id h = map_option pt_status (pending_transfers_get B transfer_id h)"

definition get_bridge_validator_count :: "bridge_ext \<Rightarrow> bridge_host \<Rightarrow> nat" where
  "get_bridge_validator_count B h = map_len (be_address B) (be_validator B) h"

subsection \<open>Properties\<close>

text \<open>
  No transfer is ever executed, on any chain and in any state: a pending transfer is stored under
  the key under which the set of completed transfers looks it up, so it always counts as completed
  already and the call panics. Nothing that the bridge locked is released.
\<close>
theorem execute_transfer_never_succeeds:
  "execute_bridge_transfer B e transfer_id h = None"
proof (cases "pending_transfers_get B transfer_id h")
  case None
  then show ?thesis by (simp add: execute_bridge_transfer_def)
next
  case (Some t)
  then obtain k v where k: "to_vec (be_hash B) transfer_id = Some k" "storage_get k h = Some v"
    by (auto simp: map_get_def Option.bind_eq_Some_conv)
  then have "set_contains (be_hash B) transfer_id h = Some True" by (simp add: set_contains_def)
  then show ?thesis using Some
    by (auto simp: execute_bridge_transfer_def require_def)
qed

text \<open>The encodings that the contract uses as keys, and that none of them is used for two types.\<close>

definition bridge_codecs_ok :: "bridge_ext \<Rightarrow> bool" where
  "bridge_codecs_ok B \<longleftrightarrow> codec_ok (be_chain_id B) \<and> codec_ok (be_asset_key B) \<and> codec_ok (be_address B) \<and>
     codec_ok (be_u128 B) \<and> codec_ok (be_hash B) \<and>
     (\<forall>t. to_vec (be_transfer B) t \<noteq> None) \<and>
     (\<forall>i k x. enc (be_chain_id B) i \<noteq> enc (be_asset_key B) k \<and> enc (be_chain_id B) i \<noteq> enc (be_hash B) x \<and>
        enc (be_asset_key B) k \<noteq> enc (be_hash B) x)"

lemma bridge_codecs_okD:
  assumes "bridge_codecs_ok B"
  shows "codec_ok (be_chain_id B)" "codec_ok (be_asset_key B)" "codec_ok (be_address B)"
    "codec_ok (be_u128 B)" "codec_ok (be_hash B)" "to_vec (be_transfer B) t = Some (enc (be_transfer B) t)"
    "enc (be_chain_id B) i \<noteq> enc (be_asset_key B) k" "enc (be_chain_id B) i \<noteq> enc (be_hash B) x"
    "enc (be_asset_key B) k \<noteq> enc (be_hash B) x"
  using assms unfolding bridge_codecs_ok_def enc_def by (metis option.exhaust_sel)+

lemma insert_transfer:
  "bridge_codecs_ok B \<Longrightarrow> map_insert (be_hash B) (be_transfer B) t x h =
    Some (storage_set (enc (be_hash B) t) (enc (be_transfer B) x) h)"
  by (simp add: map_insert_def bridge_codecs_okD codec_enc)

lemmas bridge_simps = map_get_storage map_insert_ok codec_dec enc_inject set_contains_ok insert_transfer

text \<open>
  Initiating a transfer on an active chain, with an id that is not stored: it draws the tokens,
  adds the amount to the locked assets of that chain and asset, and stores the transfer under its
  id. It also erases the wrapped asset registered for that chain and asset, because both maps use
  the same key; other wrapped assets stay.
\<close>
theorem initiate_transfer_spec:
  assumes "bridge_codecs_ok B" and "supported_chains_get B chain h = Some cfg" and "bc_is_active cfg"
    and "storage_get (enc (be_hash B) (generate_transfer_id B e chain (env_caller e) receiver asset amount)) h = None"
    and "\<And>n. from_slice (be_address B) (enc (be_u128 B) n) = None"
  shows "\<exists>tid h'. initiate_transfer B e chain receiver asset amount h = Some (tid, h') \<and>
    h_calls h' = h_calls h @ [CallTransferFrom asset (env_caller e) (env_self e) amount] \<and>
    get_locked_amount B chain asset h' = get_locked_amount B chain asset h + amount \<and>
    get_wrapped_asset B chain asset h' = None \<and>
    (\<forall>c a. (c, a) \<noteq> (chain, asset) \<longrightarrow> get_wrapped_asset B c a h' = get_wrapped_asset B c a h) \<and>
    storage_get (enc (be_hash B) tid) h' \<noteq> None \<and> supported_chains_get B chain h' = Some cfg"
proof -
  note c = bridge_codecs_okD [OF assms(1)]
  note nc = c(7-9) c(7) [symmetric] c(8) [symmetric] c(9) [symmetric]
  show ?thesis
    using assms
    by (simp add: initiate_transfer_def Let_def call_defs bridge_simps c(1-6) nc
        get_locked_amount_def get_wrapped_asset_def)
qed

text \<open>
  A light-client update disables the chain it is for: the root is stored under the key of the
  chain's configuration, so afterwards the chain is not supported and every transfer to it panics,
  while the owner can register it again.
\<close>
theorem merkle_update_disables_chain:
  assumes "bridge_codecs_ok B" and "from_slice (be_chain B) (enc (be_hash B) root) = None"
    and "update_merkle_root B chain root proof h = Some h'"
  shows "supported_chains_get B chain h' = None \<and> initiate_transfer B e chain receiver asset amount h' = None \<and>
    map_contains_key (be_chain_id B) (be_chain B) chain h' = False"
proof -
  note c = bridge_codecs_okD [OF assms(1)]
  have "supported_chains_get B chain h' = None"
    using assms by (auto simp: update_merkle_root_def bridge_simps c Option.bind_eq_Some_conv)
  then show ?thesis by (simp add: initiate_transfer_def map_contains_key_def)
qed

text \<open>
  One validator is enough for any threshold that fits: the signatures of a transfer are not
  checked to come from different validators, so an active validator that signs a fresh transfer as
  often as the threshold asks completes it alone.
\<close>
theorem one_validator_completes:
  assumes "codec_ok (be_hash B)" and "codec_ok (be_address B)"
    and "\<And>k st. \<exists>v. to_vec (be_transfer B) (t\<lparr>pt_signatures := replicate k (env_caller e, sig), pt_status := st\<rparr>) = Some v \<and>
      from_slice (be_transfer B) v = Some (t\<lparr>pt_signatures := replicate k (env_caller e, sig), pt_status := st\<rparr>)"
    and "\<And>x. enc (be_address B) (env_caller e) \<noteq> enc (be_hash B) x"
    and "map_get (be_address B) (be_validator B) (env_caller e) h = Some info" and "bv_is_active info"
    and "verify_validator_signature B (env_caller e) tid sig" and "verify_merkle_proof (be_zk B) mproof tid"
    and "pending_transfers_get B tid h = Some t" and "pt_status t = Pending" and "pt_signatures t = []"
    and "unat (validator_threshold b) = Suc n"
  shows "\<exists>h'. ((\<lambda>h. Option.bind h (sign_transfer B b e tid sig mproof)) ^^ Suc n) (Some h) = Some h' \<and>
    get_transfer_status B tid h' = Some SignaturesComplete"
proof -
  let ?sigs = "\<lambda>k. replicate k (env_caller e, sig)"
  have th: "Suc n < 2 ^ LENGTH(16)" using unsigned_less [of "validator_threshold b"] assms(12) by metis
  have step: "\<exists>h''. sign_transfer B b e tid sig mproof h' = Some h'' \<and>
      map_get (be_address B) (be_validator B) (env_caller e) h'' = Some info \<and>
      pending_transfers_get B tid h'' = Some (t\<lparr>pt_signatures := ?sigs (Suc k),
        pt_status := if validator_threshold b \<le> word_of_nat (Suc k) then SignaturesComplete else SourceConfirmed\<rparr>)"
    if "map_get (be_address B) (be_validator B) (env_caller e) h' = Some info"
      "pending_transfers_get B tid h' = Some (t\<lparr>pt_signatures := ?sigs k, pt_status := st\<rparr>)"
      "st = Pending \<or> st = SourceConfirmed" for h' k st
  proof -
    define st' where "st' = (if validator_threshold b \<le> word_of_nat (Suc k) then SignaturesComplete else SourceConfirmed)"
    obtain v where v: "to_vec (be_transfer B) (t\<lparr>pt_signatures := ?sigs (Suc k), pt_status := st'\<rparr>) = Some v"
      "from_slice (be_transfer B) v = Some (t\<lparr>pt_signatures := ?sigs (Suc k), pt_status := st'\<rparr>)"
      using assms(3) by blast
    have "sign_transfer B b e tid sig mproof h' =
        Option.bind (map_insert (be_hash B) (be_transfer B) tid (t\<lparr>pt_signatures := ?sigs (Suc k), pt_status := st'\<rparr>) h')
          (\<lambda>h. Some (emit (TransferSigned tid (env_caller e) (word_of_nat (Suc k))) h))"
      using assms(6-8) that
      by (simp add: sign_transfer_def Let_def st'_def replicate_append_same)
    then show ?thesis
      unfolding st'_def [symmetric] using v assms(1,2,4) that(1)
      by (simp add: map_insert_def codec_enc map_get_storage)
  qed
  have "\<exists>h' st. ((\<lambda>h. Option.bind h (sign_transfer B b e tid sig mproof)) ^^ k) (Some h) = Some h' \<and>
      map_get (be_address B) (be_validator B) (env_caller e) h' = Some info \<and>
      pending_transfers_get B tid h' = Some (t\<lparr>pt_signatures := ?sigs k, pt_status := st\<rparr>) \<and>
      st = (if k = 0 then Pending else if k = Suc n then SignaturesComplete else SourceConfirmed)"
    if "k \<le> Suc n" for k
    using that
  proof (induction k)
    case 0
    then show ?case using assms(5,9,10,11) by (cases t) simp
  next
    case (Suc k)
    then obtain h1 st where 1: "((\<lambda>h. Option.bind h (sign_transfer B b e tid sig mproof)) ^^ k) (Some h) = Some h1"
      "map_get (be_address B) (be_validator B) (env_caller e) h1 = Some info"
      "pending_transfers_get B tid h1 = Some (t\<lparr>pt_signatures := ?sigs k, pt_status := st\<rparr>)"
      "st = Pending \<or> st = SourceConfirmed"
      by auto
    have "unat (word_of_nat (Suc k) :: u16) = Suc k"
      using Suc.prems th by (simp add: unat_of_nat del: of_nat_Suc)
    then have "validator_threshold b \<le> word_of_nat (Suc k) \<longleftrightarrow> Suc k = Suc n"
      using Suc.prems assms(12) by (simp only: word_le_nat_alt) auto
    then show ?case using step [OF 1(2-4)] 1(1) by auto
  qed
  from this [of "Suc n"] show ?thesis by (auto simp: get_transfer_status_def)
qed

subsection \<open>Instances\<close>

definition sample_chain :: bridge_chain where
  "sample_chain = \<lparr>bc_chain_id = 1, bc_bridge_contract = Address [8], bc_is_active = True, bc_gas_limit = 500000,
     bc_confirmation_blocks = 6\<rparr>"

definition sample_validator_info :: bridge_validator where
  "sample_validator_info = \<lparr>bv_address = Address [3], bv_stake = 1, bv_is_active = True, bv_last_signature = 0\<rparr>"

definition sample_transfer :: pending_transfer where
  "sample_transfer = \<lparr>pt_transfer_id = Hash [7], pt_source_chain = 1, pt_target_chain = 2, pt_sender = Address [1],
     pt_receiver = Address [2], pt_asset = Address [4], pt_amount = 5, pt_signatures = [], pt_status = Pending,
     pt_timestamp = 0, pt_encrypted_amount = None, pt_stealth_receiver = None\<rparr>"

text \<open>A codec of transfers that is right for \<open>sample_transfer\<close> with any number of signatures of validator 3.\<close>

definition status_bytes :: "transfer_status \<Rightarrow> bytes" where
  "status_bytes st = (case st of Pending \<Rightarrow> [0] | SourceConfirmed \<Rightarrow> [1] | SignaturesComplete \<Rightarrow> [2] | Executed \<Rightarrow> [3] | Failed \<Rightarrow> [4])"

definition bytes_status :: "u8 \<Rightarrow> transfer_status" where
  "bytes_status b = (if b = 0 then Pending else if b = 1 then SourceConfirmed else if b = 2 then SignaturesComplete
     else if b = 3 then Executed else Failed)"

definition sample_bridge_ext :: bridge_ext where
  "sample_bridge_ext = \<lparr>be_sha = (\<lambda>b. b), be_CHAIN_ID = 1, be_chain_id = u64_codec,
     be_chain = \<lparr>to_vec = (\<lambda>c. Some [9]), from_slice = (\<lambda>b. if b = [9] then Some sample_chain else None)\<rparr>,
     be_asset_key = tag_codec 8 (\<lambda>(c, a). u64_le c @ address_bytes a)
       (\<lambda>b. Some (word_of_nat (from_le (take 8 b)), Address (drop 8 b))),
     be_address = addr_codec, be_u128 = u128_codec,
     be_validator = \<lparr>to_vec = (\<lambda>v. Some [10]), from_slice = (\<lambda>b. if b = [10] then Some sample_validator_info else None)\<rparr>,
     be_hash = hash_codec,
     be_transfer = \<lparr>to_vec = (\<lambda>t. Some (status_bytes (pt_status t) @ replicate (length (pt_signatures t)) 0)),
       from_slice = (\<lambda>b. case b of [] \<Rightarrow> None | c # bs \<Rightarrow> Some (sample_transfer\<lparr>pt_signatures :=
         replicate (length bs) (Address [3], [3]), pt_status := bytes_status c\<rparr>))\<rparr>,
     be_zk = zk_accepting, verify_validator_signature = (\<lambda>v t s. True)\<rparr>"

definition bridge_env :: env where
  "bridge_env = \<lparr>env_caller = Address [3], env_self = Address [99], env_timestamp = 0, env_block_height = 0,
     env_is_owner = True, env_is_protocol = (\<lambda>a. True), env_chain_id = 1, env_random = (\<lambda>n. replicate n 0)\<rparr>"

definition sample_bridge_host :: bridge_host where
  "sample_bridge_host = storage_set (4 # u64_le 1) [9] (storage_set [1, 3] [10] (storage_set [2, 7] [0] host_new))"

lemma sample_bridge_ok: "bridge_codecs_ok sample_bridge_ext"
proof -
  have "codec_ok (be_asset_key sample_bridge_ext)"
    by (simp add: sample_bridge_ext_def tag_codec_ok split_def del: le_bytes.simps)
  then show ?thesis
    by (simp add: bridge_codecs_ok_def sample_bridge_ext_def)
      (auto simp: u64_codec_def hash_codec_def)
qed

lemma sample_bridge_host_get:
  "supported_chains_get sample_bridge_ext 1 sample_bridge_host = Some sample_chain"
  "map_get (be_address sample_bridge_ext) (be_validator sample_bridge_ext) (Address [3]) sample_bridge_host = Some sample_validator_info"
  "pending_transfers_get sample_bridge_ext (Hash [7]) sample_bridge_host = Some sample_transfer"
  by (simp_all add: map_get_def sample_bridge_ext_def sample_bridge_host_def u64_codec_def addr_codec_def hash_codec_def
      bytes_status_def) (simp_all add: sample_transfer_def)

theorem initiate_transfer_spec_witness:
  "\<exists>tid h'. initiate_transfer sample_bridge_ext bridge_env 1 (Address [2]) (Address [4]) 5 sample_bridge_host = Some (tid, h') \<and>
    get_locked_amount sample_bridge_ext 1 (Address [4]) h' = get_locked_amount sample_bridge_ext 1 (Address [4]) sample_bridge_host + 5"
proof -
  let ?g = "generate_transfer_id sample_bridge_ext bridge_env 1 (env_caller bridge_env) (Address [2]) (Address [4]) 5"
  have "length (hash_bytes ?g) > 1"
    by (simp add: generate_transfer_id_def hash_new_def sample_bridge_ext_def)
  then have "storage_get (2 # hash_bytes ?g) sample_bridge_host = None"
    by (auto simp: sample_bridge_host_def) (simp add: storage_get_def host_new_def)
  moreover have "enc (be_hash sample_bridge_ext) x = 2 # hash_bytes x" for x
    by (simp add: sample_bridge_ext_def hash_codec_def)
  ultimately have "storage_get (enc (be_hash sample_bridge_ext) ?g) sample_bridge_host = None" by simp
  then show ?thesis
    using initiate_transfer_spec [OF sample_bridge_ok sample_bridge_host_get(1), where amount = 5 and asset = "Address [4]"
        and receiver = "Address [2]" and e = bridge_env]
    by (force simp: sample_chain_def sample_bridge_ext_def addr_codec_def u128_codec_def)
qed

theorem merkle_update_disables_chain_witness:
  "\<exists>h'. update_merkle_root sample_bridge_ext 1 (Hash [5]) [] sample_bridge_host = Some h' \<and>
    supported_chains_get sample_bridge_ext 1 h' = None"
proof -
  obtain h' where h': "update_merkle_root sample_bridge_ext 1 (Hash [5]) [] sample_bridge_host = Some h'"
    by (simp add: update_merkle_root_def sample_bridge_ext_def map_insert_ok)
  have "from_slice (be_chain sample_bridge_ext) (enc (be_hash sample_bridge_ext) (Hash [5])) = None"
    by (simp add: sample_bridge_ext_def hash_codec_def)
  from merkle_update_disables_chain [OF sample_bridge_ok this h'] h' show ?thesis by blast
qed

theorem one_validator_completes_witness:
  "\<exists>h'. ((\<lambda>h. Option.bind h (sign_transfer sample_bridge_ext (bridge_new 3) bridge_env (Hash [7]) [3] [])) ^^ 3)
      (Some sample_bridge_host) = Some h' \<and> get_transfer_status sample_bridge_ext (Hash [7]) h' = Some SignaturesComplete"
proof -
  have c: "\<exists>v. to_vec (be_transfer sample_bridge_ext) (sample_transfer\<lparr>pt_signatures := replicate k (env_caller bridge_env, [3]), pt_status := st\<rparr>) = Some v \<and>
      from_slice (be_transfer sample_bridge_ext) v = Some (sample_transfer\<lparr>pt_signatures := replicate k (env_caller bridge_env, [3]), pt_status := st\<rparr>)"
    for k st
    by (cases st) (simp_all add: sample_bridge_ext_def status_bytes_def bytes_status_def bridge_env_def)
  note d = bridge_codecs_okD [OF sample_bridge_ok]
  have "\<exists>h'. ((\<lambda>h. Option.bind h (sign_transfer sample_bridge_ext (bridge_new 3) bridge_env (Hash [7]) [3] [])) ^^ Suc 2)
      (Some sample_bridge_host) = Some h' \<and> get_transfer_status sample_bridge_ext (Hash [7]) h' = Some SignaturesComplete"
    by (rule one_validator_completes [OF d(5,3) c, where info = sample_validator_info])
      (use sample_bridge_host_get in \<open>simp_all add: bridge_env_def bridge_new_def\<close>,
       simp_all add: sample_bridge_ext_def addr_codec_def hash_codec_def sample_validator_info_def sample_transfer_def)
  then show ?thesis by (simp only: eval_nat_numeral BitM.simps)
qed

end
