(* ===== verification/BridgeLog.thy ===== *)
theory BridgeLog
  imports Bridge Simulation
begin

text \<open>
  The bridge of \<^verbatim>\<open>src/contracts/bridge.rs\<close> over any sequence of calls by any callers: \<open>bridge_step\<close> has one
  rule per entry point that changes the host. The log of initiated transfers and the tokens drawn in
  agree, and nothing is ever paid out, on whatever chain the contract runs.
\<close>

subsection \<open>Calls\<close>

inductive bridge_step :: "bridge_ext \<Rightarrow> bridge \<Rightarrow> bridge_host \<Rightarrow> bridge_host \<Rightarrow> bool" for B b where
  chain: "add_chain B e c a n h = Some h' \<Longrightarrow> bridge_step B b h h'"
| asset: "register_wrapped_asset B e c r l h = Some h' \<Longrightarrow> bridge_step B b h h'"
| validator: "add_bridge_validator B e v st h = Some h' \<Longrightarrow> bridge_step B b h h'"
| initiate: "initiate_transfer B e c r a x h = Some (t, h') \<Longrightarrow> bridge_step B b h h'"
| initiate_private: "initiate_private_transfer B e c s a x m p h = Some (t, h') \<Longrightarrow> bridge_step B b h h'"
| sign: "sign_transfer B b e t s p h = Some h' \<Longrightarrow> bridge_step B b h h'"
| execute: "execute_bridge_transfer B e t h = Some h' \<Longrightarrow> bridge_step B b h h'"
| update: "update_merkle_root B c r p h = Some h' \<Longrightarrow> bridge_step B b h h'"

text \<open>The transfers that were initiated publicly: asset, sender and amount.\<close>

definition drawn_in :: "bridge_host \<Rightarrow> (address \<times> address \<times> u128) list" where
  "drawn_in h = List.map_filter (\<lambda>c. case c of CallTransferFrom a s r x \<Rightarrow> Some (a, s, x) | _ \<Rightarrow> None) (h_calls h)"

definition initiated :: "bridge_host \<Rightarrow> (address \<times> address \<times> u128) list" where
  "initiated h = List.map_filter
     (\<lambda>e. case e of TransferInitiated t c d s r a x \<Rightarrow> Some (a, s, x) | _ \<Rightarrow> None) (h_events h)"

text \<open>A call that brings tokens into the contract, and an event that is no execution.\<close>

definition takes :: "token_call \<Rightarrow> bool" where
  "takes c \<longleftrightarrow> (case c of CallTransferFrom a s r x \<Rightarrow> True | CallLockPrivate a s m \<Rightarrow> True | _ \<Rightarrow> False)"

definition pays :: "bridge_event \<Rightarrow> bool" where
  "pays e \<longleftrightarrow> (case e of TransferExecuted t c r x \<Rightarrow> True | _ \<Rightarrow> False)"

definition bridge_inv :: "bridge_host \<Rightarrow> bool" where
  "bridge_inv h \<longleftrightarrow> drawn_in h = initiated h \<and> (\<forall>c \<in> set (h_calls h). takes c) \<and>
     (\<forall>e \<in> set (h_events h). \<not> pays e)"

lemma drawn_simps [simp]:
  "drawn_in (storage_set k v h) = drawn_in h" "drawn_in (emit e h) = drawn_in h"
  "drawn_in (host_call c h) = drawn_in h @ (case c of CallTransferFrom a s r x \<Rightarrow> [(a, s, x)] | _ \<Rightarrow> [])"
  "initiated (storage_set k v h) = initiated h" "initiated (host_call c h) = initiated h"
  "initiated (emit e h) = initiated h @ (case e of TransferInitiated t c d s r a x \<Rightarrow> [(a, s, x)] | _ \<Rightarrow> [])"
  by (simp_all add: drawn_in_def initiated_def List.map_filter_def split: token_call.split bridge_event.split)

lemma bridge_inv_simps [simp]:
  "bridge_inv (storage_set k v h) = bridge_inv h"
  "bridge_inv h \<Longrightarrow> \<not> pays e \<Longrightarrow> initiated (emit e h) = initiated h \<Longrightarrow> bridge_inv (emit e h)"
  by (simp_all add: bridge_inv_def ball_Un del: drawn_simps(6))

lemma bridge_step_inv: "bridge_step B b h h' \<Longrightarrow> bridge_inv h \<Longrightarrow> bridge_inv h'"
proof (induction rule: bridge_step.induct)
  case (initiate e c r a x h t h')
  then show ?case
    by (auto simp: initiate_transfer_def Let_def Option.bind_eq_Some_conv map_insert_Some call_defs)
      (auto simp: bridge_inv_def takes_def pays_def)
next
  case (initiate_private e c s a x m p h t h')
  then show ?case
    by (auto simp: initiate_private_transfer_def Let_def Option.bind_eq_Some_conv map_insert_Some call_defs)
      (auto simp: bridge_inv_def takes_def pays_def)
next
  case (sign e t s p h h')
  then show ?case
    by (auto simp: sign_transfer_def Let_def Option.bind_eq_Some_conv map_insert_Some pays_def split: if_splits)
next
  case (execute e t h h')
  then show ?case by (simp add: execute_transfer_never_succeeds)
qed (auto simp: add_chain_def register_wrapped_asset_def add_bridge_validator_def update_merkle_root_def
    Let_def Option.bind_eq_Some_conv map_insert_Some pays_def)

interpretation bridge_calls: step_invariant "\<lambda>_. True" "\<lambda>(B, b). bridge_step B b" "\<lambda>_. bridge_inv"
  by unfold_locales (auto intro: bridge_step_inv)

text \<open>
  C11. The bridge only takes. Over any calls of any callers, on the source and on the target chain alike,
  every token call of the contract draws tokens in or locks private assets; what was drawn in is exactly
  what the log says was initiated, in the same order; no transfer is ever executed, so nothing is minted,
  released or paid back.
\<close>
theorem bridge_only_takes:
  assumes "(bridge_step B b)\<^sup>*\<^sup>* host_new h"
  shows "drawn_in h = initiated h \<and> (\<forall>c \<in> set (h_calls h). takes c) \<and>
    (\<forall>e \<in> set (h_events h). \<not> pays e) \<and> execute_bridge_transfer B e tid h = None"
proof -
  have "bridge_inv host_new"
    by (simp add: bridge_inv_def host_new_def drawn_in_def initiated_def List.map_filter_simps)
  then have "bridge_inv h" using bridge_calls.reach_inv [of "(B, b)" host_new h] assms by simp
  then show ?thesis by (simp add: bridge_inv_def execute_transfer_never_succeeds)
qed

theorem bridge_only_takes_witness:
  "\<exists>h. (bridge_step sample_bridge_ext (bridge_new 3))\<^sup>*\<^sup>* host_new h \<and>
    h_calls h = [CallTransferFrom (Address [4]) (Address [3]) (Address [99]) 5] \<and>
    initiated h = [(Address [4], Address [3], 5)]"
proof -
  let ?B = sample_bridge_ext and ?e = bridge_env
  note d = bridge_codecs_okD [OF sample_bridge_ok]
  let ?h1 = "emit (ChainAdded 1 (Address [8])) (storage_set (enc (be_chain_id ?B) 1) [9] host_new) :: bridge_host"
  have none: "supported_chains_get ?B 1 host_new = None" by (rule map_get_new)
  have add: "add_chain ?B ?e 1 (Address [8]) 6 host_new = Some ?h1"
    using none by (simp add: add_chain_def bridge_env_def map_contains_key_def Let_def map_insert_def d codec_enc)
      (simp add: sample_bridge_ext_def)
  have chain: "supported_chains_get ?B 1 ?h1 = Some sample_chain"
    by (simp add: map_get_storage d) (simp add: sample_bridge_ext_def)
  have "storage_get (enc (be_hash ?B) x) ?h1 = None" for x
    using d(8) [of 1 x] by (simp add: storage_get_def [of _ host_new]) (simp add: host_new_def eq_commute)
  moreover have "from_slice (be_address ?B) (enc (be_u128 ?B) n) = None" for n
    by (simp add: sample_bridge_ext_def addr_codec_def u128_codec_def)
  ultimately obtain t h where i: "initiate_transfer ?B ?e 1 (Address [2]) (Address [4]) 5 ?h1 = Some (t, h)"
    and calls: "h_calls h = h_calls ?h1 @ [CallTransferFrom (Address [4]) (env_caller ?e) (env_self ?e) 5]"
    using initiate_transfer_spec [OF sample_bridge_ok chain, of ?e "Address [2]" "Address [4]" 5]
    by (auto simp: sample_chain_def)
  have run: "(bridge_step ?B (bridge_new 3))\<^sup>*\<^sup>* host_new h"
    using bridge_step.chain [OF add] bridge_step.initiate [OF i] by (meson r_into_rtranclp rtranclp_trans)
  have c: "h_calls h = [CallTransferFrom (Address [4]) (Address [3]) (Address [99]) 5]"
    using calls by (simp add: bridge_env_def) (simp add: host_new_def)
  then have "drawn_in h = [(Address [4], Address [3], 5)]" by (simp add: drawn_in_def List.map_filter_simps)
  with run c bridge_only_takes [OF run] show ?thesis by auto
qed

end
