(* ===== verification/Dex.thy ===== *)
theory Dex
  imports Zk
begin

text \<open>
  \<^verbatim>\<open>src/contracts/dex.rs\<close>: the exchange, its liquidity arithmetic and the integer square root.

  The pairs and orders live in the storage of the host; the record holds the fee. Amounts are words
  whose \<open>+\<close> and \<open>*\<close> wrap; a division by zero is a panic (\<open>None\<close>). \<open>mint_lp_token\<close> is called by the
  source and defined nowhere: it is recorded as a host call. The proof checks of the host take the
  bytes of the proof.
\<close>

subsection \<open>Definitions\<close>

record trading_pair =
  tp_token_a :: address
  tp_token_b :: address
  tp_reserve_a :: u128
  tp_reserve_b :: u128
  tp_total_liquidity :: u128
  tp_encrypted_volume :: bytes

record encrypted_order =
  eo_owner :: stealth_address
  eo_encrypted_amount :: bytes
  eo_encrypted_price :: bytes
  eo_is_buy :: bool
  eo_zk_proof :: bytes
  eo_timestamp :: u64

datatype dex_event =
    PrivateSwap "address \<times> address" hash bytes bytes
  | LiquidityAdded address address address u128 u128 u128
  | EncryptedOrderPlaced hash "address \<times> address" bool

record dex =
  dx_fees :: u16
  dx_fee_recipient :: address

record dex_ext =
  de_sha :: "bytes \<Rightarrow> bytes"
  de_pair_key :: "(address \<times> address) codec"
  de_pair :: "trading_pair codec"
  de_hash :: "hash codec"
  de_order :: "encrypted_order codec"
  de_zk :: zk_host

type_synonym dex_host = "dex_event host"

abbreviation pairs_get :: "dex_ext \<Rightarrow> address \<times> address \<Rightarrow> dex_host \<Rightarrow> trading_pair option" where
  "pairs_get D \<equiv> map_get (de_pair_key D) (de_pair D)"

definition dex_new :: "u16 \<Rightarrow> address \<Rightarrow> dex" where
  "dex_new fees recipient = \<lparr>dx_fees = fees, dx_fee_recipient = recipient\<rparr>"

definition sort_pair :: "address \<Rightarrow> address \<Rightarrow> address \<times> address" where
  "sort_pair a b = (if address_bytes a < address_bytes b then (a, b) else (b, a))"

definition u128_div :: "u128 \<Rightarrow> u128 \<Rightarrow> u128 option" where
  "u128_div a b = (if b = 0 then None else Some (a div b))"

function sqrt_loop :: "u128 \<Rightarrow> u128 \<Rightarrow> u128 \<Rightarrow> u128 option" where
  "sqrt_loop x z y =
     (if y < z then (case u128_div x y of None \<Rightarrow> None | Some q \<Rightarrow> sqrt_loop x y ((y + q) div 2)) else Some z)"
  by pat_completeness auto
termination
  by (relation "measure (\<lambda>(x, z, y). unat z)") (simp_all add: word_less_nat_alt)

declare sqrt_loop.simps [simp del]

definition int_sqrt :: "u128 \<Rightarrow> u128 option" where
  "int_sqrt x = (if x = 0 then Some 0 else sqrt_loop x x ((x + 1) div 2))"

definition min_u128 :: "u128 \<Rightarrow> u128 \<Rightarrow> u128" where
  "min_u128 a b = (if a < b then a else b)"

definition create_pair :: "dex_ext \<Rightarrow> address \<Rightarrow> address \<Rightarrow> dex_host \<Rightarrow> dex_host option" where
  "create_pair D token_a token_b h = do {
     require (token_a \<noteq> token_b);
     let pair_key = sort_pair token_a token_b;
     require (\<not> map_contains_key (de_pair_key D) (de_pair D) pair_key h);
     let pair = \<lparr>tp_token_a = fst pair_key, tp_token_b = snd pair_key, tp_reserve_a = 0, tp_reserve_b = 0,
                 tp_total_liquidity = 0, tp_encrypted_volume = []\<rparr>;
     map_insert (de_pair_key D) (de_pair D) pair_key pair h
   }"

definition liquidity_for :: "trading_pair \<Rightarrow> u128 \<Rightarrow> u128 \<Rightarrow> u128 option" where
  "liquidity_for pair amount_a amount_b =
     (if tp_total_liquidity pair = 0 then int_sqrt (amount_a * amount_b)
      else do {
        la \<leftarrow> u128_div (amount_a * tp_total_liquidity pair) (tp_reserve_a pair);
        lb \<leftarrow> u128_div (amount_b * tp_total_liquidity pair) (tp_reserve_b pair);
        Some (min_u128 la lb)
      })"

definition add_liquidity ::
    "dex_ext \<Rightarrow> env \<Rightarrow> address \<Rightarrow> address \<Rightarrow> u128 \<Rightarrow> u128 \<Rightarrow> dex_host \<Rightarrow> (u128 \<times> dex_host) option" where
  "add_liquidity D e token_a token_b amount_a amount_b h = do {
     let pair_key = sort_pair token_a token_b;
     pair \<leftarrow> pairs_get D pair_key h;
     let h = token_transfer_from token_a (env_caller e) (env_self e) amount_a h;
     let h = token_transfer_from token_b (env_caller e) (env_self e) amount_b h;
     liquidity \<leftarrow> liquidity_for pair amount_a amount_b;
     let pair = pair\<lparr>tp_reserve_a := tp_reserve_a pair + amount_a, tp_reserve_b := tp_reserve_b pair + amount_b,
                     tp_total_liquidity := tp_total_liquidity pair + liquidity\<rparr>;
     h \<leftarrow> map_insert (de_pair_key D) (de_pair D) pair_key pair h;
     let h = host_call (CallMintLp (env_caller e) liquidity) h;
     Some (liquidity,
       emit (LiquidityAdded (env_caller e) (fst pair_key) (snd pair_key) amount_a amount_b liquidity) h)
   }"

definition private_swap ::
    "dex_ext \<Rightarrow> env \<Rightarrow> address \<Rightarrow> address \<Rightarrow> bytes \<Rightarrow> hash \<Rightarrow> bytes \<Rightarrow> bytes \<Rightarrow> hash \<Rightarrow> bytes \<Rightarrow> dex_host \<Rightarrow> dex_host option" where
  "private_swap D e token_in token_out proof nullifier enc_in enc_out min_out balance_proof h = do {
     let pair_key = sort_pair token_in token_out;
     pair \<leftarrow> pairs_get D pair_key h;
     require (verify_swap_proof (de_zk D) proof pair_key nullifier enc_in);
     require (verify_balance_proof (de_zk D) balance_proof (env_caller e) enc_in);
     let h = token_private_transfer token_in (env_caller e) (env_self e) enc_in h;
     let h = token_private_transfer token_out (env_self e) (env_caller e) enc_out h;
     Some (emit (PrivateSwap pair_key nullifier enc_in enc_out) h)
   }"

definition place_encrypted_order ::
    "dex_ext \<Rightarrow> env \<Rightarrow> address \<Rightarrow> address \<Rightarrow> bytes \<Rightarrow> bytes \<Rightarrow> bool \<Rightarrow> bytes \<Rightarrow> stealth_address \<Rightarrow> dex_host
      \<Rightarrow> (hash \<times> dex_host) option" where
  "place_encrypted_order D e token_a token_b enc_amount enc_price is_buy zk_proof stealth h = do {
     let order_hash = hash_new (de_sha D) (address_bytes token_a @ address_bytes token_b @ enc_amount @ enc_price @
           [if is_buy then 1 else 0] @ u64_le (env_timestamp e));
     require (verify_order_proof (de_zk D) zk_proof order_hash stealth);
     let order = \<lparr>eo_owner = stealth, eo_encrypted_amount = enc_amount, eo_encrypted_price = enc_price,
                  eo_is_buy = is_buy, eo_zk_proof = zk_proof, eo_timestamp = env_timestamp e\<rparr>;
     h \<leftarrow> map_insert (de_hash D) (de_order D) order_hash order h;
     Some (order_hash, emit (EncryptedOrderPlaced order_hash (token_a, token_b) is_buy) h)
   }"

definition get_reserves :: "dex_ext \<Rightarrow> address \<Rightarrow> address \<Rightarrow> dex_host \<Rightarrow> u128 \<times> u128" where
  "get_reserves D token_a token_b h =
     (case pairs_get D (sort_pair token_a token_b) h of
        None \<Rightarrow> (0, 0) | Some pair \<Rightarrow> (tp_reserve_a pair, tp_reserve_b pair))"

definition calculate_swap_amount ::
    "dex_ext \<Rightarrow> dex \<Rightarrow> address \<Rightarrow> address \<Rightarrow> u128 \<Rightarrow> dex_host \<Rightarrow> u128 option" where
  "calculate_swap_amount D d token_in token_out amount_in h = do {
     pair \<leftarrow> pairs_get D (sort_pair token_in token_out) h;
     let amount_in_with_fee = amount_in * (10000 - ucast (dx_fees d)) div 10000;
     let numerator = amount_in_with_fee * tp_reserve_b pair;
     let denominator = tp_reserve_a pair + amount_in_with_fee;
     u128_div numerator denominator
   }"

subsection \<open>The square root\<close>

lemma newton_lower:
  fixes x z :: nat
  assumes "0 < z"
  shows "x < ((z + x div z) div 2 + 1) ^ 2"
proof -
  let ?q = "x div z" and ?y = "(z + x div z) div 2"
  have "x mod z < z" using assms by simp
  then have "x < z * ?q + z" using mult_div_mod_eq [of z x] by linarith
  then have "4 * x < 4 * (z * (?q + 1))" by simp
  also have "int (4 * (z * (?q + 1))) \<le> int ((z + (?q + 1)) ^ 2)"
  proof -
    have "0 \<le> (int z - int (?q + 1)) ^ 2" by simp
    then show ?thesis by (simp add: power2_eq_square algebra_simps)
  qed
  then have "4 * (z * (?q + 1)) \<le> (z + (?q + 1)) ^ 2" by (simp only: of_nat_le_iff)
  also have "\<dots> \<le> (2 * (?y + 1)) ^ 2" by (intro power_mono) simp_all
  finally show ?thesis by (simp add: power2_eq_square)
qed

lemma newton_no_overflow:
  fixes x z :: nat
  assumes "0 < z" and "z \<le> x"
  shows "z + x div z \<le> x + 1"
proof -
  have q: "1 \<le> x div z" using assms by (simp add: div_greater_zero_iff Suc_le_eq)
  then obtain a b where ab: "z = Suc a" "x div z = Suc b"
    using assms(1) by (metis One_nat_def Suc_le_D gr0_implies_Suc)
  have "z * (x div z) \<le> x" by simp
  then show ?thesis using ab by (simp add: algebra_simps)
qed

lemma sqrt_loop_correct:
  fixes x z y :: u128
  assumes "0 < unat z" and "unat z \<le> unat x" and "unat x < 2 ^ 128 - 1" and "unat x < (unat z + 1) ^ 2"
    and "unat y = (unat z + unat x div unat z) div 2"
  shows "\<exists>r. sqrt_loop x z y = Some r \<and> unat r ^ 2 \<le> unat x \<and> unat x < (unat r + 1) ^ 2"
  using assms
proof (induction x z y rule: sqrt_loop.induct)
  case (1 x z y)
  show ?case
  proof (cases "y < z")
    case False
    then have "unat z \<le> (unat z + unat x div unat z) div 2"
      using "1.prems"(5) by (simp add: word_less_nat_alt)
    then have "unat z \<le> unat x div unat z" by linarith
    then have "unat z * unat z \<le> unat x"
      using "1.prems"(1) by (metis less_eq_div_iff_mult_less_eq)
    then show ?thesis using False "1.prems"(4) by (simp add: sqrt_loop.simps [of x z y] power2_eq_square)
  next
    case True
    have ypos: "0 < unat y"
    proof -
      have "1 \<le> unat x div unat z" using "1.prems"(1,2) by (simp add: div_greater_zero_iff Suc_le_eq)
      then show ?thesis using "1.prems"(1,5) by linarith
    qed
    then have y0: "y \<noteq> 0" by auto
    have yx: "unat y \<le> unat x" using True "1.prems"(2) by (simp add: word_less_nat_alt)
    have div: "u128_div x y = Some (x div y)" using y0 by (simp add: u128_div_def)
    have "unat y + unat x div unat y < 2 ^ 128" using newton_no_overflow [OF ypos yx] "1.prems"(3) by linarith
    then have "unat ((y + x div y) div 2) = (unat y + unat x div unat y) div 2"
      by (simp add: unat_div unat_word_ariths)
    moreover have "unat x < (unat y + 1) ^ 2"
      using newton_lower [OF "1.prems"(1), of "unat x"] "1.prems"(5) by simp
    ultimately show ?thesis
      using "1.IH" [OF True div] ypos yx "1.prems"(3) True div by (simp add: sqrt_loop.simps [of x z y])
  qed
qed

lemma int_sqrt_below:
  assumes n: "x \<noteq> - 1"
  shows "\<exists>r. int_sqrt x = Some r \<and> unat r ^ 2 \<le> unat x \<and> unat x < (unat r + 1) ^ 2"
proof (cases "x = 0")
  case True
  then show ?thesis by (simp add: int_sqrt_def)
next
  case False
  then have pos: "0 < unat x" by (simp add: unat_gt_0)
  have "unat x < 2 ^ LENGTH(128)" by (rule unsigned_less)
  moreover have "unat x \<noteq> 2 ^ 128 - 1"
  proof
    assume "unat x = 2 ^ 128 - 1"
    then have "unat x = unat (- 1 :: u128)" by (simp add: unsigned_minus_1_eq_mask mask_eq_exp_minus_1)
    then show False using n by (simp only: word_unat_eq_iff)
  qed
  ultimately have lt: "unat x < 2 ^ 128 - 1" by simp
  have "unat ((x + 1) div 2) = (unat x + unat x div unat x) div 2"
    using lt pos by (simp add: unat_div unat_word_ariths)
  then show ?thesis
    using sqrt_loop_correct [of x x "(x + 1) div 2"] pos lt False
    by (simp add: int_sqrt_def power2_eq_square)
qed

text \<open>
  C31. The Newton iteration ends and computes the integer square root: for every argument below
  \<open>2^128 - 1\<close> the result \<open>r\<close> satisfies \<open>r^2 \<le> x < (r + 1)^2\<close>. For \<open>2^128 - 1\<close> itself the first
  step wraps to zero and the next divides by it: the call panics.
\<close>
theorem int_sqrt_correct:
  "(x \<noteq> - 1 \<longrightarrow> (\<exists>r. int_sqrt x = Some r \<and> unat r ^ 2 \<le> unat x \<and> unat x < (unat r + 1) ^ 2)) \<and>
   int_sqrt (- 1) = None"
proof
  show "int_sqrt (- 1) = None"
    by (simp add: int_sqrt_def sqrt_loop.simps u128_div_def word_greater_zero_iff)
qed (use int_sqrt_below in blast)

theorem int_sqrt_correct_witness: "\<exists>r. int_sqrt 1000000 = Some r \<and> unat r ^ 2 \<le> 1000000"
  using int_sqrt_correct [of 1000000] by auto

subsection \<open>Swaps and liquidity\<close>

lemma sort_pair_commute: "sort_pair a b = sort_pair b a"
proof -
  consider "address_bytes a < address_bytes b" | "a = b" | "address_bytes b < address_bytes a"
    using linorder_less_linear [of "address_bytes a" "address_bytes b"] by (blast intro: address.expand)
  then show ?thesis by cases (auto simp: sort_pair_def dest: order.asym)
qed

lemma swap_direction: "calculate_swap_amount D d a b x h = calculate_swap_amount D d b a x h"
  by (simp add: calculate_swap_amount_def sort_pair_commute [of a b])

text \<open>
  C32. A quoted swap never costs the pool: if nothing overflows, the quoted amount is covered by the
  reserve it is taken from, and the product of the reserves does not fall. The direction of the
  swap is ignored: selling the larger token is quoted as if the smaller one were sold.
\<close>
theorem swap_keeps_product:
  assumes "pairs_get D (sort_pair token_in token_out) h = Some pair"
    and "0 < unat (tp_reserve_a pair)" and "unat (dx_fees d) \<le> 10000" and "unat x * 10000 < 2 ^ 128"
    and "unat x * unat (tp_reserve_b pair) < 2 ^ 128" and "unat (tp_reserve_a pair) + unat x < 2 ^ 128"
  shows "\<exists>out. calculate_swap_amount D d token_in token_out x h = Some out \<and>
    calculate_swap_amount D d token_out token_in x h = Some out \<and>
    unat out \<le> unat (tp_reserve_b pair) \<and>
    unat (tp_reserve_a pair) * unat (tp_reserve_b pair) \<le>
      (unat (tp_reserve_a pair) + unat x) * (unat (tp_reserve_b pair) - unat out)"
proof -
  let ?ra = "unat (tp_reserve_a pair)" and ?rb = "unat (tp_reserve_b pair)"
  define f where "f = x * (10000 - ucast (dx_fees d)) div 10000"
  have fees: "unat (ucast (dx_fees d) :: u128) = unat (dx_fees d)"
  proof -
    have "unat (dx_fees d) < 2 ^ 16" using unsigned_less [of "dx_fees d"] by simp
    then show ?thesis by (simp add: unsigned_ucast_eq take_bit_eq_mod)
  qed
  then have fee: "unat (10000 - ucast (dx_fees d) :: u128) = 10000 - unat (dx_fees d)"
    using assms(3) by (simp add: unat_sub word_le_nat_alt)
  have "unat x * (10000 - unat (dx_fees d)) \<le> unat x * 10000" by simp
  then have "unat x * (10000 - unat (dx_fees d)) < 2 ^ 128" using assms(4) by linarith
  then have "unat (x * (10000 - ucast (dx_fees d))) = unat x * (10000 - unat (dx_fees d))"
    using fee by (simp add: unat_word_ariths)
  then have f: "unat f = unat x * (10000 - unat (dx_fees d)) div 10000"
    by (simp add: f_def unat_div)
  have fx: "unat f \<le> unat x"
    unfolding f by (rule order_trans [OF div_le_mono [of _ "unat x * 10000"]]) simp_all
  have den: "unat (tp_reserve_a pair + f) = ?ra + unat f"
    using fx assms(6) by (simp add: unat_word_ariths)
  have "unat f * ?rb \<le> unat x * ?rb" using fx by simp
  then have "unat f * ?rb < 2 ^ 128" using assms(5) by linarith
  then have num: "unat (f * tp_reserve_b pair) = unat f * ?rb" by (simp add: unat_word_ariths)
  define out where "out = f * tp_reserve_b pair div (tp_reserve_a pair + f)"
  have out: "unat out = unat f * ?rb div (?ra + unat f)"
    by (simp add: out_def unat_div num den)
  have "tp_reserve_a pair + f \<noteq> 0" using den assms(2) by auto
  then have res: "calculate_swap_amount D d token_in token_out x h = Some out"
    using assms(1) by (simp add: calculate_swap_amount_def Let_def u128_div_def out_def f_def)
  have o1: "unat out * (?ra + unat f) \<le> unat f * ?rb" unfolding out by simp
  have "unat f * ?rb \<le> ?rb * (?ra + unat f)" by (simp add: algebra_simps)
  from order_trans [OF o1 this] have o2: "unat out \<le> ?rb"
    using assms(2) by (simp only: mult_le_cancel2 add_gr_0 simp_thms)
  have "?ra * ?rb \<le> (?ra + unat f) * (?rb - unat out)"
    using o1 by (simp add: algebra_simps diff_mult_distrib2 add_mult_distrib)
  also have "\<dots> \<le> (?ra + unat x) * (?rb - unat out)" using fx by (intro mult_le_mono) simp_all
  finally show ?thesis using res o2 swap_direction by metis
qed

text \<open>
  Liquidity is booked in the order of the arguments, not of the tokens: whichever way round the
  two tokens are passed, the first amount is added to the reserve of the smaller token. Passed in
  descending order, the reserves record the amounts of the wrong tokens.
\<close>
theorem liquidity_booked_in_argument_order:
  assumes "codec_ok (de_pair_key D)" and "codec_ok (de_pair D)"
    and "add_liquidity D e ta tb x y h = Some (liq, h')"
  shows "h_calls h' = h_calls h @ [CallTransferFrom ta (env_caller e) (env_self e) x,
      CallTransferFrom tb (env_caller e) (env_self e) y, CallMintLp (env_caller e) liq] \<and>
    get_reserves D ta tb h' = (fst (get_reserves D ta tb h) + x, snd (get_reserves D ta tb h) + y) \<and>
    get_reserves D tb ta h' = get_reserves D ta tb h'"
  using assms
  by (auto simp: add_liquidity_def Let_def get_reserves_def call_defs map_insert_ok map_get_storage codec_dec
      sort_pair_commute [of tb ta] Option.bind_eq_Some_conv)

text \<open>
  A private swap can be replayed: nothing records the nullifier, so a swap that went through
  goes through again with the same proof and the same nullifier, and moves the same encrypted
  amounts a second time.
\<close>
theorem private_swap_replay:
  assumes "private_swap D e a b proof nullifier ein eout mo bp h = Some h'"
  shows "\<exists>h''. private_swap D e a b proof nullifier ein eout mo bp h' = Some h'' \<and>
    h_calls h'' = h_calls h @ concat (replicate 2
      [CallPrivateTransfer a (env_caller e) (env_self e) ein, CallPrivateTransfer b (env_self e) (env_caller e) eout])"
proof -
  let ?k = "sort_pair a b"
  obtain pair where p: "pairs_get D ?k h = Some pair"
    and ok: "verify_swap_proof (de_zk D) proof ?k nullifier ein" "verify_balance_proof (de_zk D) bp (env_caller e) ein"
    and h': "h' = emit (PrivateSwap ?k nullifier ein eout) (host_call (CallPrivateTransfer b (env_self e) (env_caller e) eout)
        (host_call (CallPrivateTransfer a (env_caller e) (env_self e) ein) h))"
    using assms by (auto simp: private_swap_def Let_def call_defs Option.bind_eq_Some_conv)
  then show ?thesis by (simp add: private_swap_def Let_def call_defs numeral_2_eq_2)
qed

subsection \<open>Instances\<close>

definition sample_pair :: trading_pair where
  "sample_pair = \<lparr>tp_token_a = Address [1], tp_token_b = Address [2], tp_reserve_a = 1000, tp_reserve_b = 4000,
     tp_total_liquidity = 2000, tp_encrypted_volume = []\<rparr>"

definition pair_to_bytes :: "trading_pair \<Rightarrow> bytes" where
  "pair_to_bytes p = join_bytes (address_bytes (tp_token_a p)) (join_bytes (address_bytes (tp_token_b p))
     (join_bytes (u128_le (tp_reserve_a p)) (join_bytes (u128_le (tp_reserve_b p))
       (join_bytes (u128_le (tp_total_liquidity p)) (tp_encrypted_volume p)))))"

definition bytes_to_pair :: "bytes \<Rightarrow> trading_pair option" where
  "bytes_to_pair b =
     (case split_bytes b of (ta, b) \<Rightarrow> case split_bytes b of (tb, b) \<Rightarrow> case split_bytes b of (ra, b) \<Rightarrow>
      case split_bytes b of (rb, b) \<Rightarrow> case split_bytes b of (lq, v) \<Rightarrow>
        Some \<lparr>tp_token_a = Address ta, tp_token_b = Address tb, tp_reserve_a = word_of_nat (from_le ra),
          tp_reserve_b = word_of_nat (from_le rb), tp_total_liquidity = word_of_nat (from_le lq), tp_encrypted_volume = v\<rparr>)"

definition sample_dex_ext :: dex_ext where
  "sample_dex_ext = \<lparr>de_sha = (\<lambda>b. b), de_pair_key = pair_codec 7, de_pair = tag_codec 6 pair_to_bytes bytes_to_pair,
     de_hash = hash_codec, de_order = \<lparr>to_vec = (\<lambda>x. None), from_slice = (\<lambda>b. None)\<rparr>,
     de_zk = zk_accepting\<rparr>"

lemma sample_dex_ok: "codec_ok (de_pair_key sample_dex_ext)" "codec_ok (de_pair sample_dex_ext)"
  by (simp_all add: sample_dex_ext_def tag_codec_ok pair_to_bytes_def bytes_to_pair_def del: le_bytes.simps)

definition sample_dex_host :: dex_host where
  "sample_dex_host = storage_set (enc (de_pair_key sample_dex_ext) (Address [1], Address [2])) (enc (de_pair sample_dex_ext) sample_pair) host_new"

definition dex_env :: env where
  "dex_env = \<lparr>env_caller = Address [3], env_self = Address [99], env_timestamp = 0, env_block_height = 0,
     env_is_owner = True, env_is_protocol = (\<lambda>a. True), env_chain_id = 1, env_random = (\<lambda>n. replicate n 0)\<rparr>"

lemma sample_dex_get: "pairs_get sample_dex_ext (sort_pair (Address [2]) (Address [1])) sample_dex_host = Some sample_pair"
  by (simp add: sort_pair_def sample_dex_host_def map_get_storage sample_dex_ok codec_dec)

theorem swap_keeps_product_witness:
  "\<exists>out. calculate_swap_amount sample_dex_ext (dex_new 30 (Address [9])) (Address [2]) (Address [1]) 100 sample_dex_host = Some out \<and>
    unat out \<le> 4000"
  using swap_keeps_product [OF sample_dex_get, of "dex_new 30 (Address [9])" 100]
  by (auto simp: dex_new_def sample_pair_def)

theorem liquidity_booked_in_argument_order_witness:
  "\<exists>liq h'. add_liquidity sample_dex_ext dex_env (Address [2]) (Address [1]) 10 20 sample_dex_host = Some (liq, h') \<and>
    get_reserves sample_dex_ext (Address [1]) (Address [2]) h' = (1010, 4020)"
proof -
  obtain liq h' where a: "add_liquidity sample_dex_ext dex_env (Address [2]) (Address [1]) 10 20 sample_dex_host = Some (liq, h')"
    by (simp add: add_liquidity_def sample_dex_get map_insert_ok sample_dex_ok Let_def liquidity_for_def sample_pair_def u128_div_def)
  note r = liquidity_booked_in_argument_order [OF sample_dex_ok a]
  have "get_reserves sample_dex_ext (Address [2]) (Address [1]) sample_dex_host = (1000, 4000)"
    by (simp add: get_reserves_def sample_dex_get) (simp add: sample_pair_def)
  with r a show ?thesis by simp
qed

theorem private_swap_replay_witness:
  "\<exists>h' h''. private_swap sample_dex_ext dex_env (Address [1]) (Address [2]) [] (Hash [1]) [4] [5] (Hash [2]) [] sample_dex_host = Some h' \<and>
    private_swap sample_dex_ext dex_env (Address [1]) (Address [2]) [] (Hash [1]) [4] [5] (Hash [2]) [] h' = Some h''"
proof -
  obtain h' where a: "private_swap sample_dex_ext dex_env (Address [1]) (Address [2]) [] (Hash [1]) [4] [5] (Hash [2]) [] sample_dex_host = Some h'"
    by (simp add: private_swap_def sort_pair_commute [of "Address [1]"] sample_dex_get Let_def)
      (simp add: sample_dex_ext_def)
  from private_swap_replay [OF a] a show ?thesis by blast
qed

end
