(* ===== verification/DexBooks.thy ===== *)
theory DexBooks
  imports Dex Simulation
begin

text \<open>
  What the exchange of \<^verbatim>\<open>src/contracts/dex.rs\<close> keeps over any sequence of calls by any callers: its pairs
  are exactly the sums over the log of deposits, and the liquidity tokens it had minted are those of the
  log. A deposit into a pair that has liquidity never dilutes the shares of the others; the first
  deposit mints the square root of a product that wraps.
\<close>

subsection \<open>Calls\<close>

inductive dex_step :: "dex_ext \<Rightarrow> dex_host \<Rightarrow> dex_host \<Rightarrow> bool" for D where
  create: "create_pair D a b h = Some h' \<Longrightarrow> dex_step D h h'"
| add: "add_liquidity D e a b x y h = Some (l, h') \<Longrightarrow> dex_step D h h'"
| swap: "private_swap D e a b pf n ein eout mo bp h = Some h' \<Longrightarrow> dex_step D h h'"
| order: "place_encrypted_order D e a b ea ep buy zp st h = Some (oh, h') \<Longrightarrow> dex_step D h h'"

text \<open>The books of a pair according to the log: both reserves and the liquidity.\<close>

fun booked :: "address \<times> address \<Rightarrow> dex_event \<Rightarrow> u128 \<times> u128 \<times> u128 \<Rightarrow> u128 \<times> u128 \<times> u128" where
  "booked k (LiquidityAdded p a b x y l) (ra, rb, t) =
     (if (a, b) = k then (ra + x, rb + y, t + l) else (ra, rb, t))"
| "booked k _ acc = acc"

definition books :: "address \<times> address \<Rightarrow> dex_event list \<Rightarrow> u128 \<times> u128 \<times> u128" where
  "books k evs = fold (booked k) evs (0, 0, 0)"

text \<open>Who received how many liquidity tokens, by the calls and by the log.\<close>

definition lp_calls :: "dex_host \<Rightarrow> (address \<times> u128) list" where
  "lp_calls h = List.map_filter (\<lambda>c. case c of CallMintLp a l \<Rightarrow> Some (a, l) | _ \<Rightarrow> None) (h_calls h)"

definition lp_logged :: "dex_host \<Rightarrow> (address \<times> u128) list" where
  "lp_logged h = List.map_filter (\<lambda>e. case e of LiquidityAdded p a b x y l \<Rightarrow> Some (p, l) | _ \<Rightarrow> None) (h_events h)"

text \<open>A stored pair is stored under its own tokens, which are sorted, and holds what the log says.\<close>

definition pair_booked :: "dex_ext \<Rightarrow> dex_host \<Rightarrow> address \<times> address \<Rightarrow> bool" where
  "pair_booked D h k \<longleftrightarrow> (case pairs_get D k h of
        None \<Rightarrow> books k (h_events h) = (0, 0, 0)
      | Some p \<Rightarrow> (tp_token_a p, tp_token_b p) = k \<and> fst k \<noteq> snd k \<and> sort_pair (fst k) (snd k) = k \<and>
          (tp_reserve_a p, tp_reserve_b p, tp_total_liquidity p) = books k (h_events h))"

definition dex_inv :: "dex_ext \<Rightarrow> dex_host \<Rightarrow> bool" where
  "dex_inv D h \<longleftrightarrow> lp_calls h = lp_logged h \<and> (\<forall>k. pair_booked D h k)"

text \<open>The serialiser writes pairs and order hashes, the two types of keys, differently.\<close>

definition dex_codecs_ok :: "dex_ext \<Rightarrow> bool" where
  "dex_codecs_ok D \<longleftrightarrow> codec_ok (de_pair_key D) \<and> codec_ok (de_pair D) \<and> codec_ok (de_hash D) \<and>
     (\<forall>k x. enc (de_pair_key D) k \<noteq> enc (de_hash D) x)"

lemma map_filter_snoc: "List.map_filter f (xs @ [x]) = List.map_filter f xs @ (case f x of None \<Rightarrow> [] | Some y \<Rightarrow> [y])"
  by (cases "f x") (simp_all add: List.map_filter_def)

lemma lp_simps [simp]:
  "lp_calls (storage_set k v h) = lp_calls h" "lp_calls (emit e h) = lp_calls h"
  "lp_calls (host_call c h) = lp_calls h @ (case c of CallMintLp a l \<Rightarrow> [(a, l)] | _ \<Rightarrow> [])"
  "lp_logged (storage_set k v h) = lp_logged h" "lp_logged (host_call c h) = lp_logged h"
  "lp_logged (emit e h) = lp_logged h @ (case e of LiquidityAdded p a b x y l \<Rightarrow> [(p, l)] | _ \<Rightarrow> [])"
  by (simp_all add: lp_calls_def lp_logged_def map_filter_snoc split: token_call.split dex_event.split)

lemma books_snoc: "books k (evs @ [e]) = booked k e (books k evs)"
  by (simp add: books_def)

lemma sort_pair_sorted:
  "sort_pair (fst (sort_pair a b)) (snd (sort_pair a b)) = sort_pair a b"
proof -
  have "sort_pair a b = (a, b) \<or> sort_pair a b = (b, a)" by (simp add: sort_pair_def)
  then show ?thesis using sort_pair_commute [of a b] by (metis fst_conv snd_conv)
qed

lemma sort_pair_distinct: "a \<noteq> b \<Longrightarrow> fst (sort_pair a b) \<noteq> snd (sort_pair a b)"
  by (simp add: sort_pair_def)

lemma dex_invD:
  assumes "dex_inv D h" and "pairs_get D k h = Some p"
  shows "(tp_token_a p, tp_token_b p) = k" "fst k \<noteq> snd k" "sort_pair (fst k) (snd k) = k"
    "books k (h_events h) = (tp_reserve_a p, tp_reserve_b p, tp_total_liquidity p)"
proof -
  have "pair_booked D h k" using assms(1) by (simp only: dex_inv_def)
  with assms(2) show "(tp_token_a p, tp_token_b p) = k" "fst k \<noteq> snd k" "sort_pair (fst k) (snd k) = k"
    "books k (h_events h) = (tp_reserve_a p, tp_reserve_b p, tp_total_liquidity p)"
    by (simp_all add: pair_booked_def)
qed

lemma dex_inv_other:
  assumes "dex_inv D h" and "\<And>k. pairs_get D k h' = pairs_get D k h" and "lp_calls h' = lp_calls h"
    and "lp_logged h' = lp_logged h" and "\<And>k. books k (h_events h') = books k (h_events h)"
  shows "dex_inv D h'"
  using assms by (simp only: dex_inv_def pair_booked_def simp_thms)

lemma create_inv:
  assumes "dex_codecs_ok D" and "dex_inv D h" and "create_pair D a b h = Some h'"
  shows "dex_inv D h'"
proof -
  have D: "codec_ok (de_pair_key D)" "codec_ok (de_pair D)" using assms(1) by (simp_all add: dex_codecs_ok_def)
  let ?k = "sort_pair a b"
  let ?p = "\<lparr>tp_token_a = fst ?k, tp_token_b = snd ?k, tp_reserve_a = 0, tp_reserve_b = 0,
                 tp_total_liquidity = 0, tp_encrypted_volume = []\<rparr>"
  have h': "h' = storage_set (enc (de_pair_key D) ?k) (enc (de_pair D) ?p) h" "a \<noteq> b" "pairs_get D ?k h = None"
    using assms(3) by (auto simp: create_pair_def Let_def map_insert_ok D map_contains_key_def Option.bind_eq_Some_conv)
  have ev: "h_events h' = h_events h" by (simp add: h'(1))
  have old: "pair_booked D h k" for k using assms(2) by (simp only: dex_inv_def)
  have "books ?k (h_events h) = (0, 0, 0)" using old [of ?k] h'(3) by (simp add: pair_booked_def)
  moreover have "pairs_get D k h' = (if k = ?k then Some ?p else pairs_get D k h)" for k
    by (simp add: h'(1) map_get_storage D codec_dec enc_inject)
  ultimately have "pair_booked D h' k" for k
    using old [of k] h'(2) unfolding pair_booked_def ev
    by (cases "k = ?k") (simp_all add: sort_pair_sorted sort_pair_distinct)
  with assms(2) show ?thesis by (simp add: dex_inv_def) (simp add: h'(1))
qed

lemma add_inv':
  assumes "dex_codecs_ok D" and "dex_inv D h" and "add_liquidity D e a b x y h = Some (l, h')"
  shows "dex_inv D h'"
proof -
  have D: "codec_ok (de_pair_key D)" "codec_ok (de_pair D)" using assms(1) by (simp_all add: dex_codecs_ok_def)
  let ?k = "sort_pair a b"
  obtain p where p: "pairs_get D ?k h = Some p" and l: "liquidity_for p x y = Some l"
    using assms(3) by (auto simp: add_liquidity_def Let_def Option.bind_eq_Some_conv)
  let ?p = "p\<lparr>tp_reserve_a := tp_reserve_a p + x, tp_reserve_b := tp_reserve_b p + y,
                     tp_total_liquidity := tp_total_liquidity p + l\<rparr>"
  have h': "h' = emit (LiquidityAdded (env_caller e) (fst ?k) (snd ?k) x y l) (host_call (CallMintLp (env_caller e) l)
      (storage_set (enc (de_pair_key D) ?k) (enc (de_pair D) ?p)
        (token_transfer_from b (env_caller e) (env_self e) y (token_transfer_from a (env_caller e) (env_self e) x h))))"
    using assms(3) p l by (simp add: add_liquidity_def Let_def map_insert_ok D)
  note q = dex_invD [OF assms(2) p]
  have ev: "h_events h' = h_events h @ [LiquidityAdded (env_caller e) (fst ?k) (snd ?k) x y l]"
    by (simp add: h' call_defs)
  have other: "books k (h_events h') = books k (h_events h)" if "k \<noteq> ?k" for k
    using that by (cases "books k (h_events h)") (auto simp: ev books_snoc)
  have this': "books ?k (h_events h') = (tp_reserve_a ?p, tp_reserve_b ?p, tp_total_liquidity ?p)"
    using q(4) by (simp add: ev books_snoc)
  have get: "pairs_get D k h' = (if k = ?k then Some ?p else pairs_get D k h)" for k
    by (simp add: h' map_get_storage D codec_dec enc_inject call_defs eq_commute)
  have lp: "lp_calls h' = lp_logged h'"
    using assms(2) by (simp add: h' call_defs) (simp add: dex_inv_def)
  have "pair_booked D h' k" for k
  proof (cases "k = ?k")
    case True
    with q(1-3) this' show ?thesis by (simp add: pair_booked_def get)
  next
    case False
    have "pair_booked D h k" using assms(2) by (simp only: dex_inv_def)
    then show ?thesis unfolding pair_booked_def get other [OF False] if_not_P [OF False] .
  qed
  with lp show ?thesis by (simp only: dex_inv_def simp_thms)
qed

lemma dex_step_inv:
  assumes "dex_codecs_ok D" and "dex_step D h h'" and "dex_inv D h"
  shows "dex_inv D h'"
  using assms(2)
proof (cases rule: dex_step.cases)
  case (swap e a b pf n ein eout mo bp)
  then have "h' = emit (PrivateSwap (sort_pair a b) n ein eout) (token_private_transfer b (env_self e) (env_caller e) eout
      (token_private_transfer a (env_caller e) (env_self e) ein h))"
    by (auto simp: private_swap_def Let_def Option.bind_eq_Some_conv)
  then show ?thesis by (intro dex_inv_other [OF assms(3)]) (simp_all add: call_defs books_snoc)
next
  case (order e a b ea ep buy zp st oh)
  obtain kb v where s: "to_vec (de_hash D) oh = Some kb"
    and h': "h' = emit (EncryptedOrderPlaced oh (a, b) buy) (storage_set kb v h)"
    using order by (auto simp: place_encrypted_order_def Let_def map_insert_def Option.bind_eq_Some_conv)
  have "enc (de_pair_key D) k \<noteq> kb" for k
    using assms(1) s by (metis dex_codecs_ok_def enc_def option.sel)
  moreover have "codec_ok (de_pair_key D)" using assms(1) by (simp add: dex_codecs_ok_def)
  ultimately show ?thesis
    unfolding h' by (intro dex_inv_other [OF assms(3)]) (simp_all add: map_get_storage books_snoc)
qed (use create_inv [OF assms(1,3)] add_inv' [OF assms(1,3)] in blast)+

interpretation dex_calls: step_invariant dex_codecs_ok dex_step dex_inv
  by unfold_locales (rule dex_step_inv)

text \<open>
  C10. The books are the log. Whoever calls what in which order, a pair exists under its sorted tokens
  only, its reserves and its liquidity are exactly the sums over the deposits logged for it, and the
  liquidity tokens that were minted are exactly those of the log. In particular swaps, which move
  tokens out of the exchange, never change a reserve, and nothing ever takes liquidity back.
\<close>
theorem dex_books_are_the_log:
  assumes "(dex_step D)\<^sup>*\<^sup>* host_new h" and "dex_codecs_ok D"
  shows "lp_calls h = lp_logged h \<and> (\<forall>k. pair_booked D h k)"
proof -
  have "dex_inv D host_new"
    by (simp add: dex_inv_def pair_booked_def map_get_new)
      (simp add: host_new_def lp_calls_def lp_logged_def books_def List.map_filter_simps)
  from dex_calls.reach_inv [OF assms(2,1) this] show ?thesis unfolding dex_inv_def .
qed

subsection \<open>Shares\<close>

lemma add_liquidity_pair:
  assumes "codec_ok (de_pair_key D)" and "codec_ok (de_pair D)"
    and "pairs_get D (sort_pair a b) h = Some p" and "add_liquidity D e a b x y h = Some (l, h')"
  shows "liquidity_for p x y = Some l"
    and "pairs_get D (sort_pair a b) h' = Some (p\<lparr>tp_reserve_a := tp_reserve_a p + x,
      tp_reserve_b := tp_reserve_b p + y, tp_total_liquidity := tp_total_liquidity p + l\<rparr>)"
  using assms by (auto simp: add_liquidity_def Let_def Option.bind_eq_Some_conv map_insert_ok map_get_storage codec_dec)

lemma share_kept: "l \<le> x * t div r \<Longrightarrow> r * (t + l) \<le> (r + x) * t" for l :: nat
proof -
  assume "l \<le> x * t div r"
  then have "r * l \<le> r * (x * t div r)" by (rule mult_le_mono2)
  also have "\<dots> \<le> x * t" by simp
  finally show ?thesis by (simp add: algebra_simps)
qed

text \<open>
  C33. A deposit never dilutes. If the pair has liquidity and nothing overflows, the depositor receives
  the smaller of the two proportional amounts, rounded down, so that a share of the liquidity stands for
  at least as much of either reserve after the deposit as before.
\<close>
theorem deposits_never_dilute:
  assumes "codec_ok (de_pair_key D)" and "codec_ok (de_pair D)"
    and "pairs_get D (sort_pair a b) h = Some p" and "add_liquidity D e a b x y h = Some (l, h')"
    and "tp_total_liquidity p \<noteq> 0"
    and "unat x * unat (tp_total_liquidity p) < 2 ^ 128" and "unat y * unat (tp_total_liquidity p) < 2 ^ 128"
    and "unat (tp_reserve_a p) + unat x < 2 ^ 128" and "unat (tp_reserve_b p) + unat y < 2 ^ 128"
    and "unat (tp_total_liquidity p) + unat l < 2 ^ 128"
  shows "\<exists>p'. pairs_get D (sort_pair a b) h' = Some p' \<and>
    unat l = min (unat x * unat (tp_total_liquidity p) div unat (tp_reserve_a p))
                 (unat y * unat (tp_total_liquidity p) div unat (tp_reserve_b p)) \<and>
    unat (tp_total_liquidity p') = unat (tp_total_liquidity p) + unat l \<and>
    unat (tp_reserve_a p) * unat (tp_total_liquidity p') \<le> unat (tp_reserve_a p') * unat (tp_total_liquidity p) \<and>
    unat (tp_reserve_b p) * unat (tp_total_liquidity p') \<le> unat (tp_reserve_b p') * unat (tp_total_liquidity p)"
proof -
  note add = add_liquidity_pair [OF assms(1-4)]
  have "unat (x * tp_total_liquidity p) = unat x * unat (tp_total_liquidity p)"
    "unat (y * tp_total_liquidity p) = unat y * unat (tp_total_liquidity p)"
    using assms(6,7) by (simp_all add: unat_word_ariths)
  then have l: "unat l = min (unat x * unat (tp_total_liquidity p) div unat (tp_reserve_a p))
                 (unat y * unat (tp_total_liquidity p) div unat (tp_reserve_b p))"
    using add(1) assms(5)
    by (auto simp: liquidity_for_def u128_div_def min_u128_def min_def unat_div word_less_nat_alt word_le_nat_alt
        Option.bind_eq_Some_conv split: if_splits)
  have sums: "unat (tp_reserve_a p + x) = unat (tp_reserve_a p) + unat x"
    "unat (tp_reserve_b p + y) = unat (tp_reserve_b p) + unat y"
    "unat (tp_total_liquidity p + l) = unat (tp_total_liquidity p) + unat l"
    using assms(8-10) by (simp_all add: unat_word_ariths)
  show ?thesis
    unfolding add(2) using l share_kept [of "unat l" "unat x" "unat (tp_total_liquidity p)" "unat (tp_reserve_a p)"]
      share_kept [of "unat l" "unat y" "unat (tp_total_liquidity p)" "unat (tp_reserve_b p)"]
    by (simp add: sums)
qed

text \<open>
  The first deposit mints the integer square root of the product, as long as the product fits; a
  product that wraps to zero takes both amounts and mints nothing, and the next depositor counts as the
  first again.
\<close>
theorem first_deposit:
  assumes "codec_ok (de_pair_key D)" and "codec_ok (de_pair D)"
    and "pairs_get D (sort_pair a b) h = Some p" and "add_liquidity D e a b x y h = Some (l, h')"
    and "tp_total_liquidity p = 0"
  shows "(unat x * unat y < 2 ^ 128 - 1 \<longrightarrow> unat l ^ 2 \<le> unat x * unat y \<and> unat x * unat y < (unat l + 1) ^ 2) \<and>
    (x * y = 0 \<longrightarrow> l = 0 \<and> get_reserves D a b h' = (tp_reserve_a p + x, tp_reserve_b p + y) \<and>
       (\<exists>p'. pairs_get D (sort_pair a b) h' = Some p' \<and> tp_total_liquidity p' = 0))"
proof -
  note add = add_liquidity_pair [OF assms(1-4)]
  have l: "int_sqrt (x * y) = Some l" using add(1) assms(5) by (simp add: liquidity_for_def)
  have "unat l ^ 2 \<le> unat x * unat y \<and> unat x * unat y < (unat l + 1) ^ 2"
    if small: "unat x * unat y < 2 ^ 128 - 1"
  proof -
    have u: "unat (x * y) = unat x * unat y" using small by (simp add: unat_word_ariths)
    have "x * y \<noteq> - 1"
    proof
      assume "x * y = - 1"
      then have "unat (x * y) = 2 ^ 128 - 1" by (simp add: unsigned_minus_1_eq_mask mask_eq_exp_minus_1)
      then show False using u small by simp
    qed
    from int_sqrt_below [OF this] l u show ?thesis by auto
  qed
  moreover have "l = 0" if "x * y = 0" using l that by (simp add: int_sqrt_def)
  ultimately show ?thesis using add(2) assms(5) by (simp add: get_reserves_def)
qed

subsection \<open>Instances\<close>

lemma sample_dex_codecs: "dex_codecs_ok sample_dex_ext"
proof -
  have "codec_ok (de_hash sample_dex_ext)" by (simp add: sample_dex_ext_def)
  moreover have "enc (de_pair_key sample_dex_ext) k \<noteq> enc (de_hash sample_dex_ext) x" for k x
    by (simp add: sample_dex_ext_def pair_codec_def hash_codec_def)
  ultimately show ?thesis using sample_dex_ok by (simp add: dex_codecs_ok_def)
qed

theorem dex_books_are_the_log_witness:
  "\<exists>h. (dex_step sample_dex_ext)\<^sup>*\<^sup>* host_new h \<and>
    (\<exists>p. pairs_get sample_dex_ext (sort_pair (Address [1]) (Address [2])) h = Some p \<and> tp_reserve_a p = 4)"
proof -
  let ?D = sample_dex_ext and ?k = "sort_pair (Address [1]) (Address [2])"
  note ok = sample_dex_ok
  have none: "pairs_get ?D ?k host_new = None" by (rule map_get_new)
  then obtain h1 where c: "create_pair ?D (Address [1]) (Address [2]) host_new = Some h1"
    by (simp add: create_pair_def Let_def map_contains_key_def map_insert_ok ok)
  have "int_sqrt (4 * 9 :: u128) \<noteq> None" using int_sqrt_below [of "4 * 9"] by auto
  then obtain l h2 where a: "add_liquidity ?D dex_env (Address [1]) (Address [2]) 4 9 h1 = Some (l, h2)"
    using c none
    by (auto simp: create_pair_def Let_def map_contains_key_def map_insert_ok ok add_liquidity_def map_get_storage codec_dec
        liquidity_for_def)
  have run: "(dex_step ?D)\<^sup>*\<^sup>* host_new h2"
    using dex_step.create [OF c] dex_step.add [OF a] by (meson r_into_rtranclp rtranclp_trans)
  have "books ?k (h_events h2) = (4, 9, l)"
    using a c ok by (auto simp: add_liquidity_def create_pair_def Let_def map_insert_ok call_defs Option.bind_eq_Some_conv books_def)
      (simp add: host_new_def)
  moreover have "pair_booked ?D h2 ?k"
    using dex_books_are_the_log [OF run sample_dex_codecs] by blast
  moreover have "pairs_get ?D ?k h2 \<noteq> None"
    using a ok by (auto simp: add_liquidity_def Let_def map_insert_ok Option.bind_eq_Some_conv map_get_storage codec_dec)
  ultimately show ?thesis using run by (auto simp: pair_booked_def)
qed

theorem deposits_never_dilute_witness:
  "\<exists>l h'. add_liquidity sample_dex_ext dex_env (Address [2]) (Address [1]) 10 80 sample_dex_host = Some (l, h') \<and> unat l = 20"
proof -
  obtain l h' where a: "add_liquidity sample_dex_ext dex_env (Address [2]) (Address [1]) 10 80 sample_dex_host = Some (l, h')"
    by (simp add: add_liquidity_def sample_dex_get map_insert_ok sample_dex_ok Let_def liquidity_for_def sample_pair_def u128_div_def)
  then have "unat l < 2 ^ 100"
    by (auto simp: add_liquidity_def sample_dex_get map_insert_ok sample_dex_ok Let_def liquidity_for_def sample_pair_def
        u128_div_def min_u128_def)
  then have "unat l = 20"
    using deposits_never_dilute [OF sample_dex_ok sample_dex_get a] by (auto simp: sample_pair_def)
  with a show ?thesis by blast
qed

theorem first_deposit_witness:
  "\<exists>h h' l. add_liquidity sample_dex_ext dex_env (Address [1]) (Address [2]) (2 ^ 64) (2 ^ 64) h = Some (l, h') \<and> l = 0 \<and>
    get_reserves sample_dex_ext (Address [1]) (Address [2]) h' = (2 ^ 64, 2 ^ 64)"
proof -
  let ?p = "sample_pair\<lparr>tp_reserve_a := 0, tp_reserve_b := 0, tp_total_liquidity := 0\<rparr>"
  let ?k = "sort_pair (Address [1]) (Address [2])"
  let ?h = "storage_set (enc (de_pair_key sample_dex_ext) ?k) (enc (de_pair sample_dex_ext) ?p) host_new"
  have p: "pairs_get sample_dex_ext ?k ?h = Some ?p" by (simp add: map_get_storage sample_dex_ok codec_dec)
  then obtain l h' where a: "add_liquidity sample_dex_ext dex_env (Address [1]) (Address [2]) (2 ^ 64) (2 ^ 64) ?h = Some (l, h')"
    by (simp add: add_liquidity_def map_insert_ok sample_dex_ok Let_def liquidity_for_def int_sqrt_def)
  have "(2 ^ 64 :: u128) * 2 ^ 64 = 0" by simp
  with first_deposit [OF sample_dex_ok p a] a show ?thesis by auto
qed

end
