(* ===== verification/Nft.thy ===== *)
theory Nft
  imports Zk
begin

text \<open>
  \<^verbatim>\<open>src/contracts/nft.rs\<close>: the NFT contract. Five of its maps have \<open>u256\<close> keys, so a token id has one
  entry in the storage, which they share. The record holds the name, the symbol and the supply.
  \<open>total_supply + 1\<close>, for which the SDK has no instance of \<open>Add\<close>, is read as the addition of
  \<open>u256::one()\<close>. The proof checks of the host are parameters.
\<close>

subsection \<open>Definitions\<close>

record token_data =
  td_token_id :: u256
  td_public_metadata :: string
  td_encrypted_metadata_hash :: hash
  td_is_private :: bool
  td_created_at :: u64

datatype nft_event =
    NftTransfer "address option" "address option" u256
  | NftPrivateTransfer u256 hash stealth_address
  | Minted u256 address bool
  | Approval address address u256

record nft =
  nft_name :: string
  nft_symbol :: string
  nft_total_supply :: u256

record nft_ext =
  ne_sha :: "bytes \<Rightarrow> bytes"
  ne_id :: "u256 codec"
  ne_token :: "token_data codec"
  ne_address :: "address codec"
  ne_stealth :: "stealth_address codec"
  ne_bytes :: "bytes codec"
  ne_operator_key :: "(address \<times> address) codec"
  ne_bool :: "bool codec"
  ne_hash :: "hash codec"
  ne_zk :: zk_host

type_synonym nft_host = "nft_event host"

abbreviation tokens_get :: "nft_ext \<Rightarrow> u256 \<Rightarrow> nft_host \<Rightarrow> token_data option" where
  "tokens_get N \<equiv> map_get (ne_id N) (ne_token N)"

definition nft_new :: "string \<Rightarrow> string \<Rightarrow> nft" where
  "nft_new name symbol = \<lparr>nft_name = name, nft_symbol = symbol, nft_total_supply = u256_zero\<rparr>"

definition nft_mint :: "nft_ext \<Rightarrow> env \<Rightarrow> address \<Rightarrow> string \<Rightarrow> nft \<times> nft_host \<Rightarrow> (u256 \<times> nft \<times> nft_host) option" where
  "nft_mint N e to metadata = (\<lambda>(s, h). do {
     require (env_is_owner e);
     let token_id = u256_add (nft_total_supply s) u256_one;
     let s = s\<lparr>nft_total_supply := token_id\<rparr>;
     let token = \<lparr>td_token_id = token_id, td_public_metadata = metadata, td_encrypted_metadata_hash = hash_zero,
                  td_is_private = False, td_created_at = env_timestamp e\<rparr>;
     h \<leftarrow> map_insert (ne_id N) (ne_token N) token_id token h;
     h \<leftarrow> map_insert (ne_id N) (ne_address N) token_id to h;
     Some (token_id, s, emit (Minted token_id to False) h)
   })"

definition nft_mint_private ::
    "nft_ext \<Rightarrow> env \<Rightarrow> stealth_address \<Rightarrow> bytes \<Rightarrow> hash \<Rightarrow> bytes \<Rightarrow> nft \<times> nft_host \<Rightarrow> (u256 \<times> nft \<times> nft_host) option" where
  "nft_mint_private N e to_stealth enc_metadata metadata_hash zk_proof = (\<lambda>(s, h). do {
     require (env_is_owner e);
     require (verify_metadata_proof (ne_zk N) zk_proof metadata_hash enc_metadata);
     let token_id = u256_add (nft_total_supply s) u256_one;
     let s = s\<lparr>nft_total_supply := token_id\<rparr>;
     let token = \<lparr>td_token_id = token_id, td_public_metadata = [], td_encrypted_metadata_hash = metadata_hash,
                  td_is_private = True, td_created_at = env_timestamp e\<rparr>;
     h \<leftarrow> map_insert (ne_id N) (ne_token N) token_id token h;
     h \<leftarrow> map_insert (ne_id N) (ne_stealth N) token_id to_stealth h;
     h \<leftarrow> map_insert (ne_id N) (ne_bytes N) token_id enc_metadata h;
     Some (token_id, s, emit (Minted token_id (address_new (ne_sha N) (replicate 32 0)) True) h)
   })"

definition owner_of :: "nft_ext \<Rightarrow> u256 \<Rightarrow> nft_host \<Rightarrow> address option" where
  "owner_of N token_id h = map_get (ne_id N) (ne_address N) token_id h"

definition approved_for :: "nft_ext \<Rightarrow> u256 \<Rightarrow> nft_host \<Rightarrow> address option" where
  "approved_for N token_id h = map_get (ne_id N) (ne_address N) token_id h"

definition is_approved_or_owner :: "nft_ext \<Rightarrow> address \<Rightarrow> u256 \<Rightarrow> nft_host \<Rightarrow> bool" where
  "is_approved_or_owner N spender token_id h =
     (let owner = owner_of N token_id h in
      if owner = Some spender then True
      else if approved_for N token_id h = Some spender then True
      else
        let key = (unwrap_or owner (address_new (ne_sha N) (replicate 32 0)), spender)
        in unwrap_or (map_get (ne_operator_key N) (ne_bool N) key h) False)"

definition nft_transfer :: "nft_ext \<Rightarrow> address \<Rightarrow> address \<Rightarrow> u256 \<Rightarrow> nft_host \<Rightarrow> nft_host option" where
  "nft_transfer N from to token_id h = do {
     require (is_approved_or_owner N from token_id h);
     token \<leftarrow> tokens_get N token_id h;
     require (\<not> td_is_private token);
     h \<leftarrow> map_insert (ne_id N) (ne_address N) token_id to h;
     h \<leftarrow> map_remove (ne_id N) token_id h;
     Some (emit (NftTransfer (Some from) (Some to) token_id) h)
   }"

definition nft_private_transfer ::
    "nft_ext \<Rightarrow> u256 \<Rightarrow> stealth_address \<Rightarrow> bytes \<Rightarrow> hash \<Rightarrow> hash \<Rightarrow> nft_host \<Rightarrow> nft_host option" where
  "nft_private_transfer N token_id to_stealth proof nullifier commitment h = do {
     token \<leftarrow> tokens_get N token_id h;
     require (td_is_private token);
     current \<leftarrow> map_get (ne_id N) (ne_stealth N) token_id h;
     require (verify_ownership_proof (ne_zk N) proof token_id current nullifier);
     spent \<leftarrow> set_contains (ne_hash N) nullifier h;
     require (\<not> spent);
     h \<leftarrow> set_insert (ne_hash N) nullifier h;
     h \<leftarrow> map_insert (ne_id N) (ne_stealth N) token_id to_stealth h;
     Some (emit (NftPrivateTransfer token_id nullifier to_stealth) h)
   }"

definition nft_approve :: "nft_ext \<Rightarrow> env \<Rightarrow> address \<Rightarrow> u256 \<Rightarrow> nft_host \<Rightarrow> nft_host option" where
  "nft_approve N e to token_id h = do {
     owner \<leftarrow> owner_of N token_id h;
     require (owner = env_caller e);
     h \<leftarrow> map_insert (ne_id N) (ne_address N) token_id to h;
     Some (emit (Approval owner to token_id) h)
   }"

definition set_approval_for_all :: "nft_ext \<Rightarrow> env \<Rightarrow> address \<Rightarrow> bool \<Rightarrow> nft_host \<Rightarrow> nft_host option" where
  "set_approval_for_all N e operator approved h =
     map_insert (ne_operator_key N) (ne_bool N) (env_caller e, operator) approved h"

definition get_metadata :: "nft_ext \<Rightarrow> u256 \<Rightarrow> nft_host \<Rightarrow> string option" where
  "get_metadata N token_id h = map_option td_public_metadata (tokens_get N token_id h)"

definition get_encrypted_metadata :: "nft_ext \<Rightarrow> u256 \<Rightarrow> nft_host \<Rightarrow> bytes option" where
  "get_encrypted_metadata N token_id h = map_get (ne_id N) (ne_bytes N) token_id h"

definition nft_is_private :: "nft_ext \<Rightarrow> u256 \<Rightarrow> nft_host \<Rightarrow> bool" where
  "nft_is_private N token_id h = unwrap_or (map_option td_is_private (tokens_get N token_id h)) False"

definition nft_get_total_supply :: "nft \<Rightarrow> u256" where
  "nft_get_total_supply s = nft_total_supply s"

subsection \<open>Properties\<close>

text \<open>
  What the serialiser writes for a token record is not an address: \<open>disjoint_codecs\<close> says that no
  byte string is read as both.
\<close>

definition disjoint_codecs :: "'a codec \<Rightarrow> 'b codec \<Rightarrow> bool" where
  "disjoint_codecs C D \<longleftrightarrow> (\<forall>b. from_slice C b = None \<or> from_slice D b = None)"

lemma disjoint_get:
  "disjoint_codecs V W \<Longrightarrow> map_get K V k h \<noteq> None \<Longrightarrow> map_get K W k h = None"
  by (auto simp: map_get_def disjoint_codecs_def Option.bind_eq_Some_conv)
    (metis bind_eq_None_conv option.distinct(1) option.exhaust)

text \<open>
  An owner cannot transfer: the owner of a token and its data share one entry, so while the
  contract knows an owner it finds no token data and the transfer panics. This holds in every
  state, right after minting as well: a freshly minted public token has its owner, but no metadata.
\<close>
theorem owner_cannot_transfer:
  assumes "disjoint_codecs (ne_address N) (ne_token N)" and "codec_ok (ne_id N)" and "codec_ok (ne_address N)"
  shows "(owner_of N token_id h \<noteq> None \<longrightarrow> nft_transfer N from to token_id h = None) \<and>
    (\<forall>s tid s' h'. nft_mint N e a meta (s, h) = Some (tid, s', h') \<longrightarrow>
       owner_of N tid h' = Some a \<and> get_metadata N tid h' = None)"
proof (intro conjI impI allI)
  assume "owner_of N token_id h \<noteq> None"
  then have "tokens_get N token_id h = None"
    using disjoint_get [OF assms(1)] by (simp add: owner_of_def)
  then show "nft_transfer N from to token_id h = None" by (simp add: nft_transfer_def require_def)
next
  fix s tid s' h' assume m: "nft_mint N e a meta (s, h) = Some (tid, s', h')"
  then show o: "owner_of N tid h' = Some a"
    using assms(2,3)
    by (auto simp: nft_mint_def Let_def owner_of_def Option.bind_eq_Some_conv map_insert_ok map_get_storage codec_dec)
  then have "map_get (ne_id N) (ne_address N) tid h' \<noteq> None" by (simp add: owner_of_def)
  from disjoint_get [OF assms(1) this] show "get_metadata N tid h' = None"
    by (simp add: get_metadata_def)
qed

text \<open>
  Approving gives the token away: the approval is written where the owner is read, so after a
  successful \<open>approve\<close> the approved address is the owner, and the former owner is not.
\<close>
theorem approve_gives_away:
  assumes "codec_ok (ne_id N)" and "codec_ok (ne_address N)" and "nft_approve N e to token_id h = Some h'"
  shows "owner_of N token_id h = Some (env_caller e) \<and> owner_of N token_id h' = Some to \<and>
    (to \<noteq> env_caller e \<longrightarrow> nft_approve N e again token_id h' = None)"
  using assms
  by (auto simp: nft_approve_def owner_of_def Option.bind_eq_Some_conv map_insert_ok map_get_storage codec_dec require_def
      split: if_splits)

subsection \<open>Instances\<close>

definition sample_nft_ext :: nft_ext where
  "sample_nft_ext = \<lparr>ne_sha = (\<lambda>b. b),
     ne_id = tag_codec 20 (\<lambda>a. concat (map u64_le (limbs a))) (\<lambda>b. Some (U256 (map (\<lambda>i. word_of_nat (from_le (take 8 (drop (8 * i) b)))) [0 ..< length b div 8]))),
     ne_token = \<lparr>to_vec = (\<lambda>t. Some [21]), from_slice = (\<lambda>b. if b = [21] then Some \<lparr>td_token_id = u256_zero,
       td_public_metadata = [], td_encrypted_metadata_hash = hash_zero, td_is_private = False, td_created_at = 0\<rparr> else None)\<rparr>,
     ne_address = addr_codec, ne_stealth = \<lparr>to_vec = (\<lambda>t. None), from_slice = (\<lambda>b. None)\<rparr>, ne_bytes = bytes_codec,
     ne_operator_key = pair_codec 7, ne_bool = \<lparr>to_vec = (\<lambda>b. Some [if b then 1 else 0]), from_slice = (\<lambda>b. Some (b = [1]))\<rparr>,
     ne_hash = hash_codec, ne_zk = zk_accepting\<rparr>"

lemma chunks_u64: "map (\<lambda>i. word_of_nat (from_le (take 8 (drop (8 * i) (concat (map u64_le ws)))))) [0 ..< length ws] = (ws :: u64 list)"
proof (induction ws)
  case (Cons w ws)
  have "[0 ..< length (w # ws)] = 0 # map Suc [0 ..< length ws]" by (simp add: upt_conv_Cons map_Suc_upt del: upt_Suc)
  then show ?case using Cons by (simp add: o_def del: upt_Suc le_bytes.simps)
qed simp

lemma sample_nft_ok:
  "codec_ok (ne_id sample_nft_ext)" "codec_ok (ne_address sample_nft_ext)"
  "disjoint_codecs (ne_address sample_nft_ext) (ne_token sample_nft_ext)"
proof -
  have "length (concat (map u64_le ws)) div 8 = length ws" for ws
    by (induction ws) (simp_all del: le_bytes.simps)
  then show "codec_ok (ne_id sample_nft_ext)"
    by (simp add: sample_nft_ext_def tag_codec_ok chunks_u64 del: le_bytes.simps)
  show "codec_ok (ne_address sample_nft_ext)" by (simp add: sample_nft_ext_def)
  show "disjoint_codecs (ne_address sample_nft_ext) (ne_token sample_nft_ext)"
    by (auto simp: disjoint_codecs_def sample_nft_ext_def addr_codec_def)
qed

definition nft_env :: env where
  "nft_env = \<lparr>env_caller = Address [3], env_self = Address [99], env_timestamp = 0, env_block_height = 0,
     env_is_owner = True, env_is_protocol = (\<lambda>a. True), env_chain_id = 1, env_random = (\<lambda>n. replicate n 0)\<rparr>"

theorem owner_cannot_transfer_witness:
  "\<exists>tid s' h'. nft_mint sample_nft_ext nft_env (Address [3]) ''m'' (nft_new ''n'' ''s'', host_new) = Some (tid, s', h') \<and>
    owner_of sample_nft_ext tid h' = Some (Address [3]) \<and>
    nft_transfer sample_nft_ext (Address [3]) (Address [4]) tid h' = None"
proof -
  obtain tid s' h' where m: "nft_mint sample_nft_ext nft_env (Address [3]) ''m'' (nft_new ''n'' ''s'', host_new) = Some (tid, s', h')"
    using sample_nft_ok by (simp add: nft_mint_def nft_env_def Let_def map_insert_def codec_enc)
      (simp add: sample_nft_ext_def)
  note t = owner_cannot_transfer [OF sample_nft_ok(3,1,2)]
  have "owner_of sample_nft_ext tid h' = Some (Address [3])" using t m by blast
  then show ?thesis using t m by (metis option.distinct(1))
qed

theorem approve_gives_away_witness:
  "\<exists>h'. nft_approve sample_nft_ext nft_env (Address [4]) u256_one
      (storage_set (enc (ne_id sample_nft_ext) u256_one) (1 # [3]) host_new) = Some h' \<and>
    owner_of sample_nft_ext u256_one h' = Some (Address [4])"
proof -
  let ?h = "storage_set (enc (ne_id sample_nft_ext) u256_one) (1 # [3]) host_new"
  have "owner_of sample_nft_ext u256_one ?h = Some (Address [3])"
    using sample_nft_ok by (simp add: owner_of_def map_get_storage) (simp add: sample_nft_ext_def addr_codec_def)
  then obtain h' where a: "nft_approve sample_nft_ext nft_env (Address [4]) u256_one ?h = Some h'"
    using sample_nft_ok by (simp add: nft_approve_def map_insert_ok nft_env_def)
  from approve_gives_away [OF sample_nft_ok(1,2) a] a show ?thesis by blast
qed

end
