(* ===== verification/NftLog.thy ===== *)
theory NftLog
  imports Nft Simulation
begin

text \<open>
  The NFT contract of \<^verbatim>\<open>src/contracts/nft.rs\<close> over any sequence of calls by any callers. The log alone
  determines who owns a public token; no token ever has metadata, so neither kind of transfer ever
  succeeds, in any state that the contract can reach.
\<close>

subsection \<open>Calls\<close>

inductive nft_step :: "nft_ext \<Rightarrow> nft \<times> nft_host \<Rightarrow> nft \<times> nft_host \<Rightarrow> bool" for N where
  mint: "nft_mint N e a m x = Some (t, y) \<Longrightarrow> nft_step N x y"
| mint_private: "nft_mint_private N e st em mh zp x = Some (t, y) \<Longrightarrow> nft_step N x y"
| transfer: "nft_transfer N a b t h = Some h' \<Longrightarrow> nft_step N (s, h) (s, h')"
| private_transfer: "nft_private_transfer N t st p n c h = Some h' \<Longrightarrow> nft_step N (s, h) (s, h')"
| approve: "nft_approve N e a t h = Some h' \<Longrightarrow> nft_step N (s, h) (s, h')"
| operator: "set_approval_for_all N e a ok h = Some h' \<Longrightarrow> nft_step N (s, h) (s, h')"

text \<open>The owner of a token by the log; a private mint hides the token from it.\<close>

fun logged :: "u256 \<Rightarrow> nft_event \<Rightarrow> address option \<Rightarrow> address option" where
  "logged t (Minted t' a p) o' = (if t' = t then Some a else o')"
| "logged t (Approval a b t') o' = (if t' = t then Some b else o')"
| "logged t _ o' = o'"

definition log_owner :: "u256 \<Rightarrow> nft_event list \<Rightarrow> address option" where
  "log_owner t evs = fold (logged t) evs None"

definition hidden :: "u256 \<Rightarrow> nft_event list \<Rightarrow> bool" where
  "hidden t evs \<longleftrightarrow> (\<exists>a. Minted t a True \<in> set evs)"

definition mints :: "nft_event list \<Rightarrow> nat" where
  "mints evs = length (filter (\<lambda>e. case e of Minted t a p \<Rightarrow> True | _ \<Rightarrow> False) evs)"

text \<open>
  What the serialiser promises: ids and addresses are read back, ids and operator keys are written
  differently, and neither an address nor a byte string is read as a token record.
\<close>

definition nft_codecs_ok :: "nft_ext \<Rightarrow> bool" where
  "nft_codecs_ok N \<longleftrightarrow> codec_ok (ne_id N) \<and> codec_ok (ne_address N) \<and> codec_ok (ne_operator_key N) \<and>
     (\<forall>i k. enc (ne_id N) i \<noteq> enc (ne_operator_key N) k) \<and>
     (\<forall>x b. to_vec (ne_address N) x = Some b \<longrightarrow> from_slice (ne_token N) b = None) \<and>
     (\<forall>x b. to_vec (ne_bytes N) x = Some b \<longrightarrow> from_slice (ne_token N) b = None)"

definition nft_inv :: "nft_ext \<Rightarrow> nft \<times> nft_host \<Rightarrow> bool" where
  "nft_inv N = (\<lambda>(s, h). (\<forall>t. tokens_get N t h = None) \<and>
     u256_wf (nft_total_supply s) \<and> u256_value (nft_total_supply s) = mints (h_events h) mod 2 ^ 256 \<and>
     (\<forall>t. hidden t (h_events h) \<or> owner_of N t h = log_owner t (h_events h)))"

lemma log_snoc [simp]:
  "log_owner t (evs @ [e]) = logged t e (log_owner t evs)"
  "hidden t (evs @ [e]) \<longleftrightarrow> hidden t evs \<or> (\<exists>a. e = Minted t a True)"
  "mints (evs @ [e]) = mints evs + (case e of Minted t a p \<Rightarrow> 1 | _ \<Rightarrow> 0)"
  by (auto simp: log_owner_def hidden_def mints_def split: nft_event.split)

lemma nft_mint_inv:
  assumes "nft_codecs_ok N" and inv: "nft_inv N x" and m: "nft_mint N e a meta x = Some (t, y)"
  shows "nft_inv N y"
proof -
  note N = assms(1) [unfolded nft_codecs_ok_def]
  obtain s h where x: "x = (s, h)" by (cases x)
  let ?t = "u256_add (nft_total_supply s) u256_one"
  obtain v w where v: "to_vec (ne_address N) a = Some w"
    and y: "t = ?t" "y = (s\<lparr>nft_total_supply := ?t\<rparr>,
      emit (Minted ?t a False) (storage_set (enc (ne_id N) ?t) w (storage_set (enc (ne_id N) ?t) v h)))"
    using m N by (auto simp: x nft_mint_def Let_def map_insert_Some codec_enc Option.bind_eq_Some_conv)
  have w: "from_slice (ne_address N) w = Some a" using N v by (metis codec_okE option.inject)
  have u: "u256_wf (nft_total_supply s)" "u256_wf u256_one" "u256_value u256_one = 1"
    using inv by (simp_all add: nft_inv_def x u256_wf_def u256_one_def u256_value_def)
  have "tokens_get N k (snd y) = None" for k
    using inv N v by (simp add: y nft_inv_def x map_get_storage)
  moreover have "owner_of N k (snd y) = (if k = ?t then Some a else owner_of N k h)" for k
    using N w by (simp add: y owner_of_def map_get_storage enc_inject)
  ultimately show ?thesis
    using inv u256_add_sub [OF u(1,2)] u(3) by (auto simp: nft_inv_def x y mod_Suc_eq)
qed

lemma nft_mint_private_inv:
  assumes "nft_codecs_ok N" and inv: "nft_inv N x" and m: "nft_mint_private N e st em mh zp x = Some (t, y)"
  shows "nft_inv N y"
proof -
  note N = assms(1) [unfolded nft_codecs_ok_def]
  obtain s h where x: "x = (s, h)" by (cases x)
  let ?t = "u256_add (nft_total_supply s) u256_one" and ?a = "address_new (ne_sha N) (replicate 32 0)"
  obtain u v w where v: "to_vec (ne_bytes N) em = Some w"
    and y: "t = ?t" "y = (s\<lparr>nft_total_supply := ?t\<rparr>,
      emit (Minted ?t ?a True) (storage_set (enc (ne_id N) ?t) w
        (storage_set (enc (ne_id N) ?t) v (storage_set (enc (ne_id N) ?t) u h))))"
    using m N by (auto simp: x nft_mint_private_def Let_def map_insert_Some codec_enc Option.bind_eq_Some_conv)
  have u: "u256_wf (nft_total_supply s)" "u256_wf u256_one" "u256_value u256_one = 1"
    using inv by (simp_all add: nft_inv_def x u256_wf_def u256_one_def u256_value_def)
  have "tokens_get N k (snd y) = None" for k
    using inv N v by (simp add: y nft_inv_def x map_get_storage)
  moreover have "k \<noteq> ?t \<Longrightarrow> owner_of N k (snd y) = owner_of N k h" for k
    using N by (simp add: y owner_of_def map_get_storage enc_inject)
  ultimately show ?thesis
    using inv u256_add_sub [OF u(1,2)] u(3) by (auto simp: nft_inv_def x y mod_Suc_eq)
qed

lemma nft_step_inv:
  assumes "nft_codecs_ok N" and "nft_step N x y" and inv: "nft_inv N x"
  shows "nft_inv N y"
  using assms(2)
proof (cases rule: nft_step.cases)
  case (transfer a b t h h' s)
  then have "tokens_get N t h = None" using inv by (simp add: nft_inv_def)
  with transfer show ?thesis by (auto simp: nft_transfer_def Option.bind_eq_Some_conv)
next
  case (private_transfer t st p n c h h' s)
  then have "tokens_get N t h = None" using inv by (simp add: nft_inv_def)
  with private_transfer show ?thesis by (auto simp: nft_private_transfer_def Option.bind_eq_Some_conv)
next
  case (approve e a t h h' s)
  note N = assms(1) [unfolded nft_codecs_ok_def]
  obtain o' w where w: "to_vec (ne_address N) a = Some w"
    and h': "h' = emit (Approval o' a t) (storage_set (enc (ne_id N) t) w h)"
    using approve N by (auto simp: nft_approve_def Option.bind_eq_Some_conv map_insert_Some codec_enc)
  have "from_slice (ne_address N) w = Some a" using N w by (metis codec_okE option.inject)
  then have "owner_of N k h' = (if k = t then Some a else owner_of N k h)" for k
    using N by (simp add: h' owner_of_def map_get_storage enc_inject)
  moreover have "tokens_get N k h' = None" for k
    using inv N w by (simp add: h' nft_inv_def approve map_get_storage)
  ultimately show ?thesis using inv by (auto simp: nft_inv_def approve(1,2) h')
next
  case (operator e a ok h h' s)
  note N = assms(1) [unfolded nft_codecs_ok_def]
  obtain w where h': "h' = storage_set (enc (ne_operator_key N) (env_caller e, a)) w h"
    using operator N by (auto simp: set_approval_for_all_def map_insert_Some codec_enc)
  have get: "map_get (ne_id N) V k h' = map_get (ne_id N) V k h" for V :: "'v codec" and k
    using N by (simp add: h' map_get_storage)
  have "h_events h' = h_events h" by (simp add: h')
  then show ?thesis using inv by (simp add: nft_inv_def operator(1,2) owner_of_def get)
qed (use nft_mint_inv [OF assms(1) inv] nft_mint_private_inv [OF assms(1) inv] in blast)+

interpretation nft_calls: step_invariant nft_codecs_ok nft_step nft_inv
  by unfold_locales (rule nft_step_inv)

text \<open>
  C12. What the NFT contract ever does. Over any calls of any callers the supply counts the mints modulo
  \<open>2^256\<close>, and the owner of every token that was not minted privately is the one that the log names last,
  as receiver of the mint or of an approval. No token has metadata and every transfer, public or private,
  by whomever, panics: minting and approving are the only ways in which a token gets an owner.
\<close>
theorem nft_transfers_never_succeed:
  assumes "(nft_step N)\<^sup>*\<^sup>* (nft_new name symbol, host_new) (s, h)" and "nft_codecs_ok N"
  shows "u256_value (nft_get_total_supply s) = mints (h_events h) mod 2 ^ 256 \<and>
    (\<forall>t. hidden t (h_events h) \<or> owner_of N t h = log_owner t (h_events h)) \<and>
    (\<forall>t. get_metadata N t h = None) \<and>
    (\<forall>from to t. nft_transfer N from to t h = None) \<and>
    (\<forall>t st p n c. nft_private_transfer N t st p n c h = None)"
proof -
  have "nft_inv N (nft_new name symbol, host_new)"
    by (simp add: nft_inv_def owner_of_def nft_new_def u256_wf_def u256_zero_def u256_value_def map_get_new)
      (simp add: host_new_def mints_def log_owner_def)
  note inv = nft_calls.reach_inv [OF assms(2,1) this]
  then have none: "tokens_get N t h = None" for t by (simp add: nft_inv_def)
  have "nft_transfer N from to t h = None" for "from" to t
    by (simp add: nft_transfer_def none)
  moreover have "nft_private_transfer N t st p n c h = None" for t st p n c
    by (simp add: nft_private_transfer_def none)
  ultimately show ?thesis using inv none by (simp add: nft_inv_def get_metadata_def nft_get_total_supply_def)
qed

lemma sample_nft_codecs: "nft_codecs_ok sample_nft_ext"
proof -
  have "codec_ok (ne_operator_key sample_nft_ext)" by (simp add: sample_nft_ext_def)
  moreover have "enc (ne_id sample_nft_ext) i \<noteq> enc (ne_operator_key sample_nft_ext) k" for i k
    by (simp add: sample_nft_ext_def pair_codec_def)
  moreover have "from_slice (ne_token sample_nft_ext) b = None"
    if "to_vec (ne_address sample_nft_ext) x = Some b \<or> to_vec (ne_bytes sample_nft_ext) x' = Some b" for x x' b
    using that by (auto simp: sample_nft_ext_def addr_codec_def bytes_codec_def)
  ultimately show ?thesis using sample_nft_ok unfolding nft_codecs_ok_def by blast
qed

theorem nft_transfers_never_succeed_witness:
  "\<exists>s h t. (nft_step sample_nft_ext)\<^sup>*\<^sup>* (nft_new ''n'' ''s'', host_new) (s, h) \<and> mints (h_events h) = 1 \<and>
    owner_of sample_nft_ext t h = Some (Address [3]) \<and>
    nft_transfer sample_nft_ext (Address [3]) (Address [4]) t h = None"
proof -
  let ?N = sample_nft_ext and ?x = "(nft_new ''n'' ''s'', host_new)"
  obtain t s h where m: "nft_mint ?N nft_env (Address [3]) ''m'' ?x = Some (t, s, h)"
    using sample_nft_ok by (simp add: nft_mint_def nft_env_def Let_def map_insert_def codec_enc)
      (simp add: sample_nft_ext_def)
  then have ev: "h_events h = [Minted t (Address [3]) False]"
    by (auto simp: nft_mint_def Let_def map_insert_Some Option.bind_eq_Some_conv) (simp_all add: host_new_def)
  have run: "(nft_step ?N)\<^sup>*\<^sup>* ?x (s, h)" using nft_step.mint [OF m] by blast
  note t = nft_transfers_never_succeed [OF run sample_nft_codecs]
  then have "hidden t (h_events h) \<or> owner_of ?N t h = log_owner t (h_events h)" by blast
  then have "owner_of ?N t h = Some (Address [3])" by (simp add: ev hidden_def log_owner_def)
  moreover have "mints (h_events h) = 1" by (simp add: ev mints_def)
  ultimately show ?thesis using run t by blast
qed

end
