(* ===== verification/Dag.thy ===== *)
theory Dag
  imports Types "HOL-Library.Multiset"
begin

text \<open>
  \<^verbatim>\<open>src/src/consensus/mod.rs\<close>, \<open>DagOrdering\<close>: the DAG of blocks and transactions, its ancestor search
  (an explicit stack) and its topological sort (Kahn's algorithm).

  The stack of \<open>get_ancestors\<close> is a list with its top first; the search terminates because every
  vertex with parents is expanded at most once. The loop of \<open>topological_sort\<close> runs on fuel: one
  unit per vertex, which is shown to be enough. In-degrees are \<open>usize\<close>; the decrement would wrap
  at zero in a release build, and the invariant \<open>kahn_inv\<close> shows that it never happens.
\<close>

subsection \<open>Definitions\<close>

record dag_vertex =
  dv_hash :: hash
  dv_parents :: "hash list"
  dv_timestamp :: u64
  dv_round :: u64
  dv_is_block :: bool

record dag_ordering =
  dag_vertices :: "(hash, dag_vertex) hashmap"
  dag_edges :: "(hash, hash list) hashmap"

definition dag_new :: dag_ordering where
  "dag_new = \<lparr>dag_vertices = [], dag_edges = []\<rparr>"

definition add_vertex :: "dag_vertex \<Rightarrow> dag_ordering \<Rightarrow> dag_ordering" where
  "add_vertex v dag =
     dag\<lparr>dag_vertices := hm_insert (dv_hash v) v (dag_vertices dag),
         dag_edges := hm_insert (dv_hash v) (dv_parents v) (dag_edges dag)\<rparr>"

function ancestor_loop ::
    "(hash, hash list) hashmap \<Rightarrow> (hash, bool) hashmap \<Rightarrow> hash list \<Rightarrow> hash list \<Rightarrow> hash list" where
  "ancestor_loop edges visited result [] = result"
| "ancestor_loop edges visited result (current # stack) =
     (if hm_get visited current \<noteq> None then ancestor_loop edges visited result stack
      else ancestor_loop edges (hm_insert current True visited) (result @ [current])
             (case hm_get edges current of None \<Rightarrow> stack | Some parents \<Rightarrow> rev parents @ stack))"
  by pat_completeness auto
termination
proof (relation "measures [\<lambda>(e, v, r, s). card (fst ` set e - dom (hm_get v)), \<lambda>(e, v, r, s). length s]",
    goal_cases)
  case (3 edges visited result current stack)
  let ?K = "fst ` set edges - dom (hm_get visited)"
  have rem: "fst ` set edges - dom (hm_get (hm_insert current True visited)) = ?K - {current}"
    by auto
  show ?case
  proof (cases "hm_get edges current")
    case None
    then have "current \<notin> fst ` set edges" by (auto simp: hm_get_def map_of_eq_None_iff)
    with None show ?thesis unfolding in_measures by (simp only: prod.case rem) simp
  next
    case (Some parents)
    then have "current \<in> ?K" using 3 by (force dest: hm_get_in_set)
    then have "card (?K - {current}) < card ?K" by (intro card_Diff1_less) simp_all
    then show ?thesis unfolding in_measures by (simp only: prod.case rem) simp
  qed
qed auto

definition get_ancestors :: "dag_ordering \<Rightarrow> hash \<Rightarrow> hash list" where
  "get_ancestors dag h = ancestor_loop (dag_edges dag) [] [] [h]"

text \<open>Counting the parents of one vertex.\<close>

definition count_parent ::
    "hash \<Rightarrow> hash \<Rightarrow> (hash, nat) hashmap \<times> (hash, hash list) hashmap
      \<Rightarrow> (hash, nat) hashmap \<times> (hash, hash list) hashmap" where
  "count_parent h parent = (\<lambda>(in_degree, adj).
     (hm_insert h (unwrap_or (hm_get in_degree h) 0 + 1) in_degree,
      hm_insert parent (unwrap_or (hm_get adj parent) [] @ [h]) adj))"

definition count_vertex ::
    "hash \<times> dag_vertex \<Rightarrow> (hash, nat) hashmap \<times> (hash, hash list) hashmap
      \<Rightarrow> (hash, nat) hashmap \<times> (hash, hash list) hashmap" where
  "count_vertex = (\<lambda>(h, vertex) (in_degree, adj).
     fold (count_parent h) (dv_parents vertex)
       (hm_insert h (unwrap_or (hm_get in_degree h) 0) in_degree, adj))"

text \<open>One neighbour of a dequeued vertex.\<close>

definition relax :: "hash \<Rightarrow> (hash, nat) hashmap \<times> hash list \<Rightarrow> (hash, nat) hashmap \<times> hash list" where
  "relax neighbor = (\<lambda>(in_degree, queue).
     (case hm_get in_degree neighbor of
        None \<Rightarrow> (in_degree, queue)
      | Some deg \<Rightarrow>
          let deg' = (if deg = 0 then 2 ^ 64 - 1 else deg - 1) in
          (hm_insert neighbor deg' in_degree, if deg' = 0 then queue @ [neighbor] else queue)))"

fun kahn_loop ::
    "nat \<Rightarrow> (hash, hash list) hashmap \<Rightarrow> (hash, nat) hashmap \<Rightarrow> hash list \<Rightarrow> hash list \<Rightarrow> hash list option" where
  "kahn_loop fuel adj in_degree [] result = Some result"
| "kahn_loop 0 adj in_degree (current # queue) result = None"
| "kahn_loop (Suc fuel) adj in_degree (current # queue) result =
     (case fold relax (unwrap_or (hm_get adj current) []) (in_degree, queue) of
        (in_degree', queue') \<Rightarrow> kahn_loop fuel adj in_degree' queue' (result @ [current]))"

definition topological_sort :: "dag_ordering \<Rightarrow> hash list option" where
  "topological_sort dag =
     (case fold count_vertex (dag_vertices dag) ([], []) of
        (in_degree, adj) \<Rightarrow>
          kahn_loop (length (dag_vertices dag)) adj in_degree
            (map fst (filter (\<lambda>(_, deg). deg = 0) in_degree)) [])"

subsection \<open>Ancestors\<close>

definition parent_rel :: "(hash, hash list) hashmap \<Rightarrow> (hash \<times> hash) set" where
  "parent_rel edges = {(c, p). \<exists>ps. hm_get edges c = Some ps \<and> p \<in> set ps}"

lemma ancestor_loop_distinct:
  "distinct result \<Longrightarrow> dom (hm_get visited) = set result \<Longrightarrow>
    distinct (ancestor_loop edges visited result stack)"
  by (induction edges visited result stack rule: ancestor_loop.induct) (auto simp: domIff)

lemma ancestor_loop_sound:
  "set (ancestor_loop edges visited result stack)
    \<subseteq> (parent_rel edges)\<^sup>* `` (set result \<union> set stack)"
proof (induction edges visited result stack rule: ancestor_loop.induct)
  case (2 edges visited result current stack)
  show ?case
  proof (cases "hm_get visited current = None")
    case True
    let ?s = "case hm_get edges current of None \<Rightarrow> stack | Some parents \<Rightarrow> rev parents @ stack"
    let ?A = "set result \<union> set (current # stack)"
    have "set ?s \<subseteq> parent_rel edges `` {current} \<union> set stack"
      by (auto simp: parent_rel_def split: option.splits)
    then have "set (result @ [current]) \<union> set ?s \<subseteq> (parent_rel edges)\<^sup>* `` ?A" by auto
    then have "(parent_rel edges)\<^sup>* `` (set (result @ [current]) \<union> set ?s)
        \<subseteq> (parent_rel edges)\<^sup>* `` ((parent_rel edges)\<^sup>* `` ?A)"
      by (rule Image_mono [OF subset_refl])
    also have "\<dots> \<subseteq> (parent_rel edges)\<^sup>* `` ?A" by (auto intro: rtrancl_trans)
    finally have "(parent_rel edges)\<^sup>* `` (set (result @ [current]) \<union> set ?s)
        \<subseteq> (parent_rel edges)\<^sup>* `` ?A" .
    with 2 True show ?thesis by (auto dest!: subsetD)
  next
    case False
    with 2 show ?thesis by (auto dest!: subsetD)
  qed
qed auto

lemma ancestor_loop_complete:
  assumes "dom (hm_get visited) = set result"
    and "\<forall>c \<in> set result. parent_rel edges `` {c} \<subseteq> set result \<union> set stack"
  shows "set result \<union> set stack \<subseteq> set (ancestor_loop edges visited result stack) \<and>
    parent_rel edges `` set (ancestor_loop edges visited result stack)
      \<subseteq> set (ancestor_loop edges visited result stack)"
  using assms
proof (induction edges visited result stack rule: ancestor_loop.induct)
  case (1 edges visited result)
  then show ?case by auto
next
  case (2 edges visited result current stack)
  show ?case
  proof (cases "hm_get visited current = None")
    case True
    let ?s = "case hm_get edges current of None \<Rightarrow> stack | Some parents \<Rightarrow> rev parents @ stack"
    have s: "parent_rel edges `` {current} \<union> set stack \<subseteq> set ?s" "set stack \<subseteq> set ?s"
      by (auto simp: parent_rel_def split: option.splits)
    have "set (result @ [current]) \<union> set ?s
          \<subseteq> set (ancestor_loop edges (hm_insert current True visited) (result @ [current]) ?s) \<and>
        parent_rel edges `` set (ancestor_loop edges (hm_insert current True visited) (result @ [current]) ?s)
          \<subseteq> set (ancestor_loop edges (hm_insert current True visited) (result @ [current]) ?s)"
    proof (rule "2.IH"(2))
      show "\<not> hm_get visited current \<noteq> None" using True by simp
      show "dom (hm_get (hm_insert current True visited)) = set (result @ [current])"
        using "2.prems" by simp
      show "\<forall>c \<in> set (result @ [current]). parent_rel edges `` {c} \<subseteq> set (result @ [current]) \<union> set ?s"
        using "2.prems" s by fastforce
    qed
    with True s show ?thesis by auto
  next
    case False
    then have "current \<in> set result" using "2.prems" by auto
    with 2 False show ?thesis by auto
  qed
qed

text \<open>
  C21. \<open>get_ancestors\<close> terminates on every graph, cyclic or not, and lists each vertex that is
  reachable over parent edges from the start (the start included) exactly once.
\<close>
theorem get_ancestors_spec:
  "distinct (get_ancestors dag h) \<and> set (get_ancestors dag h) = (parent_rel (dag_edges dag))\<^sup>* `` {h}"
proof -
  let ?R = "set (get_ancestors dag h)"
  have "h \<in> ?R" and closed: "parent_rel (dag_edges dag) `` ?R \<subseteq> ?R"
    using ancestor_loop_complete [of "[]" "[]" "dag_edges dag" "[h]"]
    by (simp_all add: get_ancestors_def)
  have "y \<in> ?R" if "(h, y) \<in> (parent_rel (dag_edges dag))\<^sup>*" for y
    using that \<open>h \<in> ?R\<close> closed by (induction rule: rtrancl_induct) auto
  moreover have "?R \<subseteq> (parent_rel (dag_edges dag))\<^sup>* `` {h}"
    using ancestor_loop_sound [of "dag_edges dag" "[]" "[]" "[h]"] by (simp add: get_ancestors_def)
  moreover have "distinct (get_ancestors dag h)"
    unfolding get_ancestors_def by (rule ancestor_loop_distinct) simp_all
  ultimately show ?thesis by blast
qed

subsection \<open>Topological sort\<close>

definition parents_of :: "dag_ordering \<Rightarrow> hash \<Rightarrow> hash list" where
  "parents_of dag h = (case hm_get (dag_vertices dag) h of None \<Rightarrow> [] | Some v \<Rightarrow> dv_parents v)"

definition dag_keys :: "dag_ordering \<Rightarrow> hash set" where
  "dag_keys dag = fst ` set (dag_vertices dag)"

definition adj_of :: "(hash, hash list) hashmap \<Rightarrow> hash \<Rightarrow> hash list" where
  "adj_of adj p = unwrap_or (hm_get adj p) []"

lemma count_parent_step:
  "hm_get in_degree h = Some d \<Longrightarrow> count_parent h x (in_degree, adj) =
    (hm_insert h (d + 1) in_degree, hm_insert x (adj_of adj x @ [h]) adj)"
  by (simp add: count_parent_def adj_of_def)

lemma relax_step:
  "hm_get deg n = Some d \<Longrightarrow> 0 < d \<Longrightarrow>
    relax n (deg, q) = (hm_insert n (d - 1) deg, if d = 1 then q @ [n] else q)"
  by (auto simp: relax_def Let_def)

lemma fold_count_parent:
  assumes "fold (count_parent h) ps (in_degree, adj) = (in_degree', adj')"
    and "hm_get in_degree h = Some d"
  shows "hm_get in_degree' = (hm_get in_degree)(h \<mapsto> d + length ps) \<and>
    (\<forall>p v. count_list (adj_of adj' p) v =
       count_list (adj_of adj p) v + (if v = h then count_list ps p else 0)) \<and>
    (hm_wf in_degree \<longrightarrow> hm_wf in_degree')"
  using assms
proof (induction ps arbitrary: in_degree adj d)
  case Nil
  then show ?case by (auto simp: fun_eq_iff)
next
  case (Cons x ps)
  let ?deg = "hm_insert h (d + 1) in_degree"
  let ?adj = "hm_insert x (adj_of adj x @ [h]) adj"
  have "fold (count_parent h) ps (?deg, ?adj) = (in_degree', adj')"
    using Cons.prems by (simp add: count_parent_step)
  from Cons.IH [OF this, of "d + 1"]
  show ?case by (auto simp: adj_of_def fun_eq_iff)
qed

lemma fold_count_vertex:
  assumes "fold count_vertex vs (in_degree, adj) = (in_degree', adj')"
    and "distinct (map fst vs)" and "\<forall>(h, v) \<in> set vs. hm_get in_degree h = None"
  shows "hm_get in_degree' = hm_get in_degree ++ map_of (map (\<lambda>(h, v). (h, length (dv_parents v))) vs) \<and>
    (\<forall>p v. count_list (adj_of adj' p) v = count_list (adj_of adj p) v +
       (case map_of vs v of None \<Rightarrow> 0 | Some x \<Rightarrow> count_list (dv_parents x) p)) \<and>
    (hm_wf in_degree \<longrightarrow> hm_wf in_degree')"
  using assms
proof (induction vs arbitrary: in_degree adj)
  case Nil
  then show ?case by simp
next
  case (Cons x vs)
  obtain h v where x: "x = (h, v)" by (cases x)
  obtain deg1 adj1 where step: "count_vertex x (in_degree, adj) = (deg1, adj1)" by fastforce
  have h: "hm_get in_degree h = None" using Cons.prems(3) by (simp add: x)
  have "fold (count_parent h) (dv_parents v) (hm_insert h 0 in_degree, adj) = (deg1, adj1)"
    using step h by (simp add: count_vertex_def x)
  from fold_count_parent [OF this, of 0]
  have s: "hm_get deg1 = (hm_get in_degree)(h \<mapsto> length (dv_parents v))"
    "\<And>p w. count_list (adj_of adj1 p) w =
       count_list (adj_of adj p) w + (if w = h then count_list (dv_parents v) p else 0)"
    "hm_wf in_degree \<Longrightarrow> hm_wf deg1" by simp_all
  have nh: "h \<notin> fst ` set vs" using Cons.prems(2) by (simp add: x)
  have "fold count_vertex vs (deg1, adj1) = (in_degree', adj')"
    using Cons.prems(1) step by simp
  moreover have "\<forall>(k, v) \<in> set vs. hm_get deg1 k = None"
    using Cons.prems(3) nh by (force simp: s(1))
  ultimately have ih: "hm_get in_degree' = hm_get deg1 ++ map_of (map (\<lambda>(h, v). (h, length (dv_parents v))) vs)"
    "\<And>p w. count_list (adj_of adj' p) w = count_list (adj_of adj1 p) w +
       (case map_of vs w of None \<Rightarrow> 0 | Some x \<Rightarrow> count_list (dv_parents x) p)"
    "hm_wf deg1 \<Longrightarrow> hm_wf in_degree'"
    using Cons.IH [of deg1 adj1] Cons.prems(2) by simp_all
  have "map_of vs h = None" using nh by (simp add: map_of_eq_None_iff)
  moreover have "map_of (map (\<lambda>(h, v). (h, length (dv_parents v))) vs) h = None"
    using nh by (force simp: map_of_eq_None_iff)
  ultimately show ?case
    using ih s by (auto simp: x map_add_def fun_eq_iff split: option.splits)
qed

lemma fold_relax:
  assumes "fold relax ns (deg, q) = (deg', q')"
    and "\<forall>n \<in> set ns. \<exists>d. hm_get deg n = Some d \<and> count_list ns n \<le> d"
  shows "(\<forall>n. hm_get deg' n = map_option (\<lambda>d. d - count_list ns n) (hm_get deg n)) \<and>
    (\<exists>new. q' = q @ new \<and> distinct new \<and>
       set new = {n \<in> set ns. hm_get deg n = Some (count_list ns n)})"
  using assms
proof (induction ns arbitrary: deg q)
  case Nil
  then show ?case by (simp add: option.map_ident)
next
  case (Cons n ns)
  obtain d where d: "hm_get deg n = Some d" "Suc (count_list ns n) \<le> d"
    using Cons.prems(2) by auto
  let ?deg = "hm_insert n (d - 1) deg"
  let ?q = "if d = 1 then q @ [n] else q"
  have "fold relax ns (?deg, ?q) = (deg', q')"
    using Cons.prems(1) relax_step [OF d(1)] d(2) by simp
  moreover have "\<forall>m \<in> set ns. \<exists>e. hm_get ?deg m = Some e \<and> count_list ns m \<le> e"
    using Cons.prems(2) d by fastforce
  ultimately have ih: "\<forall>m. hm_get deg' m = map_option (\<lambda>d. d - count_list ns m) (hm_get ?deg m)"
    "\<exists>new. q' = ?q @ new \<and> distinct new \<and> set new = {m \<in> set ns. hm_get ?deg m = Some (count_list ns m)}"
    using Cons.IH [of ?deg ?q] by simp_all
  then obtain new where new: "q' = ?q @ new" "distinct new"
    "set new = {m \<in> set ns. hm_get ?deg m = Some (count_list ns m)}" by blast
  have deg': "hm_get deg' m = map_option (\<lambda>d. d - count_list (n # ns) m) (hm_get deg m)" for m
    using ih(1) d by (cases "m = n") auto
  show ?case
  proof (cases "d = 1")
    case True
    then have zero: "count_list ns n = 0" using d(2) by simp
    then have "n \<notin> set ns" by (simp add: count_list_0_iff)
    with new True d zero deg' show ?thesis
      by (intro conjI exI [of _ "n # new"]) auto
  next
    case False
    have "set new = {m \<in> set (n # ns). hm_get deg m = Some (count_list (n # ns) m)}"
    proof (rule set_eqI)
      fix m
      show "m \<in> set new \<longleftrightarrow> m \<in> {m \<in> set (n # ns). hm_get deg m = Some (count_list (n # ns) m)}"
        using d False count_list_0_iff [of ns n] unfolding new(3) by (cases "m = n") auto
    qed
    moreover have "q' = q @ new" using new(1) False by simp
    ultimately show ?thesis using new(2) deg' by blast
  qed
qed

text \<open>The number of parents of \<open>v\<close> that have not been output yet.\<close>

definition pending_parents :: "dag_ordering \<Rightarrow> hash list \<Rightarrow> hash \<Rightarrow> nat" where
  "pending_parents dag done v = length (filter (\<lambda>p. p \<notin> set done) (parents_of dag v))"

lemma pending_snoc:
  assumes "c \<notin> set done"
  shows "pending_parents dag done v = pending_parents dag (done @ [c]) v + count_list (parents_of dag v) c"
proof -
  have "length (filter (\<lambda>p. p \<notin> set done) ps) =
      length (filter (\<lambda>p. p \<notin> set (done @ [c])) ps) + count_list ps c" for ps
    using assms by (induction ps) auto
  then show ?thesis unfolding pending_parents_def .
qed

lemma pending_zero: "pending_parents dag done v = 0 \<longleftrightarrow> set (parents_of dag v) \<subseteq> set done"
  by (auto simp: pending_parents_def filter_empty_conv)

definition kahn_inv :: "dag_ordering \<Rightarrow> (hash, nat) hashmap \<Rightarrow> hash list \<Rightarrow> hash list \<Rightarrow> bool" where
  "kahn_inv dag deg queue result \<longleftrightarrow>
     distinct (result @ queue) \<and> set (result @ queue) \<subseteq> dag_keys dag \<and>
     (\<forall>v. hm_get deg v = (if v \<in> dag_keys dag then Some (pending_parents dag result v) else None)) \<and>
     (\<forall>v \<in> dag_keys dag. pending_parents dag result v = 0 \<longleftrightarrow> v \<in> set (result @ queue)) \<and>
     (\<forall>i < length result. set (parents_of dag (result ! i)) \<subseteq> set (take i result))"

definition adj_correct :: "dag_ordering \<Rightarrow> (hash, hash list) hashmap \<Rightarrow> bool" where
  "adj_correct dag adj \<longleftrightarrow> (\<forall>p v. count_list (adj_of adj p) v =
     (if v \<in> dag_keys dag then count_list (parents_of dag v) p else 0))"

lemma kahn_step:
  assumes "kahn_inv dag deg (c # queue) result" and "adj_correct dag adj"
    and "fold relax (adj_of adj c) (deg, queue) = (deg', queue')"
  shows "kahn_inv dag deg' queue' (result @ [c])"
proof -
  let ?K = "dag_keys dag" and ?P = "parents_of dag" and ?r = "result @ [c]"
  have inv: "distinct (result @ c # queue)" "set (result @ c # queue) \<subseteq> ?K"
    "\<And>v. hm_get deg v = (if v \<in> ?K then Some (pending_parents dag result v) else None)"
    "\<And>v. v \<in> ?K \<Longrightarrow> pending_parents dag result v = 0 \<longleftrightarrow> v \<in> set (result @ c # queue)"
    "\<And>i. i < length result \<Longrightarrow> set (?P (result ! i)) \<subseteq> set (take i result)"
    using assms(1) unfolding kahn_inv_def by blast+
  have c: "c \<notin> set result" "c \<in> ?K" using inv(1,2) by auto
  note snoc = pending_snoc [OF c(1), of dag]
  have adj: "count_list (adj_of adj c) v = (if v \<in> ?K then count_list (?P v) c else 0)" for v
    using assms(2) by (simp add: adj_correct_def)
  have in_adj: "v \<in> set (adj_of adj c) \<longleftrightarrow> v \<in> ?K \<and> c \<in> set (?P v)" for v
    using adj [of v] count_list_0_iff [of "adj_of adj c" v] count_list_0_iff [of "?P v" c]
    by (auto split: if_splits)
  have "\<forall>n \<in> set (adj_of adj c). \<exists>d. hm_get deg n = Some d \<and> count_list (adj_of adj c) n \<le> d"
    using snoc by (auto simp: in_adj inv(3) adj)
  from fold_relax [OF assms(3) this] obtain new where
    deg': "\<And>n. hm_get deg' n = map_option (\<lambda>d. d - count_list (adj_of adj c) n) (hm_get deg n)"
    and new: "queue' = queue @ new" "distinct new"
      "set new = {n \<in> set (adj_of adj c). hm_get deg n = Some (count_list (adj_of adj c) n)}"
    by blast
  have set_new: "set new = {n \<in> ?K. c \<in> set (?P n) \<and> pending_parents dag ?r n = 0}"
    using snoc by (auto simp: new(3) in_adj inv(3) adj)
  have pos: "pending_parents dag result n \<noteq> 0" if "n \<in> set new" for n
    using that snoc [of n] count_list_0_iff [of "?P n" c] by (auto simp: set_new)
  have disj: "set new \<inter> set (result @ c # queue) = {}"
    using pos inv(4) set_new by blast
  have d1: "distinct (?r @ queue')" using inv(1) new(1,2) disj by auto
  have d2: "set (?r @ queue') \<subseteq> ?K" using inv(2) new(1) set_new by auto
  have d3: "hm_get deg' v = (if v \<in> ?K then Some (pending_parents dag ?r v) else None)" for v
    using snoc [of v] by (simp add: deg' inv(3) adj)
  have d4: "pending_parents dag ?r v = 0 \<longleftrightarrow> v \<in> set (?r @ queue')" if "v \<in> ?K" for v
    using inv(4) [OF that] snoc [of v] that count_list_0_iff [of "?P v" c]
    by (auto simp: new(1) set_new)
  have "set (?P c) \<subseteq> set result"
    using inv(4) [OF c(2)] by (simp add: pending_zero)
  then have d5: "set (?P (?r ! i)) \<subseteq> set (take i ?r)" if "i < length ?r" for i
    using inv(5) [of i] that by (cases "i < length result") (auto simp: nth_append less_Suc_eq)
  show ?thesis unfolding kahn_inv_def using d1 d2 d3 d4 d5 by blast
qed

lemma kahn_loop_inv:
  assumes "kahn_inv dag deg queue result" and "adj_correct dag adj"
    and "card (dag_keys dag) \<le> fuel + length result"
  shows "\<exists>ts deg'. kahn_loop fuel adj deg queue result = Some ts \<and> kahn_inv dag deg' [] ts"
  using assms
proof (induction fuel adj deg queue result rule: kahn_loop.induct)
  case (1 fuel adj deg result)
  then show ?case by auto
next
  case (2 adj deg c queue result)
  have "length (result @ c # queue) = card (set (result @ c # queue))"
    using "2.prems"(1) distinct_card [of "result @ c # queue"] by (simp only: kahn_inv_def)
  also have "\<dots> \<le> card (dag_keys dag)"
    using "2.prems"(1) by (intro card_mono) (simp_all add: kahn_inv_def dag_keys_def)
  finally show ?case using "2.prems"(3) by simp
next
  case (3 fuel adj deg c queue result)
  obtain deg' queue' where step: "fold relax (adj_of adj c) (deg, queue) = (deg', queue')" by fastforce
  from kahn_step [OF "3.prems"(1,2) this] "3.IH" [OF step [unfolded adj_of_def, symmetric]] "3.prems"
  show ?case using step by (simp add: adj_of_def)
qed

definition dag_wf :: "dag_ordering \<Rightarrow> bool" where
  "dag_wf dag \<longleftrightarrow> hm_wf (dag_vertices dag)"

text \<open>
  The queue starts with the roots in the order of the hash map of in-degrees; what follows holds for
  every order of them.
\<close>

lemma sort_from_inv:
  assumes "dag_wf dag" and c: "fold count_vertex (dag_vertices dag) ([], []) = (deg, adj)"
    and q0: "mset q = mset (map fst (filter (\<lambda>(_, deg). deg = 0) deg))"
  shows "\<exists>ts deg'. kahn_loop (length (dag_vertices dag)) adj deg q [] = Some ts \<and> kahn_inv dag deg' [] ts"
proof -
  let ?vs = "dag_vertices dag"
  have d: "distinct (map fst ?vs)" using assms by (simp add: dag_wf_def hm_wf_def)
  note cv = fold_count_vertex [OF c d]
  have keys: "v \<in> dag_keys dag \<longleftrightarrow> map_of ?vs v \<noteq> None" for v
    by (auto simp: dag_keys_def map_of_eq_None_iff)
  have lens: "map_of (map (\<lambda>(h, v). (h, length (dv_parents v))) ?vs) v
      = (if v \<in> dag_keys dag then Some (length (parents_of dag v)) else None)" for v
    using map_of_map [of "\<lambda>_ x. length (dv_parents x)" ?vs]
    by (auto simp: keys parents_of_def hm_get_def fun_eq_iff map_of_map split: option.splits)
  have deg: "hm_get deg v = (if v \<in> dag_keys dag then Some (pending_parents dag [] v) else None)" for v
    using cv lens by (simp add: pending_parents_def map_add_def)
  have wf: "hm_wf deg" using cv by simp
  have adj: "adj_correct dag adj"
    using cv by (auto simp: adj_correct_def adj_of_def keys parents_of_def hm_get_def split: option.splits)
  let ?q = "map fst (filter (\<lambda>(_, deg). deg = 0) deg)"
  have q: "v \<in> set ?q \<longleftrightarrow> hm_get deg v = Some 0" for v
    by (force simp: hm_in_set_get [OF wf, symmetric])
  have "distinct ?q" using wf by (simp add: hm_wf_def distinct_map_filter)
  then have "distinct q" using mset_eq_imp_distinct_iff [OF q0] by simp
  moreover have "set ?q = {v \<in> dag_keys dag. pending_parents dag [] v = 0}"
    by (rule set_eqI) (simp only: q deg mem_Collect_eq, simp)
  then have sq: "set q = {v \<in> dag_keys dag. pending_parents dag [] v = 0}"
    using mset_eq_setD [OF q0] by simp
  ultimately have "kahn_inv dag deg q []"
    unfolding kahn_inv_def append_Nil sq using deg by simp
  moreover have "card (dag_keys dag) \<le> length ?vs"
    by (simp add: dag_keys_def card_length [of "map fst ?vs", simplified])
  ultimately show ?thesis
    using kahn_loop_inv [of dag deg q "[]" adj "length ?vs"] adj by simp
qed

lemma topological_sort_inv:
  assumes "dag_wf dag"
  shows "\<exists>ts deg'. topological_sort dag = Some ts \<and> kahn_inv dag deg' [] ts"
proof -
  obtain deg adj where c: "fold count_vertex (dag_vertices dag) ([], []) = (deg, adj)" by fastforce
  from sort_from_inv [OF assms c refl] show ?thesis by (simp add: topological_sort_def c)
qed

text \<open>
  C1. \<open>topological_sort\<close> returns: the fuel of one step per vertex is enough. Its result lists
  distinct vertices of the DAG, and every parent of a listed vertex stands before it.
\<close>
theorem topological_sort_order:
  assumes "dag_wf dag"
  shows "\<exists>ts. topological_sort dag = Some ts \<and> distinct ts \<and> set ts \<subseteq> dag_keys dag \<and>
    (\<forall>i < length ts. set (parents_of dag (ts ! i)) \<subseteq> set (take i ts))"
  using topological_sort_inv [OF assms] by (auto simp: kahn_inv_def)

text \<open>
  On an acyclic graph whose parents are all vertices (there is a rank that decreases from every
  vertex to its parents) the sort is complete: it lists every vertex.
\<close>
theorem topological_sort_complete:
  assumes "dag_wf dag"
    and "\<And>v p. v \<in> dag_keys dag \<Longrightarrow> p \<in> set (parents_of dag v) \<Longrightarrow>
      p \<in> dag_keys dag \<and> (rank p :: nat) < rank v"
  shows "\<exists>ts. topological_sort dag = Some ts \<and> distinct ts \<and> set ts = dag_keys dag"
proof -
  obtain ts deg where ts: "topological_sort dag = Some ts" and inv: "kahn_inv dag deg [] ts"
    using topological_sort_inv [OF assms(1)] by blast
  have "v \<in> dag_keys dag \<Longrightarrow> v \<in> set ts" for v
  proof (induction "rank v" arbitrary: v rule: less_induct)
    case less
    then have "set (parents_of dag v) \<subseteq> set ts" using assms(2) by blast
    with inv less.prems show ?case by (simp add: kahn_inv_def pending_zero)
  qed
  with ts inv show ?thesis by (auto simp: kahn_inv_def)
qed

text \<open>The DAG of three vertices of the repository's test: \<open>v2\<close> over \<open>v1\<close>, \<open>v3\<close> over both.\<close>

definition sample_dag :: dag_ordering where
  "sample_dag = fold (\<lambda>(h, ps). add_vertex \<lparr>dv_hash = Hash [h], dv_parents = map (\<lambda>p. Hash [p]) ps,
     dv_timestamp = 0, dv_round = 1, dv_is_block = True\<rparr>) [(3, [1, 2]), (2, [1]), (1, [])] dag_new"

lemma sample_dag_wf: "dag_wf sample_dag"
  by (simp add: dag_wf_def sample_dag_def add_vertex_def dag_new_def)

theorem topological_sort_order_witness:
  "topological_sort sample_dag = Some [Hash [1], Hash [2], Hash [3]] \<and>
   set (parents_of sample_dag (Hash [3])) \<subseteq> set [Hash [1], Hash [2]]"
proof -
  have r: "topological_sort sample_dag = Some [Hash [1], Hash [2], Hash [3]]"
    by (simp add: sample_dag_def add_vertex_def dag_new_def topological_sort_def count_vertex_def
        count_parent_def relax_def Let_def hm_insert_def hm_get_def)
  with topological_sort_order [OF sample_dag_wf]
  have "\<forall>i < Suc (Suc (Suc 0)). set (parents_of sample_dag ([Hash [1], Hash [2], Hash [3]] ! i))
      \<subseteq> set (take i [Hash [1], Hash [2], Hash [3]])"
    by simp
  from this [rule_format, of "Suc (Suc 0)"] r show ?thesis by simp
qed

theorem topological_sort_complete_witness:
  "\<exists>ts. topological_sort sample_dag = Some ts \<and> distinct ts \<and> set ts = {Hash [1], Hash [2], Hash [3]}"
proof -
  have k: "dag_keys sample_dag = {Hash [1], Hash [2], Hash [3]}"
    by (auto simp: dag_keys_def sample_dag_def add_vertex_def dag_new_def hm_insert_def)
  have "p \<in> dag_keys sample_dag \<and> unat (hd (hash_bytes p)) < unat (hd (hash_bytes v))"
    if "v \<in> dag_keys sample_dag" "p \<in> set (parents_of sample_dag v)" for v p
    using that unfolding k
    by (auto simp: parents_of_def sample_dag_def add_vertex_def dag_new_def hm_insert_def hm_get_def)
  from topological_sort_complete [OF sample_dag_wf this] show ?thesis unfolding k by blast
qed

subsection \<open>Termination\<close>

text \<open>The loop as the source has it, without fuel: \<open>None\<close> means that it runs forever.\<close>

partial_function (option) kahn_while ::
    "(hash, hash list) hashmap \<Rightarrow> (hash, nat) hashmap \<Rightarrow> hash list \<Rightarrow> hash list \<Rightarrow> hash list option" where
  "kahn_while adj in_degree queue result =
     (case queue of
        [] \<Rightarrow> Some result
      | current # queue' \<Rightarrow>
          (case fold relax (unwrap_or (hm_get adj current) []) (in_degree, queue') of
             (in_degree', queue'') \<Rightarrow> kahn_while adj in_degree' queue'' (result @ [current])))"

lemma kahn_while_simps [simp]:
  "kahn_while adj in_degree [] result = Some result"
  "kahn_while adj in_degree (current # queue) result =
     (case fold relax (unwrap_or (hm_get adj current) []) (in_degree, queue) of
        (in_degree', queue') \<Rightarrow> kahn_while adj in_degree' queue' (result @ [current]))"
  by (subst kahn_while.simps, simp)+

lemma kahn_while_fuel:
  "kahn_loop fuel adj in_degree queue result = Some ts \<Longrightarrow> kahn_while adj in_degree queue result = Some ts"
  by (induction fuel adj in_degree queue result rule: kahn_loop.induct) (auto split: prod.splits)

text \<open>
  C26. The loop of the topological sort ends on every graph, cyclic or not, and with parents that are
  no vertices: run without fuel, it returns what \<open>topological_sort\<close> returns with one step per vertex.
\<close>
theorem topological_sort_terminates:
  assumes "dag_wf dag"
  shows "case fold count_vertex (dag_vertices dag) ([], []) of (in_degree, adj) \<Rightarrow>
    \<exists>ts. kahn_while adj in_degree (map fst (filter (\<lambda>(_, deg). deg = 0) in_degree)) [] = Some ts \<and>
      topological_sort dag = Some ts \<and> length ts \<le> length (dag_vertices dag)"
proof -
  obtain in_degree adj where f: "fold count_vertex (dag_vertices dag) ([], []) = (in_degree, adj)" by fastforce
  obtain ts deg where ts: "topological_sort dag = Some ts" "kahn_inv dag deg [] ts"
    using topological_sort_inv [OF assms] by blast
  have "length ts \<le> length (dag_vertices dag)"
    using ts(2) card_mono [of "dag_keys dag" "set ts"] card_length [of "map fst (dag_vertices dag)"]
    by (auto simp: kahn_inv_def dag_keys_def distinct_card intro: order_trans)
  moreover have "kahn_while adj in_degree (map fst (filter (\<lambda>(_, deg). deg = 0) in_degree)) [] = Some ts"
    using ts(1) by (intro kahn_while_fuel) (simp add: topological_sort_def f)
  ultimately show ?thesis using ts(1) f by simp
qed

definition sample_cycle :: dag_ordering where
  "sample_cycle = add_vertex \<lparr>dv_hash = Hash [1], dv_parents = [Hash [2]], dv_timestamp = 0, dv_round = 0, dv_is_block = True\<rparr>
     (add_vertex \<lparr>dv_hash = Hash [2], dv_parents = [Hash [1]], dv_timestamp = 0, dv_round = 0, dv_is_block = True\<rparr> dag_new)"

theorem topological_sort_terminates_witness: "topological_sort sample_cycle = Some []"
proof -
  have wf: "dag_wf sample_cycle"
    by (simp add: sample_cycle_def dag_wf_def add_vertex_def dag_new_def hm_wf_def hm_insert_def)
  obtain ind adj where f: "fold count_vertex (dag_vertices sample_cycle) ([], []) = (ind, adj)" by fastforce
  then have "map fst (filter (\<lambda>(_, deg). deg = 0) ind) = []"
    by (simp add: sample_cycle_def add_vertex_def dag_new_def count_vertex_def count_parent_def hm_insert_def hm_get_def)
      (auto split: if_splits)
  then show ?thesis using topological_sort_terminates [OF wf] by (simp add: f)
qed

end
