(* ===== verification/DagAgree.thy ===== *)
theory DagAgree
  imports Dag
begin

text \<open>
  What two nodes with the same block DAG agree on (\<open>DagOrdering::topological_sort\<close>,
  \<^verbatim>\<open>src/src/consensus/mod.rs\<close>). The sort walks over hash maps, so two nodes that hold the same vertices may
  walk over them in different orders: their graphs are equal as maps (\<open>same_dag\<close>), not as lists. The map
  of in-degrees is made anew by every call and has an order of its own: \<open>sorts_to\<close> is the sort under any
  of these orders, and \<open>topological_sort\<close> of theory \<open>Dag\<close> one of its runs.
  \<open>sortable\<close> describes what the sort returns without an order, for graphs with cycles and with
  parents that are missing, too; \<open>descends\<close> is the order that all sorts respect.
\<close>

subsection \<open>What the sort lists\<close>

inductive sortable :: "dag_ordering \<Rightarrow> hash \<Rightarrow> bool" for dag where
  sortableI: "v \<in> dag_keys dag \<Longrightarrow> (\<And>p. p \<in> set (parents_of dag v) \<Longrightarrow> sortable dag p) \<Longrightarrow> sortable dag v"

inductive_cases sortableE: "sortable dag v"

lemma sort_lists_sortable:
  assumes "set ts \<subseteq> dag_keys dag" and "\<forall>i < length ts. set (parents_of dag (ts ! i)) \<subseteq> set (take i ts)"
    and "i < length ts"
  shows "sortable dag (ts ! i)"
  using assms(3)
proof (induction i rule: less_induct)
  case (less i)
  show ?case
  proof (rule sortableI)
    show "ts ! i \<in> dag_keys dag" using assms(1) less.prems by auto
    fix p assume "p \<in> set (parents_of dag (ts ! i))"
    with assms(2) less.prems have "p \<in> set (take i ts)" by blast
    then obtain j where "j < i" "p = ts ! j" using less.prems by (auto simp: in_set_conv_nth)
    then show "sortable dag p" using less by simp
  qed
qed

definition sorts_to :: "dag_ordering \<Rightarrow> hash list \<Rightarrow> bool" where
  "sorts_to dag ts \<longleftrightarrow>
     (case fold count_vertex (dag_vertices dag) ([], []) of
        (in_degree, adj) \<Rightarrow>
          \<exists>queue. mset queue = mset (map fst (filter (\<lambda>(_, deg). deg = 0) in_degree)) \<and>
            kahn_loop (length (dag_vertices dag)) adj in_degree queue [] = Some ts)"

lemma topological_sort_sorts: "topological_sort dag = Some ts \<Longrightarrow> sorts_to dag ts"
proof -
  assume t: "topological_sort dag = Some ts"
  obtain deg adj where c: "fold count_vertex (dag_vertices dag) ([], []) = (deg, adj)" by fastforce
  show ?thesis using t unfolding topological_sort_def sorts_to_def c prod.case by blast
qed

lemma sorts_exact:
  assumes "dag_wf dag" and "sorts_to dag ts"
  shows "distinct ts" and "set ts = {v. sortable dag v}"
    and "\<forall>i < length ts. set (parents_of dag (ts ! i)) \<subseteq> set (take i ts)"
proof -
  obtain deg adj where c: "fold count_vertex (dag_vertices dag) ([], []) = (deg, adj)" by fastforce
  obtain q where q: "mset q = mset (map fst (filter (\<lambda>(_, deg). deg = 0) deg))"
    and run: "kahn_loop (length (dag_vertices dag)) adj deg q [] = Some ts"
    using assms(2) by (auto simp: sorts_to_def c)
  obtain deg' where inv: "kahn_inv dag deg' [] ts" using sort_from_inv [OF assms(1) c q] run by auto
  have "v \<in> set ts" if "sortable dag v" for v
    using that
  proof induction
    case (sortableI v)
    then have "set (parents_of dag v) \<subseteq> set ts" by blast
    with inv sortableI.hyps(1) show ?case by (simp add: kahn_inv_def pending_zero)
  qed
  moreover have "sortable dag v" if "v \<in> set ts" for v
    using that sort_lists_sortable [of ts dag] inv by (auto simp: kahn_inv_def in_set_conv_nth)
  ultimately show "set ts = {v. sortable dag v}" by blast
  show "distinct ts" "\<forall>i < length ts. set (parents_of dag (ts ! i)) \<subseteq> set (take i ts)"
    using inv by (simp_all add: kahn_inv_def)
qed

subsection \<open>The common order\<close>

definition before :: "'a list \<Rightarrow> 'a \<Rightarrow> 'a \<Rightarrow> bool" where
  "before xs u v \<longleftrightarrow> (\<exists>j < length xs. xs ! j = v \<and> u \<in> set (take j xs))"

lemma before_trans:
  assumes "distinct xs" and "before xs u v" and "before xs v w"
  shows "before xs u w"
proof -
  obtain j where j: "j < length xs" "xs ! j = v" "u \<in> set (take j xs)" using assms(2) by (auto simp: before_def)
  obtain k where k: "k < length xs" "xs ! k = w" "v \<in> set (take k xs)" using assms(3) by (auto simp: before_def)
  from k(1,3) obtain i where "i < k" "xs ! i = v" by (auto simp: in_set_conv_nth)
  then have "j < k" using j(1,2) k(1) nth_eq_iff_index_eq [OF assms(1), of i j] by simp
  then have "set (take j xs) \<subseteq> set (take k xs)" by (simp add: set_take_subset_set_take)
  with j(3) k show ?thesis by (auto simp: before_def)
qed

lemma before_asym: "distinct xs \<Longrightarrow> before xs u v \<Longrightarrow> \<not> before xs v u"
proof
  assume "distinct xs" "before xs u v" "before xs v u"
  then have "before xs u u" by (blast intro: before_trans)
  then obtain j where "j < length xs" "xs ! j = u" "u \<in> set (take j xs)" by (auto simp: before_def)
  with \<open>distinct xs\<close> show False by (auto simp: in_set_conv_nth nth_eq_iff_index_eq)
qed

text \<open>\<open>descends dag v u\<close>: \<open>u\<close> is a parent of \<open>v\<close>, or a parent of one, and so on.\<close>

definition descends :: "dag_ordering \<Rightarrow> hash \<Rightarrow> hash \<Rightarrow> bool" where
  "descends dag = (\<lambda>v p. p \<in> set (parents_of dag v))\<^sup>+\<^sup>+"

lemma descends_before:
  assumes "distinct ts" and order: "\<forall>i < length ts. set (parents_of dag (ts ! i)) \<subseteq> set (take i ts)"
    and "descends dag v u" and "v \<in> set ts"
  shows "before ts u v"
proof -
  have parent: "before ts p w" if "w \<in> set ts" "p \<in> set (parents_of dag w)" for p w
  proof -
    from that(1) obtain i where "i < length ts" "ts ! i = w" by (auto simp: in_set_conv_nth)
    with order that(2) show ?thesis by (auto simp: before_def)
  qed
  have "before ts u v \<and> u \<in> set ts"
    using assms(3) [unfolded descends_def]
  proof (induction rule: tranclp_induct)
    case (base p)
    then show ?case using parent [OF assms(4)] by (auto simp: before_def dest: in_set_takeD)
  next
    case (step p q)
    then show ?case using parent [of p q] before_trans [OF assms(1), of q p v]
      by (auto simp: before_def dest: in_set_takeD)
  qed
  then show ?thesis ..
qed

subsection \<open>Two nodes\<close>

definition same_dag :: "dag_ordering \<Rightarrow> dag_ordering \<Rightarrow> bool" where
  "same_dag dag dag' \<longleftrightarrow> hm_get (dag_vertices dag) = hm_get (dag_vertices dag')"

lemma same_dagD:
  assumes "same_dag dag dag'"
  shows "dag_keys dag = dag_keys dag'" and "parents_of dag = parents_of dag'"
proof -
  have keys: "v \<in> dag_keys d \<longleftrightarrow> hm_get (dag_vertices d) v \<noteq> None" for v d
    by (simp add: dag_keys_def hm_get_def map_of_eq_None_iff)
  show "dag_keys dag = dag_keys dag'" "parents_of dag = parents_of dag'"
    using assms by (auto simp: same_dag_def keys parents_of_def fun_eq_iff)
qed

lemma same_sortable: "same_dag dag dag' \<Longrightarrow> sortable dag v \<Longrightarrow> sortable dag' v"
  by (erule sortable.induct) (auto simp: same_dagD intro: sortableI)

lemma same_dag_sym: "same_dag dag dag' \<Longrightarrow> same_dag dag' dag"
  by (simp add: same_dag_def)

text \<open>
  C2. However the hash maps of two nodes with the same vertices enumerate them, and in whatever order
  their sorts start: both sorts return, list the same vertices, each once, exactly those whose
  ancestors are all present and on no cycle, and put every vertex behind all of its ancestors.
\<close>
theorem sorts_agree:
  assumes "dag_wf dag" and "dag_wf dag'" and "same_dag dag dag'" and "sorts_to dag ts" and "sorts_to dag' ts'"
  shows "mset ts = mset ts' \<and> distinct ts \<and> set ts = {v. sortable dag v} \<and>
    (\<forall>v \<in> set ts. \<forall>u. descends dag v u \<longrightarrow> before ts u v \<and> before ts' u v) \<and>
    (\<exists>us. topological_sort dag = Some us \<and> sorts_to dag us)"
proof -
  note ts = sorts_exact [OF assms(1,4)] and ts' = sorts_exact [OF assms(2,5), folded same_dagD(2) [OF assms(3)]]
  have sets: "set ts = set ts'"
    using same_sortable [OF assms(3)] same_sortable [OF same_dag_sym [OF assms(3)]] ts(2) ts'(2) by blast
  then have "mset ts = mset ts'" using ts(1) ts'(1) by (simp add: set_eq_iff_mset_eq_distinct)
  moreover have "before ts u v \<and> before ts' u v" if "v \<in> set ts" "descends dag v u" for u v
    using descends_before [OF ts(1,3) that(2)] descends_before [OF ts'(1,3) that(2)] that(1) sets by blast
  ultimately show ?thesis using ts topological_sort_inv [OF assms(1)] topological_sort_sorts [of dag] by blast
qed

text \<open>
  They agree on nothing more. Of two vertices without parents either may come first, on two nodes and
  even in two calls on one node.
\<close>

definition genesis_vertex :: "hash \<Rightarrow> dag_vertex" where
  "genesis_vertex h = \<lparr>dv_hash = h, dv_parents = [], dv_timestamp = 0, dv_round = 0, dv_is_block = True\<rparr>"

theorem concurrent_vertices_unordered:
  assumes "a \<noteq> b"
  defines "dag \<equiv> add_vertex (genesis_vertex b) (add_vertex (genesis_vertex a) dag_new)"
  shows "sorts_to dag [a, b] \<and> sorts_to dag [b, a]"
proof -
  have "fold count_vertex (dag_vertices dag) ([], []) = ([(a, 0), (b, 0)], [])" "length (dag_vertices dag) = 2"
    using assms(1) by (simp_all add: dag_def add_vertex_def genesis_vertex_def dag_new_def count_vertex_def hm_insert_def hm_get_def)
  then show ?thesis
    by (auto simp: sorts_to_def eval_nat_numeral hm_get_def intro: exI [of _ "[a, b]"] exI [of _ "[b, a]"])
qed

subsection \<open>Instances\<close>

text \<open>The graph of theory \<open>Dag\<close>, received in another order.\<close>

definition sample_dag_rev :: dag_ordering where
  "sample_dag_rev = fold (\<lambda>(h, ps). add_vertex \<lparr>dv_hash = Hash [h], dv_parents = map (\<lambda>p. Hash [p]) ps,
     dv_timestamp = 0, dv_round = 1, dv_is_block = True\<rparr>) [(1, []), (3, [1, 2]), (2, [1])] dag_new"

lemmas sample_dag_defs = sample_dag_def sample_dag_rev_def add_vertex_def dag_new_def hm_insert_def hm_get_def

lemma sample_dags:
  "dag_wf sample_dag_rev" "same_dag sample_dag sample_dag_rev" "sortable sample_dag (Hash [3])"
  "descends sample_dag (Hash [3]) (Hash [1])"
proof -
  have p: "parents_of sample_dag (Hash [1]) = []" "parents_of sample_dag (Hash [2]) = [Hash [1]]"
      "parents_of sample_dag (Hash [3]) = [Hash [1], Hash [2]]" "dag_keys sample_dag = {Hash [1], Hash [2], Hash [3]}"
    by (auto simp: parents_of_def dag_keys_def sample_dag_defs)
  have "sortable sample_dag (Hash [1])" by (rule sortableI) (simp_all add: p)
  moreover from this have "sortable sample_dag (Hash [2])" by - (rule sortableI, simp_all add: p)
  ultimately show "sortable sample_dag (Hash [3])" by - (rule sortableI, auto simp: p)
  show "descends sample_dag (Hash [3]) (Hash [1])"
    unfolding descends_def by (rule tranclp.r_into_trancl) (simp add: p)
  show "dag_wf sample_dag_rev" by (simp add: dag_wf_def sample_dag_rev_def add_vertex_def dag_new_def)
  show "same_dag sample_dag sample_dag_rev"
    by (simp add: same_dag_def sample_dag_def sample_dag_rev_def add_vertex_def dag_new_def fun_eq_iff)
qed

theorem sorts_agree_witness:
  "\<exists>ts ts'. topological_sort sample_dag = Some ts \<and> topological_sort sample_dag_rev = Some ts' \<and> mset ts = mset ts' \<and>
    before ts (Hash [1]) (Hash [3]) \<and> before ts' (Hash [1]) (Hash [3])"
proof -
  obtain ts ts' where ts: "topological_sort sample_dag = Some ts" "topological_sort sample_dag_rev = Some ts'"
    using topological_sort_inv [OF sample_dag_wf] topological_sort_inv [OF sample_dags(1)] by blast
  from sorts_agree [OF sample_dag_wf sample_dags(1,2) this [THEN topological_sort_sorts]] ts sample_dags(3,4)
  show ?thesis by blast
qed

end
