(* ===== verification/CrossLedger.thy ===== *)
theory CrossLedger
  imports Multichain Simulation
begin

text \<open>
  Cross-shard transfers (\<^verbatim>\<open>src/src/multichain/mod.rs\<close>) against two specifications. For calls by anybody, in any
  order, the log of the calls and their answers determines every balance, what the router holds, and
  what was created or lost (\<open>cross_calls\<close>). For honest calls, that is \<open>cross_step\<close> of theory
  \<open>Multichain\<close> (fresh ids, delivery of what the router holds), the shards implement an escrow, which
  takes an amount from one account and hands it out once (\<open>escrow_step\<close>).
\<close>

subsection \<open>The log of calls\<close>

datatype cross_event = Sent cross_tx "unit rs_result" | Received cross_tx "unit rs_result"

inductive cross_calls ::
    "ext \<Rightarrow> (address \<Rightarrow> hash) \<Rightarrow> ('ch \<Rightarrow> cross_tx \<Rightarrow> 'ch) \<Rightarrow> 'ch shard_manager \<Rightarrow> cross_event list \<Rightarrow>
      'ch shard_manager \<Rightarrow> bool"
  for E addr_hash try_send sm0 where
  no_call: "cross_calls E addr_hash try_send sm0 [] sm0"
| call_send: "cross_calls E addr_hash try_send sm0 es sm \<Longrightarrow> process_cross_chain_tx try_send tx sm = (res, sm') \<Longrightarrow>
    cross_calls E addr_hash try_send sm0 (es @ [Sent tx res]) sm'"
| call_receive: "cross_calls E addr_hash try_send sm0 es sm \<Longrightarrow> receive_cross_chain_tx tx sm = (res, sm') \<Longrightarrow>
    cross_calls E addr_hash try_send sm0 (es @ [Received tx res]) sm'"
| call_route: "cross_calls E addr_hash try_send sm0 es sm \<Longrightarrow> route_transaction E addr_hash t sm = Some (rres, sm') \<Longrightarrow>
    cross_calls E addr_hash try_send sm0 es sm'"

text \<open>What one call does to an account, to the router and to the sum of both, for the shards \<open>S\<close>.\<close>

definition account_delta :: "u16 set \<Rightarrow> u16 \<Rightarrow> address \<Rightarrow> cross_event \<Rightarrow> u128" where
  "account_delta S i a e = (case e of
     Sent tx res \<Rightarrow>
       if ct_source_shard tx \<in> S \<and> i = ct_source_shard tx \<and> a = ct_sender tx \<and>
         res \<noteq> Err ''Insufficient balance for cross-chain transfer'' then - ct_amount tx else 0
   | Received tx res \<Rightarrow>
       if ct_target_shard tx \<in> S \<and> i = ct_target_shard tx \<and> a = ct_receiver tx then ct_amount tx else 0)"

definition transit_step :: "u16 set \<Rightarrow> cross_event \<Rightarrow> (hash \<rightharpoonup> cross_tx) \<Rightarrow> (hash \<rightharpoonup> cross_tx)" where
  "transit_step S e m = (case e of
     Sent tx res \<Rightarrow> if ct_source_shard tx \<in> S \<and> res = Ok () then m(ct_id tx \<mapsto> tx\<lparr>ct_status := SourceConfirmed\<rparr>) else m
   | Received tx res \<Rightarrow> if ct_target_shard tx \<in> S then m(ct_id tx := None) else m)"

definition supply_delta :: "u16 set \<Rightarrow> cross_event \<Rightarrow> (hash \<rightharpoonup> cross_tx) \<Rightarrow> u128" where
  "supply_delta S e m = (case e of
     Sent tx res \<Rightarrow>
       if ct_source_shard tx \<in> S \<and> res = Err ''Transaction already pending'' then - ct_amount tx else 0
   | Received tx res \<Rightarrow>
       if ct_target_shard tx \<in> S then ct_amount tx - (case m (ct_id tx) of None \<Rightarrow> 0 | Some p \<Rightarrow> ct_amount p) else 0)"

fun supply_gain :: "u16 set \<Rightarrow> cross_event list \<Rightarrow> (hash \<rightharpoonup> cross_tx) \<Rightarrow> u128" where
  "supply_gain S [] m = 0"
| "supply_gain S (e # es) m = supply_delta S e m + supply_gain S es (transit_step S e m)"

lemma supply_gain_snoc:
  "supply_gain S (es @ [e]) m = supply_gain S es m + supply_delta S e (fold (transit_step S) es m)"
  by (induction es arbitrary: m) simp_all

subsection \<open>One call\<close>

definition shard_ids :: "'ch shard_manager \<Rightarrow> u16 set" where
  "shard_ids sm = dom (hm_get (sm_shards sm))"

lemma shard_ids_iff: "i \<in> shard_ids sm \<longleftrightarrow> hm_get (sm_shards sm) i \<noteq> None"
  by (auto simp: shard_ids_def)

abbreviation transit :: "'ch shard_manager \<Rightarrow> hash \<rightharpoonup> cross_tx" where
  "transit sm \<equiv> hm_get (pending_txs (sm_router sm))"

text \<open>The books after a call, given those before and the answer.\<close>

definition books_follow :: "cross_event \<Rightarrow> 'ch shard_manager \<Rightarrow> 'ch shard_manager \<Rightarrow> bool" where
  "books_follow e sm sm' \<longleftrightarrow> sm_wf sm' \<and> shard_ids sm' = shard_ids sm \<and>
     (\<forall>i a. cross_balance sm' i a = cross_balance sm i a + account_delta (shard_ids sm) i a e) \<and>
     transit sm' = transit_step (shard_ids sm) e (transit sm) \<and>
     cross_supply sm' = cross_supply sm + supply_delta (shard_ids sm) e (transit sm)"

lemma balance_update:
  "hm_get (sm_shards sm) i = Some sh \<Longrightarrow>
    cross_balance (update_shard i (set_shard_account a acc sh) sm) j b =
      (if j = i \<and> b = a then acc_balance acc else cross_balance sm j b)"
  by (simp add: cross_balance_def update_shard_def)

lemma cross_balance_router [simp]: "cross_balance (sm\<lparr>sm_router := r\<rparr>) i a = cross_balance sm i a"
  by (simp add: cross_balance_def)

lemma shard_ids_simps [simp]:
  "shard_ids (sm\<lparr>sm_router := r\<rparr>) = shard_ids sm" "shard_ids (update_shard i sh sm) = insert i (shard_ids sm)"
  by (auto simp: shard_ids_def update_shard_def)

lemma send_follows:
  assumes "sm_wf sm" and "process_cross_chain_tx try_send tx sm = (res, sm')"
  shows "books_follow (Sent tx res) sm sm'"
proof (cases "hm_get (sm_shards sm) (ct_source_shard tx)")
  case None
  then have "ct_source_shard tx \<notin> shard_ids sm" "sm' = sm"
    using assms(2) by (simp_all add: shard_ids_iff process_cross_chain_tx_def)
  then show ?thesis using assms(1) by (simp add: books_follow_def account_delta_def transit_step_def supply_delta_def)
next
  case (Some sh)
  then have src: "ct_source_shard tx \<in> shard_ids sm" by (simp add: shard_ids_iff)
  let ?s = "shard_account sh (ct_sender tx)"
  show ?thesis
  proof (cases "acc_balance ?s < ct_amount tx")
    case True
    then have "res = Err ''Insufficient balance for cross-chain transfer''" "sm' = sm"
      using assms(2) Some by (auto simp: process_cross_chain_tx_def Let_def)
    then show ?thesis using assms(1) by (simp add: books_follow_def account_delta_def transit_step_def supply_delta_def)
  next
    case False
    let ?sm1 = "update_shard (ct_source_shard tx)
      (set_shard_account (ct_sender tx) (?s\<lparr>acc_balance := acc_balance ?s - ct_amount tx\<rparr>) sh) sm"
    obtain r where r: "submit_cross_tx try_send (tx\<lparr>ct_status := SourceConfirmed\<rparr>) (sm_router sm) = (res, r)"
      and sm': "sm' = ?sm1\<lparr>sm_router := r\<rparr>"
      using assms(2) Some False by (auto simp: process_cross_chain_tx_def Let_def update_shard_def split: prod.splits)
    have wf: "hm_wf (pending_txs (sm_router sm))" using assms(1) by (simp add: sm_wf_def)
    note sub = submit_spec [OF wf r, simplified]
    have res: "res = (if transit sm (ct_id tx) = None then Ok () else Err ''Transaction already pending'')"
      using sub(3) .
    have bal: "cross_balance sm' i a = cross_balance sm i a + account_delta (shard_ids sm) i a (Sent tx res)" for i a
      using Some src res by (auto simp: sm' balance_update account_delta_def) (simp_all add: cross_balance_def)
    have sup: "sm_wf sm' \<and> cross_supply sm' = cross_supply sm + supply_delta (shard_ids sm) (Sent tx res) (transit sm)"
      using process_cross_effect [OF assms] Some False src res
      by (auto simp: supply_delta_def cross_balance_def split: if_splits)
    have "transit sm' = transit_step (shard_ids sm) (Sent tx res) (transit sm)"
      using sub(4) src res by (auto simp: sm' transit_step_def)
    with bal sup src show ?thesis by (simp add: books_follow_def sm' insert_absorb)
  qed
qed

lemma receive_follows:
  assumes "sm_wf sm" and "receive_cross_chain_tx tx sm = (res, sm')"
  shows "books_follow (Received tx res) sm sm'"
proof (cases "hm_get (sm_shards sm) (ct_target_shard tx)")
  case None
  then have "ct_target_shard tx \<notin> shard_ids sm" "sm' = sm"
    using assms(2) by (simp_all add: shard_ids_iff receive_cross_chain_tx_def)
  then show ?thesis using assms(1) by (simp add: books_follow_def account_delta_def transit_step_def supply_delta_def)
next
  case (Some sh)
  then have tgt: "ct_target_shard tx \<in> shard_ids sm" by (simp add: shard_ids_iff)
  let ?s = "shard_account sh (ct_receiver tx)"
  let ?sm1 = "update_shard (ct_target_shard tx)
    (set_shard_account (ct_receiver tx) (?s\<lparr>acc_balance := acc_balance ?s + ct_amount tx\<rparr>) sh) sm"
  obtain r where r: "confirm_tx (ct_id tx) [1] (sm_router sm) = (res, r)" and sm': "sm' = ?sm1\<lparr>sm_router := r\<rparr>"
    using assms(2) Some by (auto simp: receive_cross_chain_tx_def Let_def update_shard_def split: prod.splits)
  have wf: "hm_wf (pending_txs (sm_router sm))" "bt_wf (completed_txs (sm_router sm))"
    using assms(1) by (simp_all add: sm_wf_def)
  have "transit sm' = transit_step (shard_ids sm) (Received tx res) (transit sm)"
    using confirm_spec(4) [OF wf r] tgt by (simp add: sm' transit_step_def)
  moreover have "cross_balance sm' i a = cross_balance sm i a + account_delta (shard_ids sm) i a (Received tx res)" for i a
    using receive_balance(1) [OF Some assms(2)] tgt by (simp add: account_delta_def)
  moreover have "sm_wf sm' \<and> cross_supply sm' = cross_supply sm + supply_delta (shard_ids sm) (Received tx res) (transit sm)"
    using receive_cross_effect [OF assms] Some tgt by (auto simp: supply_delta_def algebra_simps split: option.splits)
  ultimately show ?thesis using tgt by (simp add: books_follow_def sm' insert_absorb)
qed

lemma route_frame:
  assumes "sm_wf sm" and "route_transaction E addr_hash t sm = Some (res, sm')"
  shows "sm_wf sm' \<and> shard_ids sm' = shard_ids sm \<and> cross_balance sm' = cross_balance sm \<and>
    transit sm' = transit sm \<and> cross_supply sm' = cross_supply sm"
  using assms(2)
proof (cases rule: route_cases)
  case (added i sh mp)
  have "i \<in> shard_ids sm" using added(2) by (simp add: shard_ids_iff)
  moreover have "cross_balance sm' = cross_balance sm" using added(2)
    by (auto simp: added(5) cross_balance_def update_shard_def shard_account_def fun_eq_iff)
  moreover have "transit sm' = transit sm" by (simp add: added(5) update_shard_def)
  ultimately show ?thesis using route_supply [OF assms] by (simp add: added(5) insert_absorb)
qed (use assms in simp)

subsection \<open>Any calls\<close>

lemma calls_follow:
  assumes "cross_calls E addr_hash try_send sm0 es sm" and "sm_wf sm0"
  shows "sm_wf sm \<and> dom (hm_get (sm_shards sm)) = shard_ids sm0 \<and>
    (\<forall>i a. cross_balance sm i a = cross_balance sm0 i a + (\<Sum>e \<leftarrow> es. account_delta (shard_ids sm0) i a e)) \<and>
    hm_get (pending_txs (sm_router sm)) = fold (transit_step (shard_ids sm0)) es (hm_get (pending_txs (sm_router sm0))) \<and>
    cross_supply sm = cross_supply sm0 + supply_gain (shard_ids sm0) es (hm_get (pending_txs (sm_router sm0)))"
  unfolding shard_ids_def [of sm, symmetric]
  using assms(1)
proof induction
  case no_call
  then show ?case using assms(2) by simp
next
  case (call_send es sm tx res sm')
  with send_follows [of sm try_send tx res sm'] show ?case by (simp add: books_follow_def supply_gain_snoc)
next
  case (call_receive es sm tx res sm')
  with receive_follows [of sm tx res sm'] show ?case by (simp add: books_follow_def supply_gain_snoc)
next
  case (call_route es sm t rres sm')
  with route_frame [of sm E addr_hash t rres sm'] show ?case by simp
qed

text \<open>
  C8. Whoever calls what, in whatever order, the log of the calls with their answers accounts for the
  shards: every balance is the initial one plus what the log moved to and from the account; the
  router holds exactly the accepted sends that no delivery has named since; and the sum of all
  balances and the amounts in transit has changed by what refused duplicates destroyed and by the
  difference between what deliveries credited and what was held for them (modulo \<open>2^128\<close>).
\<close>
theorem cross_calls_accounted:
  assumes "cross_calls E addr_hash try_send sm0 es sm" and "sm_wf sm0"
  shows "sm_wf sm \<and> dom (hm_get (sm_shards sm)) = shard_ids sm0 \<and>
    (\<forall>i a. cross_balance sm i a = cross_balance sm0 i a + (\<Sum>e \<leftarrow> es. account_delta (shard_ids sm0) i a e)) \<and>
    hm_get (pending_txs (sm_router sm)) = fold (transit_step (shard_ids sm0)) es (hm_get (pending_txs (sm_router sm0))) \<and>
    cross_supply sm = cross_supply sm0 + supply_gain (shard_ids sm0) es (hm_get (pending_txs (sm_router sm0)))"
  by (rule calls_follow [OF assms])

subsection \<open>Honest calls\<close>

text \<open>
  The escrow: accounts per shard, and per id an amount that is held for an account of another shard.
\<close>

record escrow =
  es_balance :: "u16 \<Rightarrow> address \<Rightarrow> u128"
  es_held :: "hash \<Rightarrow> (u16 \<times> address \<times> u128) option"

definition credit :: "u16 \<Rightarrow> address \<Rightarrow> u128 \<Rightarrow> escrow \<Rightarrow> escrow" where
  "credit i a x B = B\<lparr>es_balance := (\<lambda>j b. es_balance B j b + (if j = i \<and> b = a then x else 0))\<rparr>"

inductive escrow_step :: "escrow \<Rightarrow> escrow \<Rightarrow> bool" where
  escrow_hold: "x \<le> es_balance B i a \<Longrightarrow> es_held B h = None \<Longrightarrow>
    escrow_step B ((credit i a (- x) B)\<lparr>es_held := (es_held B)(h \<mapsto> (j, b, x))\<rparr>)"
| escrow_release: "es_held B h = Some (j, b, x) \<Longrightarrow>
    escrow_step B ((credit j b x B)\<lparr>es_held := (es_held B)(h := None)\<rparr>)"
| escrow_idle: "escrow_step B B"

inductive_cases escrow_stepE: "escrow_step B B'"

definition escrow_of :: "'ch shard_manager \<Rightarrow> escrow" where
  "escrow_of sm = \<lparr>es_balance = cross_balance sm,
     es_held = (\<lambda>h. map_option (\<lambda>t. (ct_target_shard t, ct_receiver t, ct_amount t)) (transit sm h))\<rparr>"

type_synonym 'ch cross_params = "ext \<times> (address \<Rightarrow> hash) \<times> ('ch \<Rightarrow> cross_tx \<Rightarrow> 'ch)"

definition honest_step :: "'ch cross_params \<Rightarrow> 'ch shard_manager \<Rightarrow> 'ch shard_manager \<Rightarrow> bool" where
  "honest_step = (\<lambda>(E, addr_hash, try_send) sm sm'. sm_wf sm \<and> cross_step E addr_hash try_send sm sm')"

lemma send_escrow:
  assumes "sm_wf sm" and "transit sm (ct_id tx) = None" and "process_cross_chain_tx try_send tx sm = (res, sm')"
  shows "escrow_step (escrow_of sm) (escrow_of sm')"
proof (cases "ct_source_shard tx \<in> shard_ids sm \<and> ct_amount tx \<le> cross_balance sm (ct_source_shard tx) (ct_sender tx)")
  case True
  then obtain sh where sh: "hm_get (sm_shards sm) (ct_source_shard tx) = Some sh" by (auto simp: shard_ids_iff)
  have "res = Ok ()" using process_success(1) [OF assms(1) sh _ assms(2,3)] True by blast
  then have "escrow_of sm' = (credit (ct_source_shard tx) (ct_sender tx) (- ct_amount tx) (escrow_of sm))
      \<lparr>es_held := (es_held (escrow_of sm))(ct_id tx \<mapsto> (ct_target_shard tx, ct_receiver tx, ct_amount tx))\<rparr>"
    using send_follows [OF assms(1,3)] True
    by (auto simp: books_follow_def escrow_of_def credit_def transit_step_def account_delta_def fun_eq_iff)
  moreover have "ct_amount tx \<le> es_balance (escrow_of sm) (ct_source_shard tx) (ct_sender tx)"
    "es_held (escrow_of sm) (ct_id tx) = None"
    using True assms(2) by (simp_all add: escrow_of_def)
  ultimately show ?thesis by (simp only: escrow_hold)
next
  case False
  then have "sm' = sm"
    using process_cross_effect [OF assms(1,3)] by (auto simp: shard_ids_iff not_le split: if_splits)
  then show ?thesis by (simp add: escrow_idle)
qed

lemma deliver_escrow:
  assumes "sm_wf sm" and "transit sm (ct_id tx) = Some tx" and "receive_cross_chain_tx tx sm = (res, sm')"
  shows "escrow_step (escrow_of sm) (escrow_of sm')"
proof (cases "ct_target_shard tx \<in> shard_ids sm")
  case True
  then have "escrow_of sm' = (credit (ct_target_shard tx) (ct_receiver tx) (ct_amount tx) (escrow_of sm))
      \<lparr>es_held := (es_held (escrow_of sm))(ct_id tx := None)\<rparr>"
    using receive_follows [OF assms(1,3)]
    by (auto simp: books_follow_def escrow_of_def credit_def transit_step_def account_delta_def fun_eq_iff)
  moreover have "es_held (escrow_of sm) (ct_id tx) = Some (ct_target_shard tx, ct_receiver tx, ct_amount tx)"
    using assms(2) by (simp add: escrow_of_def)
  ultimately show ?thesis by (simp only: escrow_release)
next
  case False
  then show ?thesis using receive_unknown_shard [of sm tx] assms(3) by (simp add: shard_ids_iff escrow_idle)
qed

interpretation escrow_sim: simulation "\<lambda>_. True" honest_step "\<lambda>_. escrow_step" "\<lambda>_. escrow_of"
proof unfold_locales
  fix p :: "'ch cross_params" and sm sm'
  obtain E addr_hash try_send where p: "p = (E, addr_hash, try_send)" by (cases p)
  assume "honest_step p sm sm'"
  then have wf: "sm_wf sm" and step: "cross_step E addr_hash try_send sm sm'" by (simp_all add: honest_step_def p)
  from step show "escrow_step (escrow_of sm) (escrow_of sm')"
  proof (cases rule: cross_step.cases)
    case (send tx res)
    show ?thesis by (rule send_escrow [OF wf send])
  next
    case (deliver tx res)
    show ?thesis by (rule deliver_escrow [OF wf deliver])
  next
    case (route t rres)
    then have "escrow_of sm' = escrow_of sm" using route_frame [OF wf] by (auto simp: escrow_of_def)
    then show ?thesis by (simp add: escrow_idle)
  qed
qed

lemma honest_run:
  assumes "cross_reach E addr_hash try_send sm0 sm" and "sm_wf sm0"
  shows "(honest_step (E, addr_hash, try_send))\<^sup>*\<^sup>* sm0 sm \<and> sm_wf sm"
  using assms(1)
proof induction
  case (more sm sm')
  then have "honest_step (E, addr_hash, try_send) sm sm'" by (simp add: honest_step_def)
  with more.IH step_supply [OF more.hyps(2)] show ?case by (auto intro: rtranclp.rtrancl_into_rtrancl)
qed (use assms(2) in simp)

text \<open>
  Honest calls implement the escrow: every run of sends with fresh ids, deliveries of held messages
  and routed transactions is a run of the escrow, which hands out each amount it took at most once.
\<close>
theorem cross_shards_refine_escrow:
  assumes "cross_reach E addr_hash try_send sm0 sm" and "sm_wf sm0"
  shows "escrow_step\<^sup>*\<^sup>* (escrow_of sm0) (escrow_of sm)"
  by (rule escrow_sim.simulate_run [OF TrueI honest_run [OF assms, THEN conjunct1]])

lemma reach_calls: "cross_reach E addr_hash try_send sm0 sm \<Longrightarrow> \<exists>es. cross_calls E addr_hash try_send sm0 es sm"
proof (induction rule: cross_reach.induct)
  case (more sm sm')
  from more.IH obtain es where "cross_calls E addr_hash try_send sm0 es sm" ..
  with more.hyps(2) show ?case by (elim cross_stepE) (blast intro: cross_calls.intros)+
qed (blast intro: no_call)

subsection \<open>New shards\<close>

definition escrow_empty :: "escrow \<Rightarrow> bool" where
  "escrow_empty B \<longleftrightarrow> (\<forall>i a. es_balance B i a = 0) \<and> (\<forall>h j b x. es_held B h = Some (j, b, x) \<longrightarrow> x = 0)"

lemma escrow_empty_step: "escrow_step B B' \<Longrightarrow> escrow_empty B \<Longrightarrow> escrow_empty B'"
  by (elim escrow_stepE) (auto simp: escrow_empty_def credit_def)

lemma new_shards_empty:
  fixes E shuffle config and vs :: validator_set
  assumes "cross_reach E addr_hash try_send (initialize_shards E shuffle vs (shard_manager_new config router_new)) sm"
  shows "cross_balance sm i a = 0" "shard_ids sm = {i. i < cfg_shard_count config}" "sm_wf sm" "cross_supply sm = 0"
proof -
  let ?sm0 = "initialize_shards E shuffle vs (shard_manager_new config router_new) :: 'a shard_manager"
  note new = init_new [of E shuffle vs config, where ?'a = 'a]
  have "cross_balance ?sm0 i a = 0" for i a
    by (simp add: cross_balance_def new(1) init_shard_def shard_account_def)
  then have "escrow_empty (escrow_of ?sm0)" by (simp add: escrow_empty_def escrow_of_def new(2)) (simp add: router_new_def)
  then have e: "escrow_empty (escrow_of sm)"
    by (rule escrow_sim.transfer_invariant [where I = escrow_empty, OF TrueI honest_run [OF assms new(4), THEN conjunct1]])
      (rule escrow_empty_step)
  show "cross_balance sm i a = 0"
    using e by (simp only: escrow_empty_def escrow_of_def escrow.simps)
  obtain es where "cross_calls E addr_hash try_send ?sm0 es sm" using reach_calls [OF assms] ..
  from calls_follow [OF this new(4)] show "shard_ids sm = {i. i < cfg_shard_count config}"
    by (auto simp: shard_ids_def new(1) split: if_splits)
  show "sm_wf sm" "cross_supply sm = 0" using cross_supply_invariant [OF assms new(4)] new(5) by auto
qed

text \<open>
  C7. The shards of a new manager hold no money, and no honest run brings any in: every balance stays
  0 and every send of a positive amount is refused. But two calls make any amount out of nothing,
  and both succeed: a send of 0, which no balance is too low for, and the delivery of its id with
  another amount, because the receiver is credited with what the message says.
\<close>
theorem new_shards_money:
  assumes "cross_reach E addr_hash try_send (initialize_shards E shuffle vs (shard_manager_new config router_new)) sm"
    and "ct_source_shard tx < cfg_shard_count config" and "ct_target_shard tx < cfg_shard_count config"
  shows "cross_balance sm i a = 0 \<and>
    (0 < ct_amount tx \<longrightarrow>
      process_cross_chain_tx try_send tx sm = (Err ''Insufficient balance for cross-chain transfer'', sm)) \<and>
    (ct_amount tx = 0 \<and> hm_get (pending_txs (sm_router sm)) (ct_id tx) = None \<longrightarrow>
      (\<exists>sm1 sm2. process_cross_chain_tx try_send tx sm = (Ok (), sm1) \<and>
         receive_cross_chain_tx (tx\<lparr>ct_amount := x\<rparr>) sm1 = (Ok (), sm2) \<and>
         cross_balance sm2 (ct_target_shard tx) (ct_receiver tx) = x \<and> cross_supply sm2 = x))"
proof (intro conjI impI)
  note new = new_shards_empty [OF assms(1)]
  show "cross_balance sm i a = 0" by (rule new)
  have ids: "ct_source_shard tx \<in> shard_ids sm" "ct_target_shard tx \<in> shard_ids sm" using assms(2,3) new(2) by auto
  then obtain sh where sh: "hm_get (sm_shards sm) (ct_source_shard tx) = Some sh" by (auto simp: shard_ids_iff)
  show "process_cross_chain_tx try_send tx sm = (Err ''Insufficient balance for cross-chain transfer'', sm)"
    if "0 < ct_amount tx"
    using new(1) [of "ct_source_shard tx" "ct_sender tx"] that sh
    by (simp add: cross_balance_def process_cross_chain_tx_def Let_def)
  assume free: "ct_amount tx = 0 \<and> hm_get (pending_txs (sm_router sm)) (ct_id tx) = None"
  obtain res1 sm1 where p: "process_cross_chain_tx try_send tx sm = (res1, sm1)" by fastforce
  obtain res2 sm2 where q: "receive_cross_chain_tx (tx\<lparr>ct_amount := x\<rparr>) sm1 = (res2, sm2)" by fastforce
  note s = process_success [OF new(3) sh _ _ p]
  have r1: "res1 = Ok ()" "transit sm1 (ct_id tx) = Some (tx\<lparr>ct_status := SourceConfirmed\<rparr>)" using s(1,2) free by auto
  note b = send_follows [OF new(3) p, unfolded books_follow_def]
  have wf: "sm_wf sm1" using b by blast
  note c = receive_follows [OF wf q, unfolded books_follow_def]
  have "ct_target_shard tx \<in> shard_ids sm1" using b ids(2) by simp
  then obtain sh' where "hm_get (sm_shards sm1) (ct_target_shard tx) = Some sh'" by (auto simp: shard_ids_iff)
  with receive_balance(2) [of sm1 "tx\<lparr>ct_amount := x\<rparr>" sh' res2 sm2] q r1(2) have r2: "res2 = Ok ()" by simp
  have "cross_balance sm2 (ct_target_shard tx) (ct_receiver tx) = x" "cross_supply sm2 = x"
    using b c ids new(1,4) free r1 by (simp_all add: account_delta_def supply_delta_def)
  with p q r1(1) r2 show "\<exists>sm1 sm2. process_cross_chain_tx try_send tx sm = (Ok (), sm1) \<and>
         receive_cross_chain_tx (tx\<lparr>ct_amount := x\<rparr>) sm1 = (Ok (), sm2) \<and>
         cross_balance sm2 (ct_target_shard tx) (ct_receiver tx) = x \<and> cross_supply sm2 = x" by blast
qed

subsection \<open>Instances\<close>

text \<open>A transfer of 30 from the 100 of \<open>Address [1]\<close> that is delivered twice.\<close>

theorem cross_calls_accounted_witness:
  "\<exists>res1 res2 res3 sm. cross_calls sample_ext (\<lambda>a. Hash [0, 0]) (\<lambda>ch tx. ch @ [tx]) sample_manager
      [Sent (sample_cross 1) res1, Received (sample_cross 1) res2, Received (sample_cross 1) res3] sm \<and>
    cross_balance sm 1 (Address [2]) = 60"
proof -
  let ?calls = "cross_calls sample_ext (\<lambda>a. Hash [0, 0]) (\<lambda>ch tx. ch @ [tx]) sample_manager"
  obtain r1 s1 where 1: "process_cross_chain_tx (\<lambda>ch tx. ch @ [tx]) (sample_cross 1) sample_manager = (r1, s1)" by fastforce
  obtain r2 s2 where 2: "receive_cross_chain_tx (sample_cross 1) s1 = (r2, s2)" by fastforce
  obtain r3 s3 where 3: "receive_cross_chain_tx (sample_cross 1) s2 = (r3, s3)" by fastforce
  have c: "?calls [Sent (sample_cross 1) r1, Received (sample_cross 1) r2, Received (sample_cross 1) r3] s3"
    using call_receive [OF call_receive [OF call_send [OF no_call 1] 2] 3] by simp
  have ids: "shard_ids sample_manager = {0, 1}" using sample_manager_dom by (simp add: shard_ids_def)
  show ?thesis
    using cross_calls_accounted [OF c sample_manager_wf] c sample_balances(2)
    by (intro exI [of _ r1] exI [of _ r2] exI [of _ r3] exI [of _ s3])
      (simp add: ids account_delta_def)
qed

theorem new_shards_money_witness:
  "\<exists>sm1 sm2. process_cross_chain_tx (\<lambda>ch tx. ch @ [tx]) ((sample_cross 1)\<lparr>ct_amount := 0\<rparr>)
       (initialize_shards sample_ext (\<lambda>seed xs. xs) (sample_set [1, 2] 5) (shard_manager_new sample_config router_new)) = (Ok (), sm1) \<and>
     receive_cross_chain_tx ((sample_cross 1)\<lparr>ct_amount := 1000\<rparr>) sm1 = (Ok (), sm2) \<and>
     cross_balance sm2 1 (Address [2]) = 1000"
proof -
  let ?sm0 = "initialize_shards sample_ext (\<lambda>seed xs. xs) (sample_set [1, 2] 5) (shard_manager_new sample_config router_new)
    :: cross_tx list shard_manager"
  have "transit ?sm0 (Hash [1]) = None" by (simp add: init_new(2)) (simp add: router_new_def)
  moreover have "ct_source_shard (sample_cross 1) < cfg_shard_count sample_config"
    "ct_target_shard (sample_cross 1) < cfg_shard_count sample_config" by (simp_all add: sample_config_def)
  ultimately show ?thesis
    using new_shards_money [OF cross_reach.start [where addr_hash = "\<lambda>a. Hash [0, 0]" and E = sample_ext
          and try_send = "\<lambda>ch tx. ch @ [tx]"], of "(sample_cross 1)\<lparr>ct_amount := 0\<rparr>" sample_config
        "\<lambda>seed xs. xs" "sample_set [1, 2] 5" 0 "Address [1]" 1000]
    by auto
qed

end
