(* ===== verification/PoolQueue.thy ===== *)
theory PoolQueue
  imports Mempool
begin

text \<open>
  What the mempool promises its clients: it is a queue ordered by decreasing gas price in which
  equal prices keep their order of arrival. The locale \<open>price_queue\<close> states the contract over an
  abstraction function \<open>queue\<close>; the mempool of \<^verbatim>\<open>src/src/consensus/mod.rs\<close> is shown to satisfy it. Inside
  the locale, the loop \<open>drain\<close> (select a batch, remove it) is shown to hand out the whole queue.
\<close>

subsection \<open>The contract\<close>

definition pq_insert :: "('t \<Rightarrow> 'p :: linorder) \<Rightarrow> 't \<Rightarrow> 't list \<Rightarrow> 't list" where
  "pq_insert price x q =
     takeWhile (\<lambda>y. price x \<le> price y) q @ x # dropWhile (\<lambda>y. price x \<le> price y) q"

lemma pq_insert_append: "\<forall>y \<in> set ys. price y < price x \<Longrightarrow> pq_insert price x (xs @ ys) = pq_insert price x xs @ ys"
  by (cases ys) (auto simp: pq_insert_def takeWhile_append dropWhile_append takeWhile_eq_all_conv [THEN iffD2])

lemma pq_insert_last: "\<forall>y \<in> set xs. price x \<le> price y \<Longrightarrow> pq_insert price x xs = xs @ [x]"
  by (simp add: pq_insert_def takeWhile_eq_all_conv [THEN iffD2] dropWhile_eq_Nil_conv [THEN iffD2])

lemma set_pq_insert [simp]: "set (pq_insert price x q) = insert x (set q)"
proof -
  have "set q = set (takeWhile (\<lambda>y. price x \<le> price y) q @ dropWhile (\<lambda>y. price x \<le> price y) q)"
    by (simp only: takeWhile_dropWhile_id)
  then show ?thesis unfolding pq_insert_def by (simp only: set_append) simp
qed

locale price_queue =
  fixes inv :: "'m \<Rightarrow> bool" and queue :: "'m \<Rightarrow> 't list"
    and price :: "'t \<Rightarrow> 'p :: linorder" and key :: "'t \<Rightarrow> 'k" and fresh :: "'t \<Rightarrow> 'm \<Rightarrow> bool"
    and add :: "'t \<Rightarrow> 'm \<Rightarrow> 'm rs_result" and remove :: "'k list \<Rightarrow> 'm \<Rightarrow> 'm"
    and select :: "'m \<Rightarrow> nat \<Rightarrow> 'p \<Rightarrow> 't list"
  assumes queue_sorted: "inv m \<Longrightarrow> sorted_wrt (\<ge>) (map price (queue m))"
    and queue_key: "inv m \<Longrightarrow> x \<in> set (queue m) \<Longrightarrow> y \<in> set (queue m) \<Longrightarrow> key x = key y \<Longrightarrow> x = y"
    and inv_add: "inv m \<Longrightarrow> fresh x m \<Longrightarrow> add x m = Ok m' \<Longrightarrow> inv m'"
    and queue_add: "inv m \<Longrightarrow> fresh x m \<Longrightarrow> add x m = Ok m' \<Longrightarrow> queue m' = pq_insert price x (queue m)"
    and inv_remove: "inv m \<Longrightarrow> inv (remove ks m)"
    and queue_remove: "inv m \<Longrightarrow> queue (remove ks m) = filter (\<lambda>x. key x \<notin> set ks) (queue m)"
    and queue_select: "inv m \<Longrightarrow> select m n p = take (max 1 n) (filter (\<lambda>x. p \<le> price x) (queue m))"
begin

abbreviation payable :: "'p \<Rightarrow> 'm \<Rightarrow> 't list" where
  "payable p m \<equiv> filter (\<lambda>x. p \<le> price x) (queue m)"

primrec drain :: "nat \<Rightarrow> 'p \<Rightarrow> nat \<Rightarrow> 'm \<Rightarrow> 't list list \<times> 'm" where
  "drain n p 0 m = ([], m)"
| "drain n p (Suc k) m =
     (let batch = select m n p; (batches, m') = drain n p k (remove (map key batch) m)
      in (batch # batches, m'))"

lemma payable_remove: "inv m \<Longrightarrow> payable p (remove ks m) = filter (\<lambda>x. key x \<notin> set ks) (payable p m)"
  by (simp add: queue_remove conj_commute)

lemma select_set: "inv m \<Longrightarrow> set (select m n p) \<subseteq> set (queue m)"
  by (auto simp: queue_select dest: in_set_takeD)

lemma payable_step:
  assumes "inv m"
  shows "set (payable p (remove (map key (select m n p)) m)) = set (payable p m) - set (select m n p)"
  using select_set [OF assms, of n p] queue_key [OF assms]
  by (auto simp: payable_remove [OF assms])

lemma payable_shrinks:
  assumes "inv m"
  shows "length (payable p (remove (map key (select m n p)) m)) \<le> length (payable p m) - max 1 n"
proof -
  let ?q = "payable p m" and ?b = "select m n p"
  have b: "?b = take (max 1 n) ?q" by (rule queue_select [OF assms])
  have "filter (\<lambda>x. key x \<notin> set (map key ?b)) (take (max 1 n) ?q @ drop (max 1 n) ?q) =
      filter (\<lambda>x. key x \<notin> set (map key ?b)) (drop (max 1 n) ?q)"
    unfolding filter_append b [symmetric] by (simp add: filter_False)
  then have "payable p (remove (map key ?b) m) = filter (\<lambda>x. key x \<notin> set (map key ?b)) (drop (max 1 n) ?q)"
    by (simp only: payable_remove [OF assms] append_take_drop_id)
  then show ?thesis by (metis length_drop length_filter_le)
qed

lemma drain_inv: "inv m \<Longrightarrow> inv (snd (drain n p k m))"
  by (induction k arbitrary: m) (simp_all add: Let_def inv_remove split: prod.splits, metis inv_remove snd_conv)

text \<open>Whatever copies the queue holds, every payable entry is handed out in time.\<close>

lemma drain_all:
  assumes "inv m"
  shows "set (concat (fst (drain n p k m))) \<union> set (payable p (snd (drain n p k m))) = set (payable p m) \<and>
    length (payable p (snd (drain n p k m))) \<le> length (payable p m) - k * max 1 n"
  using assms
proof (induction k arbitrary: m)
  case (Suc k)
  let ?b = "select m n p" and ?m = "remove (map key (select m n p)) m"
  obtain bs m' where d: "drain n p k ?m = (bs, m')" by fastforce
  have "inv ?m" by (rule inv_remove [OF Suc.prems])
  note ih = Suc.IH [OF this, unfolded d fst_conv snd_conv]
  have sub: "set ?b \<subseteq> set (payable p m)" by (auto simp: queue_select [OF Suc.prems] dest: in_set_takeD)
  have "set (concat bs) \<union> set (payable p m') = set (payable p m) - set ?b"
    using ih payable_step [OF Suc.prems, of p n] by (simp only:)
  moreover have "length (payable p m') \<le> length (payable p m) - Suc k * max 1 n"
    using conjunct2 [OF ih] payable_shrinks [OF Suc.prems, of p n] by simp
  ultimately show ?case
    using sub by (simp only: drain.simps d Let_def prod.case fst_conv snd_conv concat.simps set_append) blast
qed simp

text \<open>Without copies each payable entry is handed out once, in the order of the queue.\<close>

lemma drain_exact:
  assumes "inv m" and "distinct (map key (queue m))"
  shows "concat (fst (drain n p k m)) = take (k * max 1 n) (payable p m) \<and>
    payable p (snd (drain n p k m)) = drop (k * max 1 n) (payable p m)"
  using assms
proof (induction k arbitrary: m)
  case (Suc k)
  let ?b = "select m n p" and ?m = "remove (map key (select m n p)) m" and ?q = "payable p m"
  obtain bs m' where d: "drain n p k ?m = (bs, m')" by fastforce
  have b: "?b = take (max 1 n) ?q" by (rule queue_select [OF Suc.prems(1)])
  have dist: "distinct (map key ?q)" using Suc.prems(2) by (simp add: distinct_map_filter)
  have dd: "key ` set (take (max 1 n) ?q) \<inter> key ` set (drop (max 1 n) ?q) = {}"
    using dist by (metis append_take_drop_id distinct_append map_append set_map)
  have rest: "payable p ?m = drop (max 1 n) ?q"
  proof -
    have "payable p ?m = filter (\<lambda>x. key x \<notin> key ` set ?b) (take (max 1 n) ?q @ drop (max 1 n) ?q)"
      by (simp only: payable_remove [OF Suc.prems(1)] append_take_drop_id set_map)
    also have "\<dots> = filter (\<lambda>x. key x \<notin> key ` set ?b) (drop (max 1 n) ?q)"
      unfolding filter_append b by (simp add: filter_False)
    also have "\<dots> = drop (max 1 n) ?q"
      using dd unfolding b by (intro filter_True) blast
    finally show ?thesis .
  qed
  have "inv ?m" "distinct (map key (queue ?m))"
    using Suc.prems by (simp_all add: inv_remove queue_remove distinct_map_filter)
  note ih = Suc.IH [OF this, unfolded d fst_conv snd_conv rest]
  show ?case unfolding drain.simps d Let_def prod.case fst_conv snd_conv concat.simps
    using ih by (simp only: mult_Suc take_add b drop_drop add.commute)
qed simp

text \<open>What does not reach the price stays, in its order.\<close>

lemma drain_keeps:
  "inv m \<Longrightarrow> filter (\<lambda>x. \<not> p \<le> price x) (queue (snd (drain n p k m))) = filter (\<lambda>x. \<not> p \<le> price x) (queue m)"
proof (induction k arbitrary: m)
  case (Suc k)
  let ?b = "select m n p" and ?m = "remove (map key (select m n p)) m"
  obtain bs m' where d: "drain n p k ?m = (bs, m')" by fastforce
  have "\<forall>y \<in> set ?b. y \<in> set (queue m) \<and> p \<le> price y"
    by (auto simp: queue_select [OF Suc.prems] dest: in_set_takeD)
  then have "\<not> p \<le> price x \<Longrightarrow> key x \<notin> key ` set ?b" if "x \<in> set (queue m)" for x
    using queue_key [OF Suc.prems that] by (metis imageE)
  then have "filter (\<lambda>x. \<not> p \<le> price x) (queue ?m) = filter (\<lambda>x. \<not> p \<le> price x) (queue m)"
    by (auto simp: queue_remove [OF Suc.prems] intro!: filter_cong)
  then show ?case using Suc.IH [OF inv_remove [OF Suc.prems]]
    by (simp only: drain.simps d Let_def prod.case fst_conv snd_conv) (simp add: d [THEN arg_cong [where f = snd], simplified, symmetric])
qed simp

end

subsection \<open>The mempool as a queue\<close>

definition index_queue :: "(hash \<Rightarrow> 't option) \<Rightarrow> ('p, hash list) btree \<Rightarrow> 't list" where
  "index_queue f g = List.map_filter f (concat (map snd (rev g)))"

definition pending :: "mempool \<Rightarrow> transaction list" where
  "pending mp = index_queue (hm_get (mp_transactions mp)) (mp_by_gas_price mp)"

lemma index_queue_simps [simp]:
  "index_queue f [] = []"
  "index_queue f ((p, hs) # g) = index_queue f g @ List.map_filter f hs"
  by (simp_all add: index_queue_def List.map_filter_simps)

lemma map_filter_cong: "(\<And>x. x \<in> set xs \<Longrightarrow> f x = g x) \<Longrightarrow> List.map_filter f xs = List.map_filter g xs"
  by (induction xs) (simp_all add: map_filter_Cons List.map_filter_simps split: option.split)

lemma index_queue_cong:
  "(\<And>p hs h. (p, hs) \<in> set g \<Longrightarrow> h \<in> set hs \<Longrightarrow> f h = f' h) \<Longrightarrow> index_queue f g = index_queue f' g"
  unfolding index_queue_def by (intro map_filter_cong) auto

text \<open>Every hash that the index lists under a price is that of a transaction paying that price.\<close>

definition priced :: "('t \<Rightarrow> 'p) \<Rightarrow> (hash \<Rightarrow> 't option) \<Rightarrow> ('p, hash list) btree \<Rightarrow> bool" where
  "priced price f g \<longleftrightarrow> (\<forall>(p, hs) \<in> set g. \<forall>h \<in> set hs. \<exists>x. f h = Some x \<and> price x = p)"

lemma priced_Cons [simp]:
  "priced price f ((p, hs) # g) \<longleftrightarrow> (\<forall>h \<in> set hs. \<exists>x. f h = Some x \<and> price x = p) \<and> priced price f g"
  by (auto simp: priced_def)

lemma priced_cong:
  assumes eq: "\<And>p hs h. (p, hs) \<in> set g \<Longrightarrow> h \<in> set hs \<Longrightarrow> f h = f' h" and p: "priced price f g"
  shows "priced price f' g"
  unfolding priced_def
proof clarify
  fix p hs h assume h: "(p, hs) \<in> set g" "h \<in> set hs"
  with p obtain x where "f h = Some x" "price x = p" by (fastforce simp: priced_def)
  then show "\<exists>x. f' h = Some x \<and> price x = p" using eq [OF h] by simp
qed

lemma priced_map_filter:
  "\<forall>h \<in> set hs. \<exists>x. f h = Some x \<and> price x = p \<Longrightarrow> x \<in> set (List.map_filter f hs) \<Longrightarrow> price x = p"
  by fastforce

lemma priced_queue: "priced price f g \<Longrightarrow> x \<in> set (index_queue f g) \<Longrightarrow> price x \<in> fst ` set g"
proof (induction g)
  case (Cons e g)
  obtain p hs where e: "e = (p, hs)" by (cases e)
  with Cons show ?case by (fastforce dest: priced_map_filter)
qed simp

lemma index_queue_filter:
  assumes "priced price f g"
  shows "index_queue f (filter (\<lambda>(p, _). P p) g) = filter (\<lambda>x. P (price x)) (index_queue f g)"
  using assms
proof (induction g)
  case (Cons e g)
  obtain p hs where e: "e = (p, hs)" by (cases e)
  have "filter (\<lambda>x. P (price x)) (List.map_filter f hs) = (if P p then List.map_filter f hs else [])"
    using Cons.prems priced_map_filter [of hs f price p] by (auto simp: e filter_id_conv filter_empty_conv simp del: set_map_filter)
  with Cons show ?case by (simp add: e)
qed simp

lemma index_queue_insert:
  assumes "bt_wf g" and "priced price f g" and "f h = Some x" and "price x = p"
  shows "index_queue f (bt_insert p (unwrap_or (bt_get g p) [] @ [h]) g) = pq_insert price x (index_queue f g)"
  using assms(1,2)
proof (induction g)
  case Nil
  show ?case by (simp add: assms(3) List.map_filter_simps pq_insert_def)
next
  case (Cons e g)
  obtain a hs where e: "e = (a, hs)" by (cases e)
  have wf: "bt_wf g" and above: "\<forall>q \<in> fst ` set g. a < q" using Cons.prems(1) by (auto simp: e bt_wf_def)
  have pg: "priced price f g" using Cons.prems(2) by (simp add: e)
  have low: "\<forall>y \<in> set (index_queue f g). a < price y" using above priced_queue [OF pg] by blast
  have here: "\<forall>y \<in> set (List.map_filter f hs). price y = a"
    using Cons.prems(2) priced_map_filter [of hs f price a] by (auto simp: e simp del: set_map_filter)
  consider "p < a" | "p = a" | "a < p" by fastforce
  then show ?case
  proof cases
    case 1
    then have none: "bt_get (e # g) p = None" using above by (fastforce simp: e bt_get_def map_of_eq_None_iff)
    have "\<forall>y \<in> set (index_queue f (e # g)). price x \<le> price y"
      using 1 low here assms(4) by (fastforce simp: e simp del: set_map_filter)
    from pq_insert_last [OF this] show ?thesis
      using 1 none by (simp add: e assms(3) List.map_filter_simps)
  next
    case 2
    then have "bt_get (e # g) p = Some hs" by (simp add: e bt_get_def)
    moreover have "\<forall>y \<in> set (index_queue f (e # g)). price x \<le> price y"
      using 2 low here assms(4) by (fastforce simp: e simp del: set_map_filter)
    ultimately show ?thesis
      using 2 by (simp add: pq_insert_last) (simp add: e assms(3) List.map_filter_simps)
  next
    case 3
    then have "bt_get (e # g) p = bt_get g p" by (auto simp: e bt_get_def)
    moreover have "\<forall>y \<in> set (List.map_filter f hs). price y < price x" using 3 here assms(4) by auto
    moreover have "\<not> p < a" "p \<noteq> a" using 3 by simp_all
    ultimately show ?thesis using Cons.IH [OF wf pg] by (simp add: e pq_insert_append)
  qed
qed

lemma index_queue_replace:
  assumes "bt_wf g" and "bt_get g p = Some hs" and "List.map_filter f hs' = List.map_filter f hs"
  shows "index_queue f (bt_insert p hs' g) = index_queue f g \<and>
    (hs' = [] \<longrightarrow> index_queue f (bt_remove p g) = index_queue f g)"
  using assms(1,2)
proof (induction g)
  case (Cons e g)
  obtain a bs where e: "e = (a, bs)" by (cases e)
  show ?case
  proof (cases "p = a")
    case True
    with Cons.prems assms(3) show ?thesis by (auto simp: e bt_get_def List.map_filter_simps)
  next
    case False
    then have g: "bt_get g p = Some hs" using Cons.prems(2) by (simp add: e bt_get_def)
    then have "a < p" using Cons.prems(1) by (auto simp: e bt_wf_def bt_get_def dest!: map_of_SomeD)
    then have "\<not> p < a" by simp
    with False g Cons show ?thesis by (simp add: e bt_wf_def)
  qed
qed (simp add: bt_get_def)

lemma mempool_priced: "mempool_inv E mp \<Longrightarrow> priced tx_gas_price (hm_get (mp_transactions mp)) (mp_by_gas_price mp)"
  using mempool_invD(8) [of E mp] mempool_invD(3) [of E mp] by (auto simp: priced_def bt_in_set_get)

lemma eligible_pending:
  assumes "mempool_inv E mp"
  shows "eligible mp m = filter (\<lambda>tx. m \<le> tx_gas_price tx) (pending mp)"
proof -
  have "sorted_wrt (>) (map fst (rev (mp_by_gas_price mp)))"
    using mempool_invD(3) [OF assms] by (simp add: bt_wf_def rev_map [symmetric] sorted_wrt_rev)
  then have "eligible mp m = index_queue (hm_get (mp_transactions mp)) (filter (\<lambda>(p, _). m \<le> p) (mp_by_gas_price mp))"
    by (simp add: eligible_def takeWhile_sorted index_queue_def rev_filter)
  then show ?thesis by (simp only: pending_def index_queue_filter [OF mempool_priced [OF assms]])
qed

lemma pending_eligible: "mempool_inv E mp \<Longrightarrow> pending mp = eligible mp 0"
  by (simp add: eligible_pending)

lemma set_pending:
  "mempool_inv E mp \<Longrightarrow> set (pending mp) = {tx. \<exists>h. hm_get (mp_transactions mp) h = Some tx}"
  by (simp add: pending_eligible set_eligible)

lemma pending_add:
  assumes "mempool_inv E mp" and "no_collision E tx mp" and "add_transaction E tx mp = Ok mp'"
  shows "pending mp' = pq_insert tx_gas_price tx (pending mp)"
proof -
  let ?f = "hm_get (mp_transactions mp)" and ?f' = "hm_get (mp_transactions mp')"
  let ?g = "mp_by_gas_price mp"
  have f': "?f' = ?f(tx_hash E tx \<mapsto> tx)"
    and g': "mp_by_gas_price mp' = bt_insert (tx_gas_price tx)
      (unwrap_or (bt_get ?g (tx_gas_price tx)) [] @ [tx_hash E tx]) ?g"
    using assms(3) by (auto simp: add_transaction_def Let_def split: if_splits)
  have eq: "?f h = ?f' h" if "(p, hs) \<in> set ?g" "h \<in> set hs" for p hs h
    using that mempool_priced [OF assms(1)] no_collision_get [OF assms(2)] by (fastforce simp: priced_def f')
  have "index_queue ?f ?g = index_queue ?f' ?g" by (rule index_queue_cong, rule eq)
  moreover have "priced tx_gas_price ?f' ?g"
    by (rule priced_cong [OF _ mempool_priced [OF assms(1)]], rule eq)
  ultimately show ?thesis
    using index_queue_insert [OF mempool_invD(3) [OF assms(1)], of tx_gas_price ?f' "tx_hash E tx" tx]
    by (simp add: pending_def g' f' del: fun_upd_apply) simp
qed

lemma pending_remove1:
  assumes "mempool_inv E mp"
  shows "pending (remove_transaction h mp) = filter (\<lambda>tx. tx_hash E tx \<noteq> h) (pending mp)"
proof (cases "hm_get (mp_transactions mp) h")
  case None
  then have "\<forall>tx \<in> set (pending mp). tx_hash E tx \<noteq> h"
    using mempool_invD(5) [OF assms] by (fastforce simp: set_pending [OF assms])
  with None show ?thesis by (simp add: remove_transaction_def filter_id_conv [THEN iffD2])
next
  case (Some tx)
  let ?f = "hm_get (mp_transactions mp)" and ?f' = "(hm_get (mp_transactions mp))(h := None)"
  let ?g = "mp_by_gas_price mp"
  obtain entry where e: "bt_get ?g (tx_gas_price tx) = Some entry"
    using mempool_invD(6) [OF assms Some] by blast
  have "List.map_filter ?f' (filter (\<lambda>x. x \<noteq> h) entry) = List.map_filter ?f' entry"
    by (induction entry) (simp_all add: map_filter_Cons List.map_filter_simps split: option.split)
  note rep = index_queue_replace [OF mempool_invD(3) [OF assms] e this]
  have "pending (remove_transaction h mp) = index_queue ?f' ?g"
    using rep by (simp add: pending_def remove_transaction_def Some e Let_def)
  moreover have "List.map_filter ?f' ks = filter (\<lambda>t. tx_hash E t \<noteq> h) (List.map_filter ?f ks)" for ks
    using mempool_invD(5) [OF assms]
    by (induction ks) (auto simp: map_filter_Cons List.map_filter_simps split: option.split)
  ultimately show ?thesis by (simp add: pending_def index_queue_def)
qed

lemma pending_remove:
  "mempool_inv E mp \<Longrightarrow>
   pending (remove_transactions hs mp) = filter (\<lambda>tx. tx_hash E tx \<notin> set hs) (pending mp)"
proof (induction hs arbitrary: mp)
  case (Cons h hs)
  then have "pending (remove_transactions (h # hs) mp) =
      filter (\<lambda>tx. tx_hash E tx \<notin> set hs) (filter (\<lambda>tx. tx_hash E tx \<noteq> h) (pending mp))"
    by (simp add: remove_transactions_def remove_inv pending_remove1)
  then show ?case by (simp add: conj_commute)
qed (simp add: remove_transactions_def)

interpretation pool: price_queue "mempool_inv E" pending tx_gas_price "tx_hash E" "no_collision E"
    "add_transaction E" remove_transactions get_transactions
  for E :: ext
proof unfold_locales
  fix m x y assume "mempool_inv E m" "x \<in> set (pending m)" "y \<in> set (pending m)" "tx_hash E x = tx_hash E y"
  then show "x = y" using mempool_invD(5) [of E m] by (fastforce simp: set_pending)
qed (simp_all add: pending_eligible get_transactions_facts add_inv remove_transactions_inv,
    simp_all add: pending_eligible [symmetric] pending_add pending_remove get_transactions_take eligible_pending
      add_inv remove_transactions_inv)

text \<open>
  C3. The mempool is a queue by decreasing gas price in which equal prices keep their order of
  arrival: a new pool is empty, adding puts the transaction behind all that pay at least as much,
  removing drops exactly the given hashes, and selecting returns the first \<open>limit\<close> (at least one)
  that reach the minimum price. Every one of these keeps the invariant of the three tables: by price
  exactly the pending transactions are listed, and by sender and nonce nothing else.
\<close>
theorem mempool_refines_queue:
  assumes "mempool_inv E mp"
  shows "pending (mempool_new n) = [] \<and> sorted_wrt (\<ge>) (map tx_gas_price (pending mp)) \<and>
    (no_collision E tx mp \<longrightarrow> add_transaction E tx mp = Ok mp' \<longrightarrow>
       mempool_inv E mp' \<and> pending mp' = pq_insert tx_gas_price tx (pending mp)) \<and>
    mempool_inv E (mempool_new n) \<and> mempool_inv E (remove_transactions hs mp) \<and>
    pending (remove_transactions hs mp) = filter (\<lambda>t. tx_hash E t \<notin> set hs) (pending mp) \<and>
    get_transactions mp limit m = take (max 1 limit) (filter (\<lambda>t. m \<le> tx_gas_price t) (pending mp))"
  using pool.queue_sorted [OF assms] pool.queue_add [OF assms, of tx mp'] pool.queue_remove [OF assms]
    pool.queue_select [OF assms] add_inv [OF assms, of tx mp'] remove_transactions_inv [OF assms, of hs]
    mempool_inv_new [of E n]
  by (simp add: pending_def [of "mempool_new n"]) (simp add: mempool_new_def)

text \<open>Two transactions of one price leave the pool in the order in which they came.\<close>

theorem mempool_refines_queue_witness:
  "\<exists>mp. add_transaction sample_ext (sample_tx 3 0 None 5 20) sample_pool = Ok mp \<and>
    pending mp = [sample_tx 2 0 None 5 20, sample_tx 3 0 None 5 20, sample_tx 1 0 None 5 10]"
proof -
  obtain mp where add: "add_transaction sample_ext (sample_tx 3 0 None 5 20) sample_pool = Ok mp"
    by (simp add: add_transaction_def Let_def sample_pool_def)
  have "no_collision sample_ext (sample_tx 3 0 None 5 20) sample_pool"
    by (simp add: no_collision_def sample_pool_def hm_get_def)
  moreover have "pending sample_pool = [sample_tx 2 0 None 5 20, sample_tx 1 0 None 5 10]"
    by (simp add: pending_def sample_pool_def List.map_filter_simps hm_get_def)
  ultimately show ?thesis
    using mempool_refines_queue [OF sample_pool_inv, of 0 "sample_tx 3 0 None 5 20" mp] add
    by (simp add: pq_insert_def) (simp add: sample_tx_def)
qed

end
