(* ===== verification/Leader.thy ===== *)
theory Leader
  imports PoolQueue HotStuff Vm
begin

text \<open>
  The consensus engine of \<^verbatim>\<open>src/src/consensus/mod.rs\<close> driven as a leader: \<open>propose_block\<close> followed by
  \<open>finalize_block\<close>, round after round, as the tests of the repository drive it. Over the queue of
  \<open>PoolQueue\<close> the rounds hand out everything that pays enough; since the engine never advances its
  height, each finalised block replaces the one before. The last part follows a transaction that was
  submitted several times through the pool and the block into the virtual machine.
\<close>

subsection \<open>Rounds\<close>

text \<open>One round per clock value and parent hash; a round without a proposal changes nothing.\<close>

fun run_leader :: "ext \<Rightarrow> (u64 \<times> hash) list \<Rightarrow> hotstuff \<Rightarrow> block list \<times> hotstuff" where
  "run_leader E [] hs = ([], hs)"
| "run_leader E ((now, prev) # rounds) hs =
     (case propose_block E now hs prev of
        None \<Rightarrow> run_leader E rounds hs
      | Some b \<Rightarrow> (case run_leader E rounds (finalize_block E b hs) of (bs, hs') \<Rightarrow> (b # bs, hs')))"

lemma propose_None: "propose_block E now hs prev = None \<longleftrightarrow>
    get_transactions (hs_mempool hs) 1000 (cfg_min_gas_price (hs_config hs)) = []"
  by (simp add: propose_block_def Let_def)

lemma propose_SomeD:
  assumes "propose_block E now hs prev = Some b"
  shows "transactions b = get_transactions (hs_mempool hs) 1000 (cfg_min_gas_price (hs_config hs))"
    and "hdr_height (header b) = hs_current_height hs + 1"
  using assms by (auto simp: propose_block_def Let_def split: if_splits)

lemma finalize_simps [simp]:
  "hs_config (finalize_block E b hs) = hs_config hs"
  "hs_current_height (finalize_block E b hs) = hs_current_height hs"
  "hs_validator_set (finalize_block E b hs) = hs_validator_set hs"
  "hs_mempool (finalize_block E b hs) = remove_transactions (map (tx_hash E) (transactions b)) (hs_mempool hs)"
  "hs_blocks (finalize_block E b hs) = bt_insert (hdr_height (header b)) b (hs_blocks hs)"
  "hs_blocks_finalized (finalize_block E b hs) = hs_blocks_finalized hs + 1"
  by (simp_all add: finalize_block_def)

text \<open>The rounds are the loop \<open>drain\<close> on the engine's mempool.\<close>

lemma run_leader_drain:
  assumes "run_leader E rounds hs = (bs, hs')"
  shows "concat (map transactions bs) =
      concat (fst (pool.drain E 1000 (cfg_min_gas_price (hs_config hs)) (length rounds) (hs_mempool hs))) \<and>
    hs_mempool hs' =
      snd (pool.drain E 1000 (cfg_min_gas_price (hs_config hs)) (length rounds) (hs_mempool hs)) \<and>
    hs_config hs' = hs_config hs"
  using assms
proof (induction E rounds hs arbitrary: bs rule: run_leader.induct)
  case (2 E now prev rounds hs)
  let ?txs = "get_transactions (hs_mempool hs) 1000 (cfg_min_gas_price (hs_config hs))"
  show ?case
  proof (cases "propose_block E now hs prev")
    case None
    then have "?txs = []" by (simp add: propose_None)
    moreover have "remove_transactions [] (hs_mempool hs) = hs_mempool hs" by (simp add: remove_transactions_def)
    ultimately show ?thesis
      using 2 None by (simp add: Let_def split: prod.splits)
  next
    case (Some b)
    obtain bs' where "run_leader E rounds (finalize_block E b hs) = (bs', hs')" "bs = b # bs'"
      using 2(3) Some by (auto split: prod.splits)
    with 2(2) [OF Some this(1)] show ?thesis
      by (simp add: propose_SomeD(1) [OF Some] Let_def split: prod.splits)
  qed
qed simp

text \<open>
  C4. Rounds of proposing and finalising hand out the mempool. What the blocks carry and what is
  left are together the transactions that paid enough at the start; after one round for every
  thousand of them nothing is left to propose, whatever copies the pool holds; without copies every
  such transaction is in exactly one block, in the order of the pool. Transactions that pay too
  little stay in the pool as they are.
\<close>
theorem leader_drains_mempool:
  assumes "mempool_inv E (hs_mempool hs)" and "run_leader E rounds hs = (bs, hs')"
    and "el = eligible (hs_mempool hs) (cfg_min_gas_price (hs_config hs))"
    and "el' = eligible (hs_mempool hs') (cfg_min_gas_price (hs_config hs))"
  shows "set (concat (map transactions bs)) \<union> set el' = set el \<and>
    (length el \<le> 1000 * length rounds \<longrightarrow>
       set (concat (map transactions bs)) = set el \<and> propose_block E now hs' prev = None) \<and>
    (distinct (map (tx_hash E) (pending (hs_mempool hs))) \<longrightarrow>
       concat (map transactions bs) = take (1000 * length rounds) el) \<and>
    filter (\<lambda>tx. tx_gas_price tx < cfg_min_gas_price (hs_config hs)) (pending (hs_mempool hs')) =
      filter (\<lambda>tx. tx_gas_price tx < cfg_min_gas_price (hs_config hs)) (pending (hs_mempool hs))"
proof -
  let ?p = "cfg_min_gas_price (hs_config hs)"
  note run = run_leader_drain [OF assms(2)]
  note inv' = pool.drain_inv [OF assms(1), of 1000 ?p "length rounds", folded conjunct1 [OF conjunct2 [OF run]]]
  have el: "el = pool.payable ?p (hs_mempool hs)" "el' = pool.payable ?p (hs_mempool hs')"
    unfolding assms(3,4) by (rule eligible_pending [OF assms(1)], rule eligible_pending [OF inv'])
  note all = pool.drain_all [OF assms(1), of 1000 ?p "length rounds"]
  have u: "set (concat (map transactions bs)) \<union> set el' = set el" "length el' \<le> length el - length rounds * 1000"
    using all run el by simp_all
  have "set (concat (map transactions bs)) = set el \<and> propose_block E now hs' prev = None"
    if "length el \<le> 1000 * length rounds"
  proof -
    have "el' = []" using u(2) that by simp
    moreover have "cfg_min_gas_price (hs_config hs') = ?p" using run by simp
    ultimately show ?thesis using u(1) by (simp add: propose_None get_transactions_take assms(4))
  qed
  moreover have "concat (map transactions bs) = take (1000 * length rounds) el"
    if "distinct (map (tx_hash E) (pending (hs_mempool hs)))"
    using pool.drain_exact [OF assms(1) that, of 1000 ?p "length rounds"] run el(1) by (simp add: mult.commute)
  moreover have "filter (\<lambda>tx. tx_gas_price tx < ?p) (pending (hs_mempool hs')) =
      filter (\<lambda>tx. tx_gas_price tx < ?p) (pending (hs_mempool hs))"
    using pool.drain_keeps [OF assms(1), of ?p 1000 "length rounds"] run by (simp add: not_le)
  ultimately show ?thesis using u(1) by blast
qed

text \<open>
  C20. Every block that the rounds propose has the same height, so each replaces the one before: of
  all of them the last is stored, and the transactions of the others are neither in a stored block of
  the rounds nor in the pool.
\<close>
theorem leader_keeps_last_block:
  assumes "run_leader E rounds hs = (bs, hs')"
  shows "get_block hs' = (if bs = [] then get_block hs
      else (get_block hs)(get_latest_height hs + 1 \<mapsto> last bs)) \<and>
    (\<forall>b \<in> set bs. hdr_height (header b) = get_latest_height hs + 1) \<and>
    get_latest_height hs' = get_latest_height hs \<and>
    hs_blocks_finalized hs' = hs_blocks_finalized hs + word_of_nat (length bs)"
  using assms
proof (induction E rounds hs arbitrary: bs rule: run_leader.induct)
  case (2 E now prev rounds hs)
  show ?case
  proof (cases "propose_block E now hs prev")
    case None
    with 2 show ?thesis by simp
  next
    case (Some b)
    obtain bs' where b: "run_leader E rounds (finalize_block E b hs) = (bs', hs')" "bs = b # bs'"
      using 2(3) Some by (auto split: prod.splits)
    note h = propose_SomeD(2) [OF Some]
    have "get_block (finalize_block E b hs) = (get_block hs)(hdr_height (header b) \<mapsto> b)"
      by (simp add: get_block_def fun_eq_iff)
    then show ?thesis using 2(2) [OF Some b(1)] h by (auto simp: b(2) get_latest_height_def)
  qed
qed simp

theorem leader_drains_mempool_witness:
  "case run_leader sample_ext [(7, hash_zero)] sample_engine of (bs, hs') \<Rightarrow>
     concat (map transactions bs) = [sample_tx 2 0 None 5 20, sample_tx 1 0 None 5 10] \<and>
     propose_block sample_ext 8 hs' hash_zero = None"
proof -
  obtain bs hs' where r: "run_leader sample_ext [(7, hash_zero)] sample_engine = (bs, hs')" by fastforce
  have el: "eligible sample_pool 1 = [sample_tx 2 0 None 5 20, sample_tx 1 0 None 5 10]"
    using sample_engine_txs by (simp add: get_transactions_take) (simp add: eligible_def sample_pool_def List.map_filter_simps hm_get_def)
  have p: "distinct (map (tx_hash sample_ext) (pending sample_pool))"
    by (simp add: pending_def sample_pool_def List.map_filter_simps hm_get_def)
  show ?thesis
    using leader_drains_mempool [OF _ r refl refl, where now = 8 and prev = hash_zero] el p
    unfolding r prod.case by (simp add: sample_pool_inv chain_config_default_def)
qed

theorem leader_keeps_last_block_witness:
  "case run_leader sample_ext [(7, hash_zero), (8, hash_zero)] sample_engine of (bs, hs') \<Rightarrow>
     get_block hs' 1 = (if bs = [] then None else Some (last bs)) \<and> get_latest_height hs' = 0"
proof -
  have "get_block sample_engine 1 = None" by (simp add: get_block_def)
  moreover obtain bs hs' where r: "run_leader sample_ext [(7, hash_zero), (8, hash_zero)] sample_engine = (bs, hs')"
    by fastforce
  ultimately show ?thesis
    using leader_keeps_last_block [OF r] unfolding r prod.case by (simp add: get_latest_height_def)
qed

subsection \<open>A transaction submitted again\<close>

fun add_all :: "ext \<Rightarrow> transaction list \<Rightarrow> mempool \<Rightarrow> mempool rs_result" where
  "add_all E [] mp = Ok mp"
| "add_all E (tx # txs) mp = (case add_transaction E tx mp of Err e \<Rightarrow> Err e | Ok mp' \<Rightarrow> add_all E txs mp')"

lemma add_again:
  assumes "mempool_inv E mp" and "pending mp = replicate i tx" and "i = 0 \<longrightarrow> mp_transactions mp = []"
    and "mp_max_size mp \<ge> 2"
  shows "\<exists>mp'. add_transaction E tx mp = Ok mp' \<and> mempool_inv E mp' \<and>
    pending mp' = replicate (Suc i) tx \<and> mp_max_size mp' = mp_max_size mp"
proof -
  have all: "tx' = tx" if "hm_get (mp_transactions mp) h = Some tx'" for h tx'
    using set_pending [OF assms(1)] that assms(2) by (auto split: if_splits)
  then have nc: "no_collision E tx mp" by (auto simp: no_collision_def split: option.split)
  have "fst ` set (mp_transactions mp) \<subseteq> {tx_hash E tx}"
    using all mempool_invD(5) [OF assms(1)] hm_in_set_get [OF mempool_invD(1) [OF assms(1)]] by fastforce
  then have "length (mp_transactions mp) \<le> 1"
    using card_mono [of "{tx_hash E tx}" "fst ` set (mp_transactions mp)"]
      hm.length_dom [OF mempool_invD(1) [OF assms(1)]] hm.dom_get [OF mempool_invD(1) [OF assms(1)]] by simp
  then obtain mp' where "add_transaction E tx mp = Ok mp'" "mp_max_size mp' = mp_max_size mp"
    using assms(4) by (auto simp: add_transaction_def Let_def)
  moreover have "pq_insert tx_gas_price tx (replicate i tx) = replicate (Suc i) tx"
    by (simp add: pq_insert_last replicate_append_same)
  ultimately show ?thesis
    using pending_add [OF assms(1) nc] add_inv [OF assms(1) nc] assms(2) by auto
qed

lemma add_copies:
  assumes "k \<ge> 2"
  shows "\<exists>mp. add_all E (replicate n tx) (mempool_new k) = Ok mp \<and> mempool_inv E mp \<and> pending mp = replicate n tx"
proof -
  have "\<exists>mp'. add_all E (replicate n tx) mp = Ok mp' \<and> mempool_inv E mp' \<and> pending mp' = replicate (n + i) tx"
    if "mempool_inv E mp" "pending mp = replicate i tx" "i = 0 \<longrightarrow> mp_transactions mp = []" "mp_max_size mp \<ge> 2"
    for i mp using that
  proof (induction n arbitrary: i mp)
    case (Suc n)
    obtain mp1 where 1: "add_transaction E tx mp = Ok mp1" "mempool_inv E mp1"
      "pending mp1 = replicate (Suc i) tx" "mp_max_size mp1 = mp_max_size mp"
      using add_again [OF Suc.prems] by blast
    with Suc.IH [of mp1 "Suc i"] Suc.prems(4) show ?case by auto
  qed simp
  from this [of "mempool_new k" 0] assms show ?thesis
    by (simp add: mempool_inv_new) (simp add: mempool_new_def pending_def)
qed

lemma transfer_copies:
  assumes "tx_type tx = Transfer" and "tx_to tx = Some r" and "r \<noteq> tx_from tx"
    and "transfer_cost tx < 2 ^ 128" and "n * transfer_cost tx \<le> unat (balance_of st (tx_from tx))"
    and "unat (balance_of st r) + n * unat (tx_value tx) < 2 ^ 128"
  shows "case execute_block_sequential E G (replicate n tx) st of (rs, st') \<Rightarrow>
    (\<forall>res \<in> set rs. success res) \<and> length rs = n \<and>
    unat (balance_of st' (tx_from tx)) = unat (balance_of st (tx_from tx)) - n * transfer_cost tx \<and>
    unat (balance_of st' r) = unat (balance_of st r) + n * unat (tx_value tx)"
  using assms(5,6)
proof (induction n arbitrary: st)
  case (Suc n)
  obtain res st1 where x: "execute_transaction E G tx st = (res, st1)" by fastforce
  obtain rs st2 where b: "execute_block_sequential E G (replicate n tx) st1 = (rs, st2)" by fastforce
  have t: "execute_transfer G tx (base_tx_cost G) st = (res, st1)"
    using x by (simp add: execute_transaction_def assms(1) Let_def)
  have "unat (balance_of st r) + unat (tx_value tx) < 2 ^ 128" using Suc.prems(2) by simp
  note step = transfer_exact [OF assms(2-4) this, of G "base_tx_cost G", unfolded t prod.case]
  have "transfer_cost tx \<le> unat (balance_of st (tx_from tx))" using Suc.prems(1) by simp
  with step have s: "success res" "unat (balance_of st1 (tx_from tx)) = unat (balance_of st (tx_from tx)) - transfer_cost tx"
      "unat (balance_of st1 r) = unat (balance_of st r) + unat (tx_value tx)" by auto
  with Suc.prems have "n * transfer_cost tx \<le> unat (balance_of st1 (tx_from tx))"
      "unat (balance_of st1 r) + n * unat (tx_value tx) < 2 ^ 128" by simp_all
  from Suc.IH [OF this] s show ?case by (simp add: x b)
qed simp

text \<open>
  C15. Nothing between the pool and the balances recognises a transaction: submitted \<open>n\<close> times to an
  empty pool it is accepted \<open>n\<close> times, the next block carries it \<open>n\<close> times, and executing the block
  pays its value \<open>n\<close> times and charges its sender \<open>n\<close> times, whatever its nonce and its signature.
\<close>
theorem resubmission_pays_again:
  assumes "tx_type tx = Transfer" and "tx_to tx = Some r" and "r \<noteq> tx_from tx"
    and "transfer_cost tx < 2 ^ 128" and "n * transfer_cost tx \<le> unat (balance_of st (tx_from tx))"
    and "unat (balance_of st r) + n * unat (tx_value tx) < 2 ^ 128"
    and "hs_mempool hs = mempool_new k" and "2 \<le> k" and "1 \<le> n" and "n \<le> 1000"
    and "cfg_min_gas_price (hs_config hs) \<le> tx_gas_price tx"
  shows "\<exists>mp b. add_all E (replicate n tx) (hs_mempool hs) = Ok mp \<and>
    propose_block E now (hs\<lparr>hs_mempool := mp\<rparr>) prev = Some b \<and> transactions b = replicate n tx \<and>
    (case execute_block_sequential E G (transactions b) st of (rs, st') \<Rightarrow>
       (\<forall>res \<in> set rs. success res) \<and>
       unat (balance_of st' (tx_from tx)) = unat (balance_of st (tx_from tx)) - n * transfer_cost tx \<and>
       unat (balance_of st' r) = unat (balance_of st r) + n * unat (tx_value tx))"
proof -
  let ?m = "cfg_min_gas_price (hs_config hs)"
  obtain mp where mp: "add_all E (replicate n tx) (mempool_new k) = Ok mp" "mempool_inv E mp"
    "pending mp = replicate n tx" using add_copies [OF assms(8)] by blast
  have "get_transactions mp 1000 ?m = take 1000 (replicate n tx)"
    using pool.queue_select [OF mp(2), of 1000 ?m] assms(11) by (simp add: mp(3) filter_replicate)
  then have txs: "get_transactions mp 1000 ?m = replicate n tx" using assms(10) by simp
  then obtain b where "propose_block E now (hs\<lparr>hs_mempool := mp\<rparr>) prev = Some b" "transactions b = replicate n tx"
    using assms(9) by (simp add: propose_block_def Let_def)
  with mp(1) transfer_copies [OF assms(1-6), of E G] show ?thesis
    by (auto simp: assms(7) split: prod.splits)
qed

theorem resubmission_pays_again_witness:
  "\<exists>mp b. add_all sample_ext (replicate 3 (sample_tx 1 0 (Some (Address [2])) 30 1)) (mempool_new 100000) = Ok mp \<and>
    propose_block sample_ext 7 (sample_engine\<lparr>hs_mempool := mp\<rparr>) hash_zero = Some b \<and>
    (case execute_block_sequential sample_ext gas_schedule_default (transactions b) sample_vm of (rs, st') \<Rightarrow>
       unat (balance_of st' (Address [2])) = 90)"
proof -
  let ?tx = "sample_tx 1 0 (Some (Address [2])) 30 1"
  have bal: "unat (balance_of sample_vm (Address [1])) = 100" "unat (balance_of sample_vm (Address [2])) = 0"
    and cost: "transfer_cost ?tx = 31"
    and tx: "tx_type ?tx = Transfer" "tx_to ?tx = Some (Address [2])" "tx_from ?tx = Address [1]"
      "unat (tx_value ?tx) = 30" "tx_gas_price ?tx = 1"
    by (simp_all add: sample_vm_simps transfer_cost_def)
  show ?thesis
    using resubmission_pays_again [of ?tx "Address [2]" 3 sample_vm "sample_engine\<lparr>hs_mempool := mempool_new 100000\<rparr>"
        100000 sample_ext 7 hash_zero gas_schedule_default]
    by (auto simp: bal cost tx chain_config_default_def split: prod.splits)
qed

subsection \<open>Executing the chain\<close>

fun execute_chain :: "ext \<Rightarrow> gas_schedule \<Rightarrow> block list \<Rightarrow> vm_state \<Rightarrow> execution_result list \<times> vm_state" where
  "execute_chain E G [] st = ([], st)"
| "execute_chain E G (b # bs) st =
     (case execute_block_sequential E G (transactions b) st of
        (rs, st1) \<Rightarrow> (case execute_chain E G bs st1 of (rs', st2) \<Rightarrow> (rs @ rs', st2)))"

lemma execute_append:
  "execute_block_sequential E G (xs @ ys) st =
     (case execute_block_sequential E G xs st of
        (rs, st1) \<Rightarrow> (case execute_block_sequential E G ys st1 of (rs', st2) \<Rightarrow> (rs @ rs', st2)))"
  by (induction xs arbitrary: st) (simp_all split: prod.split)

lemma execute_chain_concat:
  "execute_chain E G bs st = execute_block_sequential E G (concat (map transactions bs)) st"
  by (induction bs arbitrary: st) (simp_all add: execute_append split: prod.split)

text \<open>
  C36. From the pool to the balances. If the pool holds no copies, then after one round for every thousand
  eligible transactions, executing the blocks one after the other is executing exactly the eligible
  transactions once each, by decreasing gas price. If they are transfers between distinct addresses, the \<open>u128\<close>
  sum of all balances falls over the whole chain, modulo \<open>2^128\<close>, by the gas cost of those that succeed; and
  if no value plus gas cost reaches \<open>2^128\<close> and all balances together stay below it, the money itself,
  summed over the natural numbers, falls by exactly that gas.
\<close>
theorem chain_executes_pool:
  assumes "mempool_inv E (hs_mempool hs)" and "distinct (map (tx_hash E) (pending (hs_mempool hs)))"
    and "run_leader E rounds hs = (bs, hs')"
    and "el = eligible (hs_mempool hs) (cfg_min_gas_price (hs_config hs))"
    and "length el \<le> 1000 * length rounds" and "execute_chain E G bs st = (rs, st')"
  shows "execute_block_sequential E G el st = (rs, st') \<and> sorted_wrt (\<ge>) (map tx_gas_price el) \<and>
    ((\<forall>tx \<in> set el. plain_transfer tx) \<longrightarrow> vm_wf st \<longrightarrow>
       length rs = length el \<and> vm_supply st' + sum_list (map2 gas_paid el rs) = vm_supply st \<and>
       ((\<forall>tx \<in> set el. transfer_cost tx < 2 ^ 128) \<and> funds st < 2 ^ 128 \<longrightarrow>
          funds st' + sum_list (map2 gas_burnt el rs) = funds st))"
proof -
  let ?p = "cfg_min_gas_price (hs_config hs)"
  note run = run_leader_drain [OF assms(3)]
  have "concat (map transactions bs) = take (length rounds * 1000) (pool.payable ?p (hs_mempool hs))"
    using pool.drain_exact [OF assms(1,2), of 1000 ?p "length rounds"] run by simp
  then have "concat (map transactions bs) = el"
    using assms(5) by (simp add: assms(4) eligible_pending [OF assms(1)])
  then have x: "execute_block_sequential E G el st = (rs, st')"
    using assms(6) by (simp add: execute_chain_concat)
  moreover have "sorted_wrt (\<ge>) (map tx_gas_price el)"
    using get_transactions_facts [OF assms(1), of 0 ?p] by (simp only: assms(4))
  ultimately show ?thesis
    using block_sequential_supply [OF _ _ x] block_sequential_funds [OF _ _ _ x] by blast
qed

theorem chain_executes_pool_witness:
  "\<exists>mp bs hs' rs st'. run_leader sample_ext [(7, hash_zero)] (sample_engine\<lparr>hs_mempool := mp\<rparr>) = (bs, hs') \<and>
    execute_chain sample_ext gas_schedule_default bs sample_vm = (rs, st') \<and>
    execute_block_sequential sample_ext gas_schedule_default [sample_tx 1 0 (Some (Address [2])) 30 1] sample_vm = (rs, st') \<and>
    funds st' + sum_list (map2 gas_burnt [sample_tx 1 0 (Some (Address [2])) 30 1] rs) = 100"
proof -
  let ?tx = "sample_tx 1 0 (Some (Address [2])) 30 1"
  obtain mp where mp: "mempool_inv sample_ext mp" "pending mp = replicate 1 ?tx"
    using add_copies [of 100000 sample_ext 1 ?tx] by auto
  let ?hs = "sample_engine\<lparr>hs_mempool := mp\<rparr>"
  obtain bs hs' where r: "run_leader sample_ext [(7, hash_zero)] ?hs = (bs, hs')" by fastforce
  obtain rs st' where x: "execute_chain sample_ext gas_schedule_default bs sample_vm = (rs, st')" by fastforce
  have el: "eligible (hs_mempool ?hs) (cfg_min_gas_price (hs_config ?hs)) = [?tx]"
    using eligible_pending [OF mp(1)] mp(2) by (simp add: chain_config_default_def sample_tx_def)
  have inv: "mempool_inv sample_ext (hs_mempool ?hs)"
    and d: "distinct (map (tx_hash sample_ext) (pending (hs_mempool ?hs)))" using mp by simp_all
  have st: "vm_wf sample_vm" "plain_transfer ?tx" "transfer_cost ?tx < 2 ^ 128" "funds sample_vm = 100"
    by (simp_all add: plain_transfer_def transfer_cost_def funds_def hm_sum_def sample_vm_simps)
  have "execute_block_sequential sample_ext gas_schedule_default [?tx] sample_vm = (rs, st') \<and>
      funds st' + sum_list (map2 gas_burnt [?tx] rs) = 100"
    using chain_executes_pool [OF inv d r el [symmetric] _ x] st by simp
  with r x show ?thesis by blast
qed

end
