(* ===== verification/Replicas.thy ===== *)
theory Replicas
  imports Leader Simulation
begin

text \<open>
  Several engines of \<^verbatim>\<open>src/src/consensus/mod.rs\<close> with one validator set, to which blocks are published: an
  engine takes transactions, and finalises a published block after \<open>validate_block\<close> accepted it
  (\<open>finalize_block\<close> itself checks nothing). The steps of \<open>replicas_step\<close> interleave in any order. Shown
  are agreement on the headers when no leader signs two headers of one height, and what the checks of
  \<open>validate_block\<close> leave open: the parent hash, the number of transactions, the shard proofs, and a
  signature that covers itself.
\<close>

subsection \<open>Steps\<close>

definition accept_block :: "ext \<Rightarrow> secp \<Rightarrow> block \<Rightarrow> hotstuff \<Rightarrow> hotstuff" where
  "accept_block E S b hs = (if validate_block E S hs b then finalize_block E b hs else hs)"

inductive replicas_step :: "ext \<Rightarrow> secp \<Rightarrow> block set \<Rightarrow> hotstuff list \<Rightarrow> hotstuff list \<Rightarrow> bool"
  for E S B where
  submit: "i < length rs \<Longrightarrow> add_transaction E tx (hs_mempool (rs ! i)) = Ok mp \<Longrightarrow>
    replicas_step E S B rs (rs[i := (rs ! i)\<lparr>hs_mempool := mp\<rparr>])"
| deliver: "i < length rs \<Longrightarrow> b \<in> B \<Longrightarrow> replicas_step E S B rs (rs[i := accept_block E S b (rs ! i)])"

text \<open>The leader of the block's height is its proposer, whose key verifies the signature.\<close>

definition well_signed :: "ext \<Rightarrow> secp \<Rightarrow> validator_set \<Rightarrow> block_header \<Rightarrow> bool" where
  "well_signed E S vs h \<longleftrightarrow> get_leader vs (hdr_height h) = Some (hdr_validator h) \<and>
     (\<exists>v. get_validator vs (hdr_validator h) = Some v \<and>
        verify_signature S v (header_hash E h) (hdr_signature h))"

lemma leader_is_validator:
  assumes "vs_wf vs" and "get_leader vs r = Some a"
  shows "\<exists>v. get_validator vs a = Some v"
proof -
  let ?ks = "sorted_list_of_set (fst ` set (validators vs))"
  have "validators vs \<noteq> []" using assms(2) by (auto simp: get_leader_def)
  then have "?ks \<noteq> []" by simp
  then have "a \<in> set ?ks"
    using assms(2) nth_mem [of "unat r mod length ?ks" ?ks]
    by (simp add: get_leader_facts [OF assms(1)] Let_def del: length_sorted_list_of_set split: if_splits)
  then have "a \<in> dom (get_validator vs)"
    using assms(1) by (simp add: get_validator_eq vs_wf_def hm.dom_get)
  then show ?thesis by auto
qed

lemma leader_exists: "vs_wf vs \<Longrightarrow> validators vs \<noteq> [] \<Longrightarrow> \<exists>a. get_leader vs r = Some a"
  by (auto simp: get_leader_facts Let_def)

lemma validate_blockD:
  assumes "vs_wf (hs_validator_set hs)" and "validators (hs_validator_set hs) \<noteq> []"
    and "validate_block E S hs b"
  shows "well_signed E S (hs_validator_set hs) (header b)"
    and "hdr_height (header b) = 0 \<or> get_block hs (hdr_height (header b) - 1) \<noteq> None"
    and "merkle_root (sha3_256 E) (map (tx_hash E) (transactions b)) = hdr_merkle_root (header b)"
proof -
  obtain l where l: "get_leader (hs_validator_set hs) (hdr_height (header b)) = Some l"
    using leader_exists [OF assms(1,2)] by blast
  moreover have "l = hdr_validator (header b)"
    using assms(3) l by (simp add: validate_block_def split: if_splits)
  moreover obtain v where "get_validator (hs_validator_set hs) l = Some v"
    using leader_is_validator [OF assms(1) l] by blast
  ultimately show "well_signed E S (hs_validator_set hs) (header b)"
    using assms(3) by (auto simp: validate_block_def well_signed_def split: if_splits)
qed (use assms(3) in \<open>auto simp: validate_block_def get_block_def word_neq_0_conv split: if_splits\<close>)

subsection \<open>What every engine holds\<close>

definition replica_inv :: "ext \<Rightarrow> secp \<Rightarrow> validator_set \<Rightarrow> block set \<Rightarrow> hotstuff \<Rightarrow> bool" where
  "replica_inv E S vs B hs \<longleftrightarrow> hs_validator_set hs = vs \<and>
     (\<forall>h b. get_block hs h = Some b \<longrightarrow> b \<in> B \<and> hdr_height (header b) = h \<and>
        well_signed E S vs (header b) \<and>
        merkle_root (sha3_256 E) (map (tx_hash E) (transactions b)) = hdr_merkle_root (header b) \<and>
        (\<forall>k \<le> h. get_block hs k \<noteq> None))"

lemma replica_inv_mempool [simp]: "replica_inv E S vs B (hs\<lparr>hs_mempool := mp\<rparr>) = replica_inv E S vs B hs"
  by (simp add: replica_inv_def get_block_def)

lemma get_block_finalize:
  "get_block (finalize_block E b hs) = (get_block hs)(hdr_height (header b) \<mapsto> b)"
  by (simp add: get_block_def fun_eq_iff)

lemma word_pred_le: "k < h \<Longrightarrow> h \<noteq> 0 \<and> k \<le> h - 1" for h :: u64
proof -
  assume k: "k < h"
  then have "1 \<le> unat h" by (simp add: word_less_nat_alt)
  then have "unat (h - 1) = unat h - 1" by (subst unat_sub) (simp_all add: word_le_nat_alt)
  with k show ?thesis by (auto simp: word_le_nat_alt word_less_nat_alt)
qed

lemma accept_inv:
  assumes "vs_wf vs" and "validators vs \<noteq> []" and "b \<in> B" and inv: "replica_inv E S vs B hs"
  shows "replica_inv E S vs B (accept_block E S b hs)"
proof (cases "validate_block E S hs b")
  case True
  let ?h = "hdr_height (header b)"
  have vs: "hs_validator_set hs = vs" using inv by (simp add: replica_inv_def)
  note v = validate_blockD [OF _ _ True, unfolded vs, OF assms(1,2)]
  have below: "get_block (finalize_block E b hs) k \<noteq> None" if "k \<le> ?h" for k
  proof (cases "k = ?h")
    case False
    with that have "?h \<noteq> 0" and "k \<le> ?h - 1" using word_pred_le [of k ?h] by auto
    with v(2) obtain b' where "get_block hs (?h - 1) = Some b'" by auto
    with inv \<open>k \<le> ?h - 1\<close> False show ?thesis by (auto simp: replica_inv_def get_block_finalize)
  qed (simp add: get_block_finalize)
  show ?thesis
    using inv v below assms(3) unfolding replica_inv_def accept_block_def
    by (auto simp: True get_block_finalize split: if_splits)
qed (simp add: accept_block_def inv)

lemma replicas_step_inv:
  assumes "vs_wf vs" and "validators vs \<noteq> []" and "replicas_step E S B rs rs'"
    and IH: "\<forall>e \<in> set rs. replica_inv E S vs B e"
  shows "\<forall>e \<in> set rs'. replica_inv E S vs B e"
  using assms(3)
proof (cases rule: replicas_step.cases)
  case (submit i tx mp)
  then have "replica_inv E S vs B ((rs ! i)\<lparr>hs_mempool := mp\<rparr>)"
    using IH by simp
  with IH submit show ?thesis by (auto dest!: subsetD [OF set_update_subset_insert])
next
  case (deliver i b)
  then have "replica_inv E S vs B (accept_block E S b (rs ! i))"
    using IH assms(1,2) by (intro accept_inv) auto
  with IH deliver show ?thesis by (auto dest!: subsetD [OF set_update_subset_insert])
qed

interpretation replica_runs: step_invariant "\<lambda>(E, S, B, vs). vs_wf vs \<and> validators vs \<noteq> []"
    "\<lambda>(E, S, B, vs). replicas_step E S B" "\<lambda>(E, S, B, vs) rs. \<forall>e \<in> set rs. replica_inv E S vs B e"
  by unfold_locales (use replicas_step_inv in auto)

lemma replicas_inv:
  assumes "(replicas_step E S B)\<^sup>*\<^sup>* rs0 rs" and "vs_wf vs" and "validators vs \<noteq> []"
    and "\<forall>e \<in> set rs0. replica_inv E S vs B e"
  shows "\<forall>e \<in> set rs. replica_inv E S vs B e"
  using replica_runs.reach_inv [of "(E, S, B, vs)" rs0 rs] assms by simp

inductive_cases replicas_stepE: "replicas_step E S B rs rs'"

lemma replicas_length: "(replicas_step E S B)\<^sup>*\<^sup>* rs0 rs \<Longrightarrow> length rs = length rs0"
  by (induction rule: rtranclp_induct) (auto elim: replicas_stepE)

lemma fresh_replica_inv: "hs_blocks e = [] \<Longrightarrow> hs_validator_set e = vs \<Longrightarrow> replica_inv E S vs B e"
  by (simp add: replica_inv_def get_block_def)

lemma replicas_keep:
  assumes "(replicas_step E S B)\<^sup>*\<^sup>* rs rs'" and "i < length rs" and "get_block (rs ! i) h \<noteq> None"
  shows "get_block (rs' ! i) h \<noteq> None"
  using assms(1,3)
proof (induction rule: rtranclp_induct)
  case (step rs1 rs2)
  have "i < length rs1" using replicas_length [OF step.hyps(1)] assms(2) by simp
  with step show ?case
    by (auto elim!: replicas_stepE
        simp: nth_list_update accept_block_def get_block_finalize) (simp_all add: get_block_def)
qed

subsection \<open>Agreement\<close>

text \<open>
  C5. Agreement and gap-free histories. Engines with the same validators start empty and finalise only
  published blocks that they validated. If no leader signed two headers of one height among the
  published blocks, then in every interleaving no two engines store different headers (and hence
  different Merkle roots) at one height, every height below a stored one is stored, and the header at a
  stored height never changes again.
\<close>
theorem replicas_agree:
  assumes "(replicas_step E S B)\<^sup>*\<^sup>* rs0 rs" and "(replicas_step E S B)\<^sup>*\<^sup>* rs rs'"
    and "vs_wf vs" and "validators vs \<noteq> []"
    and "\<forall>e \<in> set rs0. hs_validator_set e = vs \<and> hs_blocks e = []"
    and "\<forall>b \<in> B. \<forall>b' \<in> B. hdr_height (header b) = hdr_height (header b') \<longrightarrow>
      well_signed E S vs (header b) \<longrightarrow> well_signed E S vs (header b') \<longrightarrow> header b = header b'"
    and "i < length rs0" and "j < length rs0" and "get_block (rs ! i) h = Some b"
  shows "(\<forall>b'. get_block (rs' ! j) h = Some b' \<longrightarrow> header b' = header b \<and>
      merkle_root (sha3_256 E) (map (tx_hash E) (transactions b')) =
      merkle_root (sha3_256 E) (map (tx_hash E) (transactions b))) \<and>
    (\<forall>k \<le> h. get_block (rs ! i) k \<noteq> None) \<and>
    (\<exists>b'. get_block (rs' ! i) h = Some b' \<and> header b' = header b)"
proof -
  have "\<forall>e \<in> set rs0. replica_inv E S vs B e" using assms(5) by (auto intro: fresh_replica_inv)
  note inv = replicas_inv [OF assms(1,3,4) this] and inv' = replicas_inv [OF rtranclp_trans [OF assms(1,2)] assms(3,4) this]
  have len: "length rs = length rs0" "length rs' = length rs0"
    using replicas_length [OF assms(1)] replicas_length [OF rtranclp_trans [OF assms(1,2)]] by simp_all
  have i: "replica_inv E S vs B (rs ! i)" using inv assms(7) len by simp
  have all': "replica_inv E S vs B (rs' ! k)" if "k < length rs0" for k using inv' that len by simp
  have same: "header b' = header b" if "k < length rs0" "get_block (rs' ! k) h = Some b'" for k b'
    using i all' [OF that(1)] that(2) assms(6,9) by (simp add: replica_inv_def)
  have "get_block (rs' ! i) h \<noteq> None"
    using replicas_keep [OF assms(2)] assms(7,9) len by simp
  then have "\<exists>b'. get_block (rs' ! i) h = Some b' \<and> header b' = header b"
    using same [OF assms(7)] by auto
  moreover have "\<forall>k \<le> h. get_block (rs ! i) k \<noteq> None"
    using i assms(9) unfolding replica_inv_def by blast
  moreover have "merkle_root (sha3_256 E) (map (tx_hash E) (transactions b')) =
      merkle_root (sha3_256 E) (map (tx_hash E) (transactions b))"
    if b': "get_block (rs' ! j) h = Some b'" for b'
  proof -
    have root: "merkle_root (sha3_256 E) (map (tx_hash E) (transactions c)) = hdr_merkle_root (header c)"
      if "replica_inv E S vs B e" "get_block e h = Some c" for e c
      using that by (simp add: replica_inv_def)
    show ?thesis
      using root [OF i assms(9)] root [OF all' [OF assms(8)] b'] same [OF assms(8) b'] by simp
  qed
  ultimately show ?thesis using same [OF assms(8)] by blast
qed

subsection \<open>What the header does not bind\<close>

text \<open>The same header over the transactions with the last of them repeated, and any shard proofs.\<close>

definition relayed :: "shard_proof list \<Rightarrow> block \<Rightarrow> block" where
  "relayed ps b = b\<lparr>transactions := transactions b @ [last (transactions b)], shard_proofs := ps\<rparr>"

lemma relayed_simps [simp]:
  "header (relayed ps b) = header b" "transactions (relayed ps b) = transactions b @ [last (transactions b)]"
  by (simp_all add: relayed_def)

lemma relayed_root:
  assumes "odd (length (transactions b))" and "1 < length (transactions b)"
  shows "merkle_root sha (map f (transactions (relayed ps b))) = merkle_root sha (map f (transactions b))"
proof -
  have "transactions b \<noteq> []" using assms(2) by auto
  then have "map f (transactions (relayed ps b)) = map f (transactions b) @ [last (map f (transactions b))]"
    by (simp add: last_map)
  then show ?thesis using assms by (simp add: merkle_root_duplicate_last)
qed

lemma relayed_validates:
  assumes "odd (length (transactions b))" and "1 < length (transactions b)"
  shows "validate_block E S hs (relayed ps b) \<longleftrightarrow> validate_block E S hs b"
  by (simp only: validate_block_def relayed_root [OF assms] relayed_simps(1))

text \<open>
  C6. Agreement stops at the headers. Whoever relays a block with an odd number of transactions (at
  least three) can repeat the last one and replace the shard proofs, without any key: \<open>validate_block\<close>
  accepts the copy exactly when it accepts the original, because the Merkle root is the same and the
  count in the header is not compared. Of two engines that accept the original, one can end up with the
  original and the other with the copy, under one header.
\<close>
theorem relayed_block_splits_replicas:
  assumes "odd (length (transactions b))" and "1 < length (transactions b)"
    and "i < length rs" and "j < length rs" and "i \<noteq> j"
    and "validate_block E S (rs ! i) b" and "validate_block E S (rs ! j) b"
  shows "\<exists>rs'. (replicas_step E S {b, relayed ps b})\<^sup>*\<^sup>* rs rs' \<and>
    get_block (rs' ! i) (hdr_height (header b)) = Some b \<and>
    get_block (rs' ! j) (hdr_height (header b)) = Some (relayed ps b) \<and>
    header (relayed ps b) = header b \<and>
    transactions (relayed ps b) = transactions b @ [last (transactions b)]"
proof -
  let ?rs1 = "rs[i := accept_block E S b (rs ! i)]"
  let ?rs2 = "?rs1[j := accept_block E S (relayed ps b) (?rs1 ! j)]"
  have "replicas_step E S {b, relayed ps b} rs ?rs1" "replicas_step E S {b, relayed ps b} ?rs1 ?rs2"
    using assms(3,4) by (auto intro!: replicas_step.deliver)
  then have "(replicas_step E S {b, relayed ps b})\<^sup>*\<^sup>* rs ?rs2" by simp
  moreover have "validate_block E S (rs ! j) (relayed ps b)"
    using relayed_validates [OF assms(1,2)] assms(7) by simp
  ultimately show ?thesis
    using assms(3-6) by (intro exI [of _ ?rs2]) (simp add: accept_block_def get_block_finalize)
qed

text \<open>
  Validation reads nothing of the engine but its validators and whether some block is stored one
  height below: the parent hash in the header and what the parent is do not matter.
\<close>
lemma validate_block_ignores_parent:
  assumes "hs_validator_set hs' = hs_validator_set hs"
    and "get_block hs' (hdr_height (header b) - 1) = None \<longleftrightarrow> get_block hs (hdr_height (header b) - 1) = None"
  shows "validate_block E S hs' b = validate_block E S hs b"
  using assms by (simp add: validate_block_def get_block_def)

subsection \<open>Signing a proposal\<close>

text \<open>
  \<open>header_hash\<close> determines the whole header, as far as the serialiser tells two headers apart and SHA3 does
  not collide on their serialisations.
\<close>
lemma header_hash_binding:
  assumes "ser_header E h = Some x" and "ser_header E h' = Some y"
    and "inj_on (ser_header E) {h, h'}" and "inj_on (sha3_256 E) {x, y}"
    and "header_hash E h = header_hash E h'"
  shows "h = h'"
proof -
  have "sha3_256 E x = sha3_256 E y" using assms(1,2,5) by (simp add: header_hash_def hash_new_def)
  then have "x = y" by (rule inj_onD [OF assms(4)]) simp_all
  then have "ser_header E h = ser_header E h'" using assms(1,2) by simp
  then show ?thesis by (rule inj_onD [OF assms(3)]) simp_all
qed

text \<open>
  C19. No proposal can be validated. \<open>propose_block\<close> leaves the signature of the header empty, to be
  filled in, and \<open>validate_block\<close> checks it against \<open>header_hash\<close>, which covers the whole header, signature
  included. The empty signature is no signature. One that the proposer made over the hash of the proposal
  (so that it fits no other hash) does not fit once it stands in the header: the header with it is
  serialised differently, and so has another hash, unless SHA3 collides on just these two serialisations.
\<close>
theorem proposals_never_validate:
  assumes "propose_block E now hs prev = Some b"
    and "vs_wf (hs_validator_set hs')" and "validators (hs_validator_set hs') \<noteq> []"
    and "signature_from_compact S [] = None"
    and "\<And>v h. get_validator (hs_validator_set hs') (hs_my_address hs) = Some v \<Longrightarrow>
      verify_signature S v h sig \<Longrightarrow> h = header_hash E (header b)"
    and "ser_header E (header b) = Some x" and "ser_header E ((header b)\<lparr>hdr_signature := sig\<rparr>) = Some y"
    and "inj_on (ser_header E) {header b, (header b)\<lparr>hdr_signature := sig\<rparr>}"
    and "inj_on (sha3_256 E) {x, y}"
  shows "\<not> validate_block E S hs' b \<and>
    \<not> validate_block E S hs' (b\<lparr>header := (header b)\<lparr>hdr_signature := sig\<rparr>\<rparr>)"
proof
  have e: "hdr_signature (header b) = []" "hdr_validator (header b) = hs_my_address hs"
    using assms(1) by (auto simp: propose_block_def Let_def split: if_splits)
  have none: "\<not> verify_signature S v h []" for v h
    using assms(4) by (simp add: verify_signature_def split: option.split)
  show "\<not> validate_block E S hs' b"
    using validate_blockD(1) [OF assms(2,3), of E S b] none by (auto simp: well_signed_def e)
  show "\<not> validate_block E S hs' (b\<lparr>header := (header b)\<lparr>hdr_signature := sig\<rparr>\<rparr>)"
  proof
    assume "validate_block E S hs' (b\<lparr>header := (header b)\<lparr>hdr_signature := sig\<rparr>\<rparr>)"
    from validate_blockD(1) [OF assms(2,3) this]
    obtain v where v: "get_validator (hs_validator_set hs') (hs_my_address hs) = Some v"
      "verify_signature S v (header_hash E ((header b)\<lparr>hdr_signature := sig\<rparr>)) sig"
      by (auto simp: well_signed_def e)
    from assms(5) [OF v] have "header_hash E (header b) = header_hash E ((header b)\<lparr>hdr_signature := sig\<rparr>)"
      by (rule sym)
    then have "header b = (header b)\<lparr>hdr_signature := sig\<rparr>"
      by (rule header_hash_binding [OF assms(6-9)])
    then have "hdr_signature (header b) = hdr_signature ((header b)\<lparr>hdr_signature := sig\<rparr>)" by (rule arg_cong)
    then have "sig = []" by (simp add: e(1))
    with v none show False by blast
  qed
qed

subsection \<open>Concrete runs\<close>

lemma sample_block_valid: "validate_block sample_ext sample_secp sample_engine sample_block"
proof -
  have "get_leader (sample_set [1, 2] 5) 0 = Some (Address [1])"
    by (simp add: get_leader_def sample_defs less_eq_address_def)
  then show ?thesis
    by (simp add: validate_block_def sample_block_def merkle_root_singleton) (simp add: sample_qc_defs)
qed

lemma sample_block_height: "hdr_height (header sample_block) = 0"
  by (simp add: sample_block_def)

theorem replicas_agree_witness:
  "\<exists>rs. (replicas_step sample_ext sample_secp {sample_block})\<^sup>*\<^sup>* [sample_engine, sample_engine] rs \<and>
    get_block (rs ! 0) 0 = Some sample_block \<and> (\<exists>b. get_block (rs ! 1) 0 = Some b) \<and>
    (\<forall>b. get_block (rs ! 1) 0 = Some b \<longrightarrow> header b = header sample_block)"
proof -
  let ?e = "accept_block sample_ext sample_secp sample_block sample_engine"
  let ?step = "replicas_step sample_ext sample_secp {sample_block}"
  have 1: "?step [sample_engine, sample_engine] [?e, sample_engine]"
    using replicas_step.deliver [of 0 "[sample_engine, sample_engine]" sample_block] by simp
  have 2: "?step [?e, sample_engine] [?e, ?e]"
    using replicas_step.deliver [of 1 "[?e, sample_engine]" sample_block] by simp
  have b: "get_block ?e 0 = Some sample_block"
    by (simp add: accept_block_def sample_block_valid get_block_finalize sample_block_height)
  have run: "?step\<^sup>*\<^sup>* [sample_engine, sample_engine] [?e, ?e]" using 1 2 by simp
  have "validators (sample_set [1, 2] 5) \<noteq> []" by (simp add: sample_defs)
  then have "\<forall>b'. get_block ([?e, ?e] ! 1) 0 = Some b' \<longrightarrow> header b' = header sample_block"
    using replicas_agree [OF run rtranclp.rtrancl_refl vs_wf_sample, where i = 0 and j = 1 and h = 0 and b = sample_block] b by simp
  with b run show ?thesis by (intro exI [of _ "[?e, ?e]"]) simp
qed

definition sample_block3 :: block where
  "sample_block3 =
     (let txs = [sample_tx 2 0 None 5 20, sample_tx 1 0 None 5 10, sample_tx 2 1 None 5 10]
      in \<lparr>header = (header sample_block)\<lparr>hdr_tx_count := 3,
            hdr_merkle_root := merkle_root (sha3_256 sample_ext) (map (tx_hash sample_ext) txs)\<rparr>,
          transactions = txs, shard_proofs = []\<rparr>)"

theorem relayed_block_splits_replicas_witness:
  "\<exists>rs. get_block (rs ! 0) 0 = Some sample_block3 \<and>
    get_block (rs ! 1) 0 = Some (relayed [] sample_block3) \<and>
    length (transactions (relayed [] sample_block3)) = 4 \<and>
    hdr_tx_count (header (relayed [] sample_block3)) = 3"
proof -
  have h: "hdr_height (header sample_block3) = 0" "hdr_tx_count (header sample_block3) = 3"
    and len: "length (transactions sample_block3) = 3"
    by (simp_all add: sample_block3_def Let_def sample_block_height)
  have "get_leader (sample_set [1, 2] 5) 0 = Some (Address [1])"
    by (simp add: get_leader_def sample_defs less_eq_address_def)
  then have "validate_block sample_ext sample_secp sample_engine sample_block3"
    by (simp add: validate_block_def sample_block3_def sample_block_def) (simp add: sample_qc_defs)
  then show ?thesis
    using relayed_block_splits_replicas [of sample_block3 0 "[sample_engine, sample_engine]" 1
        sample_ext sample_secp "[]"] by (auto simp: h len)
qed

theorem proposals_never_validate_witness:
  "\<exists>E S b. propose_block E 7 sample_engine hash_zero = Some b \<and>
    (\<exists>v. verify_signature S v (header_hash E (header b)) [5]) \<and>
    \<not> validate_block E S sample_engine (b\<lparr>header := (header b)\<lparr>hdr_signature := [5]\<rparr>\<rparr>)"
proof -
  let ?E = "sample_ext\<lparr>ser_header := \<lambda>h. Some (ucast (hdr_height h) # hdr_signature h)\<rparr>"
  let ?S = "sample_secp\<lparr>signature_from_compact := \<lambda>s. if s = [] then None else Some s,
    verify_ecdsa := \<lambda>msg sig pk. msg = [1]\<rparr>"
  obtain b where b: "propose_block ?E 7 sample_engine hash_zero = Some b"
    by (simp add: propose_block_def Let_def chain_config_default_def sample_engine_txs)
  then have h: "hdr_height (header b) = 1" "hdr_signature (header b) = []"
    by (auto simp: propose_block_def Let_def split: if_splits)
  have hash: "header_hash ?E (header b) = Hash [1]"
    "header_hash ?E ((header b)\<lparr>hdr_signature := [5]\<rparr>) = Hash [1, 5]"
    by (simp_all add: header_hash_def hash_new_def sample_ext_def h)
  have v: "verify_signature ?S v k [5] \<longleftrightarrow> k = Hash [1]" for v k
    by (cases k) (simp add: verify_signature_def sample_secp_def)
  have "\<not> validate_block ?E ?S sample_engine (b\<lparr>header := (header b)\<lparr>hdr_signature := [5]\<rparr>\<rparr>)"
  proof (rule proposals_never_validate [where x = "[1]" and y = "[1, 5]", OF b, THEN conjunct2])
    show "vs_wf (hs_validator_set sample_engine)" by simp
    show "validators (hs_validator_set sample_engine) \<noteq> []" by (simp add: sample_defs)
    show "signature_from_compact ?S [] = None" by (simp add: sample_secp_def)
    show "verify_signature ?S v k [5] \<Longrightarrow> k = header_hash ?E (header b)" for v k by (simp only: v hash)
    show "inj_on (sha3_256 ?E) {[1], [1, 5]}" by (simp add: sample_ext_def inj_on_def)
  qed (simp_all add: h inj_on_def)
  with b v show ?thesis by (intro exI [of _ ?E] exI [of _ ?S] exI [of _ b]) (simp add: hash)
qed

end
