(* ===== verification/StateRoot.thy ===== *)
theory StateRoot
  imports Vm
begin

text \<open>
  What \<open>ProtonVM::state_root\<close> of \<^verbatim>\<open>src/src/vm/mod.rs\<close> commits to: the accounts in the iteration order of
  their hash map, with balance and nonce, and nothing else of the state.
\<close>

definition root_entry :: "address \<times> account \<Rightarrow> bytes" where
  "root_entry = (\<lambda>(a, acc). address_bytes a @ u128_le (acc_balance acc) @ u64_le (acc_nonce acc))"

definition root_input :: "vm_state \<Rightarrow> bytes" where
  "root_input st = concat (map root_entry (vm_accounts st))"

definition root_view :: "vm_state \<Rightarrow> (address \<times> u128 \<times> u64) list" where
  "root_view st = map (\<lambda>(a, acc). (a, acc_balance acc, acc_nonce acc)) (vm_accounts st)"

lemma vm_state_root_input: "vm_state_root E st = hash_new (sha3_256 E) (root_input st)"
  by (simp add: vm_state_root_def root_input_def root_entry_def)

lemma concat_records_inject:
  assumes "0 < n" and "\<forall>x \<in> set xs. length x = n" and "\<forall>y \<in> set ys. length y = n" and "concat xs = concat ys"
  shows "xs = ys"
  using assms(2-4)
proof (induction xs arbitrary: ys)
  case Nil
  show ?case
  proof (cases ys)
    case (Cons y ys')
    with Nil.prems have "y = []" "length y = n" by simp_all
    with assms(1) show ?thesis by simp
  qed simp
next
  case (Cons x xs)
  have "x \<noteq> []" using Cons.prems(1) assms(1) by force
  then have "ys \<noteq> []" using Cons.prems(3) by auto
  then obtain y ys' where ys: "ys = y # ys'" by (cases ys) simp_all
  with Cons.prems have "length x = length y" "x @ concat xs = y @ concat ys'" by simp_all
  then have "x = y" "concat xs = concat ys'" by (simp_all add: append_eq_append_conv)
  then show ?case using Cons.IH [of ys'] Cons.prems(1,2) ys by simp
qed

lemma root_entry_inject:
  assumes "address_wf a" and "address_wf b"
  shows "root_entry (a, acc) = root_entry (b, acc') \<longleftrightarrow>
    a = b \<and> acc_balance acc = acc_balance acc' \<and> acc_nonce acc = acc_nonce acc'"
proof -
  have u128: "u128_le v = u128_le w \<longleftrightarrow> v = w" for v w by (metis from_le_u128 word_unat_eq_iff)
  have "address_bytes a = address_bytes b \<longleftrightarrow> a = b" by (auto intro: address.expand)
  then show ?thesis
    using assms by (simp add: root_entry_def address_wf_def u128 del: le_bytes.simps)
qed

text \<open>
  C16. The state root binds the accounts as they are iterated, and nothing else: two states have the same
  root, short of a collision on the two strings that are hashed, exactly when their hash maps list the
  same addresses in the same order with the same balances and nonces. Contracts, code hashes and storage
  are not part of it.
\<close>
theorem state_root_binding:
  assumes "\<forall>(a, acc) \<in> set (vm_accounts st) \<union> set (vm_accounts st'). address_wf a"
    and "inj_on (sha3_256 E) {root_input st, root_input st'}"
  shows "vm_state_root E st = vm_state_root E st' \<longleftrightarrow> root_view st = root_view st'"
proof -
  have "vm_state_root E st = vm_state_root E st' \<longleftrightarrow> root_input st = root_input st'"
    using assms(2) by (auto simp: vm_state_root_input hash_new_inject dest: inj_onD)
  also have "\<dots> \<longleftrightarrow> map root_entry (vm_accounts st) = map root_entry (vm_accounts st')"
  proof
    assume eq: "root_input st = root_input st'"
    have len: "length (root_entry e) = 44" if "e \<in> set (vm_accounts st) \<union> set (vm_accounts st')" for e
    proof -
      obtain a acc where e: "e = (a, acc)" by (cases e)
      then have "address_wf a" using assms(1) that by blast
      then show ?thesis by (simp add: e root_entry_def address_wf_def del: le_bytes.simps)
    qed
    show "map root_entry (vm_accounts st) = map root_entry (vm_accounts st')"
      by (rule concat_records_inject [where n = 44]) (use eq len in \<open>simp_all add: root_input_def\<close>)
  qed (simp add: root_input_def)
  also have "\<dots> \<longleftrightarrow> root_view st = root_view st'"
  proof -
    have "map root_entry xs = map root_entry ys \<longleftrightarrow>
        map (\<lambda>(a, acc). (a, acc_balance acc, acc_nonce acc)) xs = map (\<lambda>(a, acc). (a, acc_balance acc, acc_nonce acc)) ys"
      if "\<forall>(a, acc) \<in> set xs \<union> set ys. address_wf a" for xs ys
      using that
    proof (induction xs arbitrary: ys)
      case (Cons x xs)
      then show ?case by (cases x; cases ys) (auto simp: root_entry_inject)
    qed simp
    then show ?thesis using assms(1) by (simp add: root_view_def)
  qed
  finally show ?thesis .
qed

theorem state_root_binding_witness:
  "\<exists>st st'. hm_wf (vm_accounts st) \<and> hm_wf (vm_accounts st') \<and> hm_get (vm_accounts st) = hm_get (vm_accounts st') \<and>
    vm_state_root sample_ext st \<noteq> vm_state_root sample_ext st'"
proof -
  let ?a = "(Address (replicate 20 1), account_default)" and ?b = "(Address (replicate 20 2), account_default)"
  let ?st = "sample_vm\<lparr>vm_accounts := [?a, ?b]\<rparr>" and ?st' = "sample_vm\<lparr>vm_accounts := [?b, ?a]\<rparr>"
  have "inj_on (sha3_256 sample_ext) {root_input ?st, root_input ?st'}" by (simp add: sample_ext_def)
  then have "vm_state_root sample_ext ?st = vm_state_root sample_ext ?st' \<longleftrightarrow> root_view ?st = root_view ?st'"
    by (intro state_root_binding) (simp_all add: address_wf_def)
  moreover have "root_view ?st \<noteq> root_view ?st'" by (simp add: root_view_def numeral_eq_Suc)
  moreover have "hm_wf (vm_accounts ?st)" "hm_wf (vm_accounts ?st')"
    "hm_get (vm_accounts ?st) = hm_get (vm_accounts ?st')"
    by (auto simp: hm_wf_def hm_get_def fun_eq_iff numeral_eq_Suc)
  ultimately show ?thesis by blast
qed

end
