(* ===== verification/Gas.thy ===== *)
theory Gas
  imports HotStuff Vm
begin

text \<open>
  What the gas limits limit (\<^verbatim>\<open>src/src/vm/mod.rs\<close>, \<^verbatim>\<open>src/src/consensus/mod.rs\<close>): nothing. The limit of a
  transaction is read in its \<open>gas_cost\<close> only, which transfers are charged in advance and the other kinds
  not at all; what execution uses is never compared with it. The limit of a block is stored in the
  configuration and in the block context and read nowhere.
\<close>

definition same_but_gas :: "transaction \<Rightarrow> transaction \<Rightarrow> bool" where
  "same_but_gas tx tx' \<longleftrightarrow> (\<exists>l p. tx' = tx\<lparr>tx_gas_limit := l, tx_gas_price := p\<rparr>)"

lemma same_but_gas_simps:
  assumes "same_but_gas tx tx'"
  shows "tx_type tx' = tx_type tx" "tx_from tx' = tx_from tx" "tx_to tx' = tx_to tx" "tx_value tx' = tx_value tx"
    "tx_data tx' = tx_data tx" "tx_nonce tx' = tx_nonce tx"
  using assms by (auto simp: same_but_gas_def)

text \<open>
  Contract calls and deployments are free and unlimited: with any other limit and any other price
  they succeed or fail alike, use as much gas and leave the same state.
\<close>
theorem contracts_ignore_gas:
  assumes "same_but_gas tx tx'" and "tx_type tx = ContractCall \<or> tx_type tx = ContractDeploy"
  shows "snd (execute_transaction E G tx' st) = snd (execute_transaction E G tx st) \<and>
    success (fst (execute_transaction E G tx' st)) = success (fst (execute_transaction E G tx st)) \<and>
    gas_used (fst (execute_transaction E G tx' st)) = gas_used (fst (execute_transaction E G tx st))"
  using assms(2) same_but_gas_simps [OF assms(1)]
  by (auto simp: execute_transaction_def execute_contract_call_def execute_contract_deploy_def contract_address_def
      execute_wasm_def execute_evm_def execute_native_def Let_def split: option.split vm_type.split)

text \<open>
  A transfer with a gas limit of 0 is free: if the balance covers the value it succeeds, uses twice
  the base cost, moves the value and burns nothing, at any gas price. A high price with a limit of 0
  is also first in the queue of the mempool, which looks at the price.
\<close>
theorem zero_gas_limit_is_free:
  assumes "vm_wf st" and "tx_type tx = Transfer" and "tx_gas_limit tx = 0"
    and "tx_to tx = Some r" and "r \<noteq> tx_from tx" and "tx_value tx \<le> balance_of st (tx_from tx)"
  shows "success (fst (execute_transaction E G tx st)) \<and>
    gas_used (fst (execute_transaction E G tx st)) = 2 * base_tx_cost G \<and>
    vm_supply (snd (execute_transaction E G tx st)) = vm_supply st \<and>
    balance_of (snd (execute_transaction E G tx st)) r = balance_of st r + tx_value tx"
proof -
  have cost: "gas_cost tx = 0" using assms(3) by (simp add: gas_cost_def)
  then have le: "tx_value tx + gas_cost tx \<le> balance_of st (tx_from tx)" using assms(6) by simp
  have ex: "execute_transaction E G tx st = execute_transfer G tx (base_tx_cost G) st"
    using assms(2) by (simp add: execute_transaction_def Let_def)
  have "gas_used (fst (execute_transfer G tx (base_tx_cost G) st)) = 2 * base_tx_cost G"
    using leD [OF le] by (simp add: execute_transfer_def Let_def balance_of_def)
  moreover have "vm_supply (snd (execute_transfer G tx (base_tx_cost G) st)) = vm_supply st"
    using transfer_supply [OF assms(1), of G tx "base_tx_cost G"] leD [OF le] assms(4,5) cost by simp
  moreover have "balance_of (snd (execute_transfer G tx (base_tx_cost G) st)) r = balance_of st r + tx_value tx"
    using assms(5) by (simp add: transfer_other [OF le assms(4,5)] balance_of_def account_at_apply)
  ultimately show ?thesis using transfer_success [OF le, of G "base_tx_cost G"] by (simp add: ex)
qed

text \<open>
  The gas limit of a block binds neither its proposer nor those who validate it: both do the same for
  every value of it.
\<close>
theorem block_gas_limit_unused:
  "propose_block E now (hs\<lparr>hs_config := (hs_config hs)\<lparr>cfg_max_block_gas := g\<rparr>\<rparr>) prev = propose_block E now hs prev"
  "validate_block E S (hs\<lparr>hs_config := (hs_config hs)\<lparr>cfg_max_block_gas := g\<rparr>\<rparr>) b = validate_block E S hs b"
  by (simp_all add: propose_block_def validate_block_def Let_def)

end
