(* ===== verification/Spec2Isabelle.thy ===== *)
theory Spec2Isabelle
  imports NodePools Running Adaptive Parallel Cli Rocks AccountStore StakingAccounts TokenLedger BridgeLog DexBooks
    NftLog DagAgree CrossLedger Replicas StateRoot Gas
begin

text \<open>
  A verification development for Proton Chain, a layer-1 blockchain in Rust: the node library under
  \<^verbatim>\<open>src/src\<close> and the Rust contracts under \<^verbatim>\<open>src/contracts\<close>. Every definition is a shallow embedding of the
  code that its theory names; every operation returns the state that it leaves behind.

  \<^bold>\<open>The program and the theories.\<close> Each theory models one file, or one part of one, and imports what that
  part calls.

  \<^item> \<open>Prelude\<close>: Rust's integers as words, \<open>Result\<close>, byte strings, \<open>HashMap\<close> (\<open>hm_get\<close>, \<open>hm_insert\<close>,
    \<open>hm_remove\<close>), \<open>BTreeMap\<close> (\<open>bt_get\<close>, ...), and the locale \<open>map_api\<close> that both satisfy.
  \<^item> \<open>Types\<close> (\<^verbatim>\<open>src/src/types/mod.rs\<close>): hashes, addresses, transactions, blocks, the configuration, and the
    Merkle root (\<open>merkle_root\<close> models \<^verbatim>\<open>MerkleTree::root\<close>).
  \<^item> \<open>Validators\<close>, \<open>Mempool\<close>, \<open>HotStuff\<close>, \<open>Dag\<close> (\<^verbatim>\<open>src/src/consensus/mod.rs\<close>): the validator set with leader
    and committee selection and quorum certificates; the pool of pending transactions with its three
    indexes; the engine that proposes, validates and finalises blocks over both; the block DAG with its
    ancestor search and topological sort. \<open>DagAgree\<close>: what the sorts of two nodes have in common. \<open>PoolQueue\<close>: the contract of the pool as a queue by price;
    \<open>Leader\<close>: an engine that proposes and finalises round after round; \<open>Replicas\<close>: several engines to
    which blocks are published.
  \<^item> \<open>Storage\<close> (\<^verbatim>\<open>src/src/storage/mod.rs\<close>): the \<open>Database\<close> trait, the in-memory database, the storage with
    its cache and pending batch, snapshots and pruning.
    \<open>Rocks\<close>: the RocksDB adapter, over the crate as a record of operations. \<open>AccountStore\<close>: what the
    storage promises for accounts, as a specification that it refines.
  \<^item> \<open>Vm\<close> (\<^verbatim>\<open>src/src/vm/mod.rs\<close>): transaction execution, sequential and parallel blocks, gas estimates.
    \<open>Parallel\<close> compares the two executors, \<open>StateRoot\<close> says what the state root commits to, \<open>Gas\<close>
    what the gas limits limit.
  \<^item> \<open>Multichain\<close> (\<^verbatim>\<open>src/src/multichain/mod.rs\<close>): the router of cross-shard transactions and the shard
    manager; each shard owns an engine of \<open>HotStuff\<close> and a VM state of \<open>Vm\<close>. \<open>CrossLedger\<close>: what any sequence of
    calls does, from its log, and honest calls as an escrow. \<open>Adaptive\<close>: the load
    estimates, on the doubles of \<open>F64\<close>.
  \<^item> \<open>Network\<close> (\<^verbatim>\<open>src/src/network/mod.rs\<close>): topics, event loop, broadcasting, batching, block requests.
  \<^item> \<open>Privacy\<close> (\<^verbatim>\<open>src/src/privacy/mod.rs\<close>): the circuit of a private transfer, the proof manager, stealth
    addresses, the encrypted mempool, the builder of private transactions (executed by \<open>Vm\<close>).
  \<^item> \<open>Node\<close>, \<open>NodePools\<close>, \<open>Running\<close> (\<^verbatim>\<open>src/src/lib.rs\<close>): the node, which owns one of each of the above; what
    its shards hold after submissions; the node with its background tasks (\<open>start\<close> of the engine,
    \<open>ShardSync\<close>, \<open>StatePruner\<close>) as interleaved steps.
  \<^item> \<open>Cli\<close> (\<^verbatim>\<open>src/src/bin/cli.rs\<close>): what each command prints, writes and starts.
  \<^item> \<open>Sdk\<close> (\<^verbatim>\<open>src/src/sdk.rs\<close>): what the contracts run on: host storage, \<open>Map\<close>, \<open>Set\<close>, \<open>u256\<close>, token and
    event calls; \<open>Zk\<close>: its context functions and proof checks. \<open>Staking\<close>, \<open>Bridge\<close>, \<open>Dex\<close>, \<open>Nft\<close>, \<open>PrivateToken\<close> (\<^verbatim>\<open>src/contracts/*.rs\<close>) are its clients.
    \<open>StakingLedger\<close> and \<open>TokenLedger\<close> hold abstract specifications of two of them, \<open>Simulation\<close> the
    refinement argument that both use and that of invariants; \<open>StakingAccounts\<close> the account of each delegator; \<open>BridgeLog\<close>, \<open>DexBooks\<close> and \<open>NftLog\<close> follow the other three
    through any sequence of calls, against their event logs.

  \<^bold>\<open>State and effects.\<close> A struct is a record with the fields of the source, an enum a datatype with its
  variants. Interior mutability (\<open>RwLock\<close>) is explicit state passing: an operation holds its locks from the
  first read to the last write, so it is one step; the theories say where this matters. Interleavings are
  step relations: \<open>cross_reach\<close> (honest sends, deliveries and routing over all shards) and \<open>cross_calls\<close> (any
  calls, with their log), \<open>staking_step\<close>,
  \<open>token_step\<close>, \<open>bridge_step\<close>, \<open>dex_step\<close> and \<open>nft_step\<close> (any caller, any entry point), \<open>replicas_step\<close>
  (engines that take transactions and accept published blocks), \<open>node_step\<close> (submissions and timer ticks), \<open>sorts_to\<close> (the orders in which a hash map may be walked), \<open>store_step\<close> (the storage
  and its restarts), and the choice of an order in \<open>execute_block_parallel\<close>.

  \<^bold>\<open>Integers and errors.\<close> Integers have their width and wrap, as in the release profile; \<open>usize\<close> counts
  are natural numbers. \<open>Err\<close> is the left summand. A panic (index out of range, division by zero, a failed
  \<open>require\<close>) is \<open>None\<close>, and so is a call that waits for a lock that is never released. Where a waiting call has
  changed the state first, \<open>Network\<close> gives the state in which it waits (\<open>rs_call\<close>). Sums of \<open>u128\<close> amounts are
  sums modulo \<open>2^128\<close>, and equations between them say so; \<open>funds\<close> in \<open>Vm\<close> is a sum over the natural numbers.

  \<^bold>\<open>Loops and fuel.\<close> \<open>kahn_loop\<close> runs on one unit of fuel per vertex, and \<open>topological_sort_order\<close> shows
  that this is enough; \<open>kahn_while\<close> is the same loop without fuel, and \<open>topological_sort_terminates\<close> that
  it ends with the same result. All other loops are recursive functions with a proof of termination: \<open>ancestor_loop\<close>
  by the vertices that are not visited yet, \<open>sqrt_loop\<close> by the estimate, \<open>merkle_loop\<close> by the length of the
  level. The event loop and the batch timer run over a finite list of events or a number of ticks.

  \<^bold>\<open>What is outside.\<close> Crates are parameters: SHA3, bincode, \<^verbatim>\<open>serde_json\<close>, bs58 (encoders, with their round
  trip as a hypothesis where it is used), secp256k1, the seeded shuffle, the LRU cache (locale \<open>lru_cache\<close>),
  the libp2p swarm, tokio's channels, arkworks' setup and prover, ChaCha20-Poly1305. So are the host functions of
  the contracts and a few names that the source calls and defines nowhere (the hash of an address in
  \<^verbatim>\<open>route_transaction\<close>, \<^verbatim>\<open>verify_validator_signature\<close>, \<^verbatim>\<open>CHAIN_ID\<close>). A hypothesis such as the absence of a
  collision is stated for the finitely many inputs that matter, never for all of them.

  \<^bold>\<open>Interfaces.\<close> \<open>map_api\<close> is interpreted as \<open>hm\<close> and \<open>bt\<close>; \<open>weighted_vote\<close> (stake-weighted quorums and
  their overlap) as \<open>vote\<close> on the validator set; \<open>database\<close> and its extension \<open>prefix_database\<close> as \<open>mem\<close> on \<open>MemoryDB\<close>, and every
  \<open>rocks_crate\<close> gives a \<open>database\<close> through the adapter (a sublocale; \<open>btree_crate\<close> is an instance of the
  crate's contract); \<open>price_queue\<close> as \<open>pool\<close> on the mempool; \<open>lru_cache\<close> as \<open>list_lru\<close>; \<open>simulation\<close> as \<open>token_sim\<close>,
  \<open>staking_sim\<close>, \<open>store_sim\<close> and \<open>escrow_sim\<close>; \<open>step_invariant\<close> as \<open>bridge_calls\<close>, \<open>dex_calls\<close>, \<open>nft_calls\<close>, \<open>staking_calls\<close> and \<open>replica_runs\<close>.

  \<^bold>\<open>What is shown.\<close>

  \<^item> Consensus: the sort lists parents first, everything that has its ancestors, and the same on every node, in
    an order on which two nodes agree for descendants only; the ancestor search lists
    exactly what is reachable; the mempool is a queue by price whose indexes stay in agreement, and a
    leader's rounds hand all of it out; a certificate verifies exactly for the validators with two thirds
    of the stake, and two of them agree while fewer than a third are dishonest; leaders rotate; what accepting a block means exactly; engines
    agree on headers unless a leader signs two, and what else they may still disagree on.
  \<^item> Money: what each kind of transaction does to the sum of all balances modulo \<open>2^128\<close>; that blocks of
    transfers, for every schedule, and a leader's chain of them burn exactly the gas of those that succeed,
    modulo \<open>2^128\<close>, and over the natural numbers if nothing overflows; that honest cross-shard transfers keep it under every interleaving, and what any others create or lose; that the staking contract owes every delegator
    what it drew from him, under any calls.
  \<^item> Storage: committed accounts are durable, over both databases, and under any sequence of operations,
    failures and restarts reads and commits follow the specification; snapshots restore over \<open>MemoryDB\<close>,
    and read records that are no accounts over RocksDB.
  \<^item> Execution: on blocks without a common account the parallel executor returns what the sequential one
    does; a leader's chain of blocks executes its pool, each transaction once; what the state root binds.
  \<^item> Node: a started node stays well formed and a successful submission reaches a mempool; no interleaving
    of ticks and submissions makes it propose anything; its event loop drops every message and lets none
    out: what would send waits for ever, requests and batches recorded or taken before included. Shards
    that should all be split are not shards that should be merged, in spite of rounding; together with idle
    or missing ones they may be.
  \<^item> Contracts: the private token refines a ledger whose supply is backed; the books of the staking
    contract balance; the pairs of the exchange are the sums of its log and deposits never dilute; the
    bridge and the NFT contract do what their logs say and nothing else; the integer square root, the
    constant product, unbonding, single use of nullifiers, 256-bit arithmetic.
  \<^item> Deviations of the code from its intent, each as a theorem about the code as it is: among them the
    bridge that never executes a transfer, the NFT that nobody can transfer, the transfer whose cost wraps,
    the transaction batch that deadlocks, the private transfer that moves nothing, the key files that hold no secrets, the
    proposals whose signature is part of what it signs, the chain that keeps only its last block, the block that can be
    extended under its signature, the transfer that can be replayed, the private amount that everybody
    can read, the cross-shard delivery that makes money, the node command that always panics.

  \<^bold>\<open>What is not modelled.\<close> Logging and the argument parser; the report of the benchmark command, in the
  middle of which its source ends; the thread pool and the channels as such (a schedule, a parameter). A double is
  never negative here, so \<open>F64\<close> has no signs. The Solidity contracts are a different program.

  No code executes the blocks of a shard on its virtual machine, orders a block by the DAG, or checks a
  certificate before a block is stored; so the theorems about these parts are not composed further than
  the code composes them.
\<close>

end
